(* ===== verification/Prelude.thy ===== *)
theory Prelude
  imports Main "HOL-Library.Word" "HOL-Library.Multiset"
begin

text \<open>
  Shared layer of the development: C strings held in character arrays and the
  \<^verbatim>\<open>string.h\<close> routines the program uses, results of operations that can fail,
  decimal printing, and the lemmas and simp sets the component theories share.

  A character array is a \<open>string\<close> (one \<open>char\<close> per byte, as long as the array);
  \<open>cstr\<close> reads the C string it holds, up to the first NUL byte. A C string that is
  passed around as a pointer is its contents, a \<open>string\<close> without NUL.
\<close>

unbundle bit_operations_syntax

named_theorems c_string \<open>equations about C strings and character arrays\<close>
named_theorems result_simps \<open>equations about results of fallible operations\<close>

type_synonym u8 = "8 word"
type_synonym u16 = "16 word"
type_synonym u32 = "32 word"
type_synonym u64 = "64 word"

section \<open>Results\<close>

text \<open>An operation that can fail returns \<open>Inl\<close> of its error or \<open>Inr\<close> of its result.\<close>

definition bindR :: "'e + 'a \<Rightarrow> ('a \<Rightarrow> 'e + 'b) \<Rightarrow> 'e + 'b" where
  "bindR r f = (case r of Inl e \<Rightarrow> Inl e | Inr x \<Rightarrow> f x)"

definition guardR :: "bool \<Rightarrow> 'e \<Rightarrow> 'e + unit" where
  "guardR b e = (if b then Inr () else Inl e)"

lemma bindR_simps [simp, result_simps]:
  "bindR (Inl e) f = Inl e"
  "bindR (Inr x) f = f x"
  by (simp_all add: bindR_def)

lemma bindR_Inr_iff [result_simps]:
  "bindR r f = Inr y \<longleftrightarrow> (\<exists>x. r = Inr x \<and> f x = Inr y)"
  by (cases r) auto

lemma guardR_Inr_iff [simp, result_simps]: "guardR b e = Inr u \<longleftrightarrow> b"
  by (auto simp: guardR_def)

lemma guardR_simps [simp, result_simps]:
  "guardR True e = Inr ()"
  "guardR False e = Inl e"
  by (simp_all add: guardR_def)

section \<open>C strings\<close>

abbreviation NUL :: char where
  "NUL \<equiv> CHR 0x00"

definition cstr :: "string \<Rightarrow> string" where
  "cstr buf = takeWhile (\<lambda>c. c \<noteq> NUL) buf"

definition is_cstr :: "string \<Rightarrow> bool" where
  "is_cstr s = (NUL \<notin> set s)"

lemma is_cstr_Nil [simp]: "is_cstr []"
  by (simp add: is_cstr_def)

lemma is_cstr_Cons [simp]: "is_cstr (c # s) \<longleftrightarrow> c \<noteq> NUL \<and> is_cstr s"
  by (auto simp: is_cstr_def)

lemma is_cstr_append [simp]: "is_cstr (s @ t) \<longleftrightarrow> is_cstr s \<and> is_cstr t"
  by (auto simp: is_cstr_def)

lemma is_cstr_take [simp]: "is_cstr s \<Longrightarrow> is_cstr (take n s)"
  by (auto simp: is_cstr_def dest: in_set_takeD)

lemma is_cstr_drop [simp]: "is_cstr s \<Longrightarrow> is_cstr (drop n s)"
  by (auto simp: is_cstr_def dest: in_set_dropD)

lemma is_cstr_cstr [simp]: "is_cstr (cstr buf)"
  by (auto simp: is_cstr_def cstr_def dest: set_takeWhileD)

lemma cstr_Nil [simp]: "cstr [] = []"
  by (simp add: cstr_def)

lemma cstr_Cons: "cstr (c # s) = (if c = NUL then [] else c # cstr s)"
  by (simp add: cstr_def)

lemma cstr_id [simp, c_string]: "is_cstr s \<Longrightarrow> cstr s = s"
  by (induction s) (auto simp: cstr_Cons)

lemma cstr_append_NUL [simp, c_string]: "cstr (s @ NUL # t) = cstr s"
  by (induction s) (auto simp: cstr_Cons)

lemma cstr_idem [simp]: "cstr (cstr s) = cstr s"
  by simp

lemma length_cstr: "length (cstr s) \<le> length s"
  by (simp add: cstr_def length_takeWhile_le)

lemma length_cstr_terminated: "NUL \<in> set s \<Longrightarrow> length (cstr s) < length s"
  by (induction s) (auto simp: cstr_Cons)

subsection \<open>Comparison\<close>

text \<open>
  \<^verbatim>\<open>strcmp\<close> compares as unsigned characters; the C standard fixes only the sign of its
  result, and the program uses only the sign.
\<close>

fun strcmp :: "string \<Rightarrow> string \<Rightarrow> int" where
  "strcmp [] [] = 0"
| "strcmp [] (y # ys) = -1"
| "strcmp (x # xs) [] = 1"
| "strcmp (x # xs) (y # ys) =
     (if x = y then strcmp xs ys
      else if (of_char x :: nat) < of_char y then -1 else 1)"

fun strncmp :: "string \<Rightarrow> string \<Rightarrow> nat \<Rightarrow> int" where
  "strncmp s t 0 = 0"
| "strncmp [] [] (Suc n) = 0"
| "strncmp [] (y # ys) (Suc n) = -1"
| "strncmp (x # xs) [] (Suc n) = 1"
| "strncmp (x # xs) (y # ys) (Suc n) =
     (if x = y then strncmp xs ys n
      else if (of_char x :: nat) < of_char y then -1 else 1)"

lemma of_char_nat_eq_iff: "(of_char x :: nat) = of_char y \<longleftrightarrow> x = y"
  by (rule of_char_eq_iff)

lemma strcmp_eq_0_iff [simp, c_string]: "strcmp s t = 0 \<longleftrightarrow> s = t"
  by (induction s t rule: strcmp.induct) auto

lemma strcmp_refl [simp, c_string]: "strcmp s s = 0"
  by simp

lemma strncmp_eq_0_iff [simp, c_string]: "strncmp s t n = 0 \<longleftrightarrow> take n s = take n t"
  by (induction s t n rule: strncmp.induct) auto

lemma strcmp_swap: "strcmp t s = - strcmp s t"
  by (induction s t rule: strcmp.induct)
    (auto simp: not_less dest!: order_antisym simp: of_char_nat_eq_iff)

lemma strcmp_trans: "strcmp r s \<le> 0 \<Longrightarrow> strcmp s t \<le> 0 \<Longrightarrow> strcmp r t \<le> 0"
proof (induction r s arbitrary: t rule: strcmp.induct)
  case (4 x xs y ys)
  then show ?case
    by (cases t) (auto split: if_splits)
next
  case (2 y ys)
  then show ?case by (cases t) auto
qed auto

text \<open>
  The order \<^verbatim>\<open>strcmp\<close> induces, as an instance of the library's linear orders, so that
  \<open>sorted\<close> and its lemmas apply to arrays ordered by \<^verbatim>\<open>strcmp\<close>.
\<close>

datatype cstring = CStr (contents: string)

instantiation cstring :: linorder
begin

definition less_eq_cstring :: "cstring \<Rightarrow> cstring \<Rightarrow> bool" where
  "less_eq_cstring s t \<longleftrightarrow> strcmp (contents s) (contents t) \<le> 0"

definition less_cstring :: "cstring \<Rightarrow> cstring \<Rightarrow> bool" where
  "less_cstring s t \<longleftrightarrow> strcmp (contents s) (contents t) < 0"

instance
proof
  fix r s t :: cstring
  show "s < t \<longleftrightarrow> s \<le> t \<and> \<not> t \<le> s"
    using strcmp_swap [of "contents s" "contents t"]
    by (auto simp: less_cstring_def less_eq_cstring_def)
  show "s \<le> s"
    by (simp add: less_eq_cstring_def strcmp_refl del: strcmp_eq_0_iff)
  show "r \<le> s \<Longrightarrow> s \<le> t \<Longrightarrow> r \<le> t"
    by (auto simp: less_eq_cstring_def intro: strcmp_trans)
  show "s \<le> t \<Longrightarrow> t \<le> s \<Longrightarrow> s = t"
    using strcmp_swap [of "contents s" "contents t"]
    by (cases s; cases t) (auto simp: less_eq_cstring_def dest: order_antisym)
  show "s \<le> t \<or> t \<le> s"
    using strcmp_swap [of "contents s" "contents t"]
    by (auto simp: less_eq_cstring_def)
qed

end

lemma strcmp_less_0_iff [c_string]: "strcmp s t < 0 \<longleftrightarrow> CStr s < CStr t"
  by (simp add: less_cstring_def)

lemma strcmp_le_0_iff [c_string]: "strcmp s t \<le> 0 \<longleftrightarrow> CStr s \<le> CStr t"
  by (simp add: less_eq_cstring_def)

subsection \<open>Copying into arrays\<close>

text \<open>
  \<^verbatim>\<open>strncpy(dst, src, n)\<close>: at most \<open>n\<close> characters of \<open>src\<close>, NUL padding up to \<open>n\<close>, the
  rest of the array unchanged. \<open>copy_field\<close> is the program's idiom
  \<^verbatim>\<open>strncpy(f, src, sizeof(f) - 1); f[sizeof(f) - 1] = '\0';\<close>.
\<close>

definition strncpy :: "string \<Rightarrow> string \<Rightarrow> nat \<Rightarrow> string" where
  "strncpy dst src n = take n src @ replicate (n - length src) NUL @ drop n dst"

definition copy_field :: "nat \<Rightarrow> string \<Rightarrow> string \<Rightarrow> string" where
  "copy_field sz dst src = (strncpy dst src (sz - 1))[sz - 1 := NUL]"

lemma length_strncpy [simp]: "n \<le> length dst \<Longrightarrow> length (strncpy dst src n) = length dst"
  by (simp add: strncpy_def)

lemma length_copy_field [simp]:
  "length dst = sz \<Longrightarrow> length (copy_field sz dst src) = sz"
  by (simp add: copy_field_def)

lemma copy_field_eq:
  assumes "length dst = sz" and "0 < sz"
  shows "copy_field sz dst src = take (sz - 1) src @ replicate (sz - length (take (sz - 1) src)) NUL"
proof -
  obtain n where sz: "sz = Suc n" using \<open>0 < sz\<close> by (cases sz) auto
  have drop: "drop n dst = [dst ! n]"
    using assms sz by (metis Cons_nth_drop_Suc drop_all lessI order_refl)
  have len: "length (take n src @ replicate (n - length src) NUL) = n" by simp
  have "(take n src @ replicate (n - length src) NUL @ [dst ! n])[n := NUL]
      = (take n src @ replicate (n - length src) NUL) @ [NUL]"
    by (subst append.assoc [symmetric], subst list_update_append) (simp only: len, simp)
  also have "\<dots> = take n src @ replicate (n - length src) NUL @ [NUL]" by simp
  also have "replicate (n - length src) NUL @ [NUL] = replicate (Suc (n - length src)) NUL"
    by (simp only: replicate_append_same replicate_Suc)
  finally show ?thesis
    by (auto simp: copy_field_def strncpy_def sz drop min_def Suc_diff_le)
qed

lemma cstr_copy_field [simp, c_string]:
  assumes "length dst = sz" and "0 < sz" and "is_cstr src"
  shows "cstr (copy_field sz dst src) = take (sz - 1) src"
proof -
  have "0 < sz - length (take (sz - 1) src)" using \<open>0 < sz\<close> by (auto simp: min_def)
  then obtain m where "sz - length (take (sz - 1) src) = Suc m"
    by (metis gr0_conv_Suc)
  then show ?thesis using assms by (simp add: copy_field_eq)
qed

text \<open>What \<^verbatim>\<open>snprintf\<close> leaves in a buffer of \<open>sz\<close> bytes when it formats \<open>s\<close>.\<close>

definition snprintf :: "nat \<Rightarrow> string \<Rightarrow> string" where
  "snprintf sz s = take (sz - 1) s"

lemma snprintf_fits [simp, c_string]: "length s < sz \<Longrightarrow> snprintf sz s = s"
  by (simp add: snprintf_def)

text \<open>\<^verbatim>\<open>strchr\<close> for a separator, with the two halves the program reads afterwards.\<close>

definition strchr_split :: "char \<Rightarrow> string \<Rightarrow> (string \<times> string) option" where
  "strchr_split c s =
     (case dropWhile (\<lambda>x. x \<noteq> c) s of
        [] \<Rightarrow> None
      | _ # rest \<Rightarrow> Some (takeWhile (\<lambda>x. x \<noteq> c) s, rest))"

lemma strchr_split_None [simp, c_string]: "c \<notin> set s \<Longrightarrow> strchr_split c s = None"
  by (auto simp: strchr_split_def dropWhile_eq_Nil_conv split: list.split
      dest: arg_cong [where f = "\<lambda>xs. xs = []"])

lemma strchr_split_append [simp, c_string]:
  "c \<notin> set k \<Longrightarrow> strchr_split c (k @ c # v) = Some (k, v)"
proof -
  assume "c \<notin> set k"
  then have "\<And>x. x \<in> set k \<Longrightarrow> x \<noteq> c" by blast
  then have "takeWhile (\<lambda>x. x \<noteq> c) (k @ c # v) = k"
    and "dropWhile (\<lambda>x. x \<noteq> c) (k @ c # v) = c # v"
    by (simp_all add: takeWhile_append2 dropWhile_append2)
  then show ?thesis by (simp add: strchr_split_def)
qed

lemma strchr_split_Some:
  "strchr_split c s = Some (k, v) \<Longrightarrow> s = k @ c # v \<and> c \<notin> set k"
proof -
  assume h: "strchr_split c s = Some (k, v)"
  then obtain x where d: "dropWhile (\<lambda>x. x \<noteq> c) s = x # v" and k: "k = takeWhile (\<lambda>x. x \<noteq> c) s"
    by (auto simp: strchr_split_def split: list.splits)
  from d have "x = c" by (metis (full_types) dropWhile_eq_Cons_conv)
  with d k have "s = k @ c # v" by (metis takeWhile_dropWhile_id)
  moreover from k have "c \<notin> set k" by (auto dest: set_takeWhileD)
  ultimately show ?thesis by simp
qed

text \<open>The line ending of the protocol, \<^verbatim>\<open>"\r\n"\<close>.\<close>

definition crlf :: string where
  "crlf = [CHR 0x0D, CHR 0x0A]"

subsection \<open>Decimal printing\<close>

text \<open>\<^verbatim>\<open>%zu\<close>, \<^verbatim>\<open>%u\<close> and \<^verbatim>\<open>%d\<close> of a non-negative number.\<close>

fun dec_digits :: "nat \<Rightarrow> string" where
  "dec_digits n =
     (if n < 10 then [char_of (48 + n)] else dec_digits (n div 10) @ [char_of (48 + n mod 10)])"

declare dec_digits.simps [simp del]

text \<open>\<^verbatim>\<open>%d\<close> of an unsigned 32-bit value.\<close>

definition signed_digits :: "u32 \<Rightarrow> string" where
  "signed_digits w =
     (if sint w < 0 then CHR ''-'' # dec_digits (nat (- sint w)) else dec_digits (nat (sint w)))"

lemma is_cstr_dec_digits [simp]: "is_cstr (dec_digits n)"
proof (induction n rule: dec_digits.induct)
  case (1 n)
  have nz: "char_of (48 + k) \<noteq> NUL" if "k < 10" for k :: nat
  proof
    assume "char_of (48 + k) = NUL"
    then have "(of_char (char_of (48 + k) :: char) :: nat) = of_char NUL" by simp
    with that show False by simp
  qed
  show ?case
    using 1 by (subst dec_digits.simps) (auto simp: nz simp del: of_char_of)
qed

lemma length_dec_digits: "n < 10 ^ k \<Longrightarrow> 0 < k \<Longrightarrow> length (dec_digits n) \<le> k"
proof (induction n arbitrary: k rule: dec_digits.induct)
  case (1 n)
  show ?case
  proof (cases "n < 10")
    case True
    with 1 show ?thesis by (simp add: dec_digits.simps [of n])
  next
    case False
    then obtain j where k: "k = Suc j" "0 < j"
      using 1 by (cases k; cases "k - 1") auto
    have "n div 10 < 10 ^ j" using 1(2) k by (simp add: less_mult_imp_div_less mult.commute)
    with 1(1) False k have "length (dec_digits (n div 10)) \<le> j" by simp
    with False k show ?thesis by (simp add: dec_digits.simps [of n])
  qed
qed


end
