(* ===== verification/KV_Interface.thy ===== *)
theory KV_Interface
  imports Prelude
begin

text \<open>
  The contract of a key-value store, as the two stores of the repository (the server's
  hash table and the LSM tree) promise it to their callers. \<open>store s k v s'\<close> says that
  a call that stores \<open>v\<close> under \<open>k\<close> in state \<open>s\<close> succeeds and leaves \<open>s'\<close>; \<open>lookup\<close>
  is what a caller reads; \<open>norm\<close> is what the store keeps of a value (both stores cut
  values to their array); \<open>ok\<close> are the keys the store keeps unchanged.
\<close>

fun store_all :: "('s \<Rightarrow> 'k \<Rightarrow> 'w \<Rightarrow> 's \<Rightarrow> bool) \<Rightarrow> 's \<Rightarrow> ('k \<times> 'w) list \<Rightarrow> 's \<Rightarrow> bool" where
  "store_all st s [] s' \<longleftrightarrow> s' = s"
| "store_all st s ((k, v) # kvs) s' \<longleftrightarrow> (\<exists>t. st s k v t \<and> store_all st t kvs s')"

section \<open>Read your own write\<close>

text \<open>
  The weaker contract: a stored key reads back as stored, and storing one key neither
  adds nor loses another one.
\<close>

locale kv_basic =
  fixes lookup :: "'s \<Rightarrow> 'k \<Rightarrow> 'v option"
    and store :: "'s \<Rightarrow> 'k \<Rightarrow> 'w \<Rightarrow> 's \<Rightarrow> bool"
    and invar :: "'s \<Rightarrow> bool"
    and norm :: "'w \<Rightarrow> 'v"
    and ok :: "'k \<Rightarrow> bool"
  assumes store_invar: "invar s \<Longrightarrow> ok k \<Longrightarrow> store s k v s' \<Longrightarrow> invar s'"
    and lookup_stored: "invar s \<Longrightarrow> ok k \<Longrightarrow> store s k v s' \<Longrightarrow> lookup s' k = Some (norm v)"
    and store_keys: "invar s \<Longrightarrow> ok k \<Longrightarrow> store s k v s' \<Longrightarrow> k' \<noteq> k \<Longrightarrow>
      (lookup s' k' = None \<longleftrightarrow> lookup s k' = None)"
begin

lemma store_all_invar:
  "invar s \<Longrightarrow> \<forall>(k, v) \<in> set kvs. ok k \<Longrightarrow> store_all store s kvs s' \<Longrightarrow> invar s'"
proof (induction kvs arbitrary: s)
  case (Cons kv kvs)
  then show ?case by (cases kv) (auto dest: store_invar)
qed simp

lemma store_all_last:
  assumes "invar s" and "\<forall>(k, v) \<in> set kvs. ok k" and "ok k"
    and "store_all store s kvs t" and "store t k v s'"
  shows "lookup s' k = Some (norm v)"
  using assms by (blast intro: lookup_stored store_all_invar)

lemma store_all_keys:
  assumes "invar s" and "\<forall>(k, v) \<in> set kvs. ok k" and "store_all store s kvs s'"
  shows "lookup s' k = None \<longleftrightarrow> lookup s k = None \<and> k \<notin> fst ` set kvs"
  using assms
proof (induction kvs arbitrary: s)
  case Nil
  then show ?case by simp
next
  case (Cons kv kvs)
  obtain k0 v0 where kv: "kv = (k0, v0)" by fastforce
  with Cons.prems obtain t where t: "store s k0 v0 t" "store_all store t kvs s'" and ok: "ok k0"
    by auto
  have inv: "invar t" using t ok Cons.prems by (auto intro: store_invar)
  have IH: "lookup s' k = None \<longleftrightarrow> lookup t k = None \<and> k \<notin> fst ` set kvs"
    using Cons.prems t inv by (intro Cons.IH) auto
  show ?case
  proof (cases "k = k0")
    case True
    then have "lookup t k = Some (norm v0)"
      using t ok Cons.prems by (auto intro: lookup_stored)
    with IH kv True show ?thesis by simp
  next
    case False
    then have "lookup t k = None \<longleftrightarrow> lookup s k = None"
      using t ok Cons.prems by (auto dest: store_keys)
    with IH kv False show ?thesis by auto
  qed
qed

end

section \<open>Finite maps\<close>

text \<open>The full contract: storing one key changes nothing else.\<close>

locale kv_map =
  fixes lookup :: "'s \<Rightarrow> 'k \<Rightarrow> 'v option"
    and store :: "'s \<Rightarrow> 'k \<Rightarrow> 'w \<Rightarrow> 's \<Rightarrow> bool"
    and invar :: "'s \<Rightarrow> bool"
    and norm :: "'w \<Rightarrow> 'v"
    and ok :: "'k \<Rightarrow> bool"
  assumes map_invar: "invar s \<Longrightarrow> ok k \<Longrightarrow> store s k v s' \<Longrightarrow> invar s'"
    and map_lookup: "invar s \<Longrightarrow> ok k \<Longrightarrow> store s k v s' \<Longrightarrow>
      lookup s' = (lookup s)(k \<mapsto> norm v)"

sublocale kv_map \<subseteq> kv_basic
  by unfold_locales (auto intro: map_invar simp: map_lookup)

context kv_map
begin

text \<open>After any sequence of stores, a key holds the last value stored under it.\<close>

lemma store_all_map:
  assumes "invar s" and "\<forall>(k, v) \<in> set kvs. ok k" and "store_all store s kvs s'"
  shows "lookup s' = lookup s ++ map_of (rev (map (\<lambda>(k, v). (k, norm v)) kvs))"
  using assms
proof (induction kvs arbitrary: s)
  case Nil
  then show ?case by simp
next
  case (Cons kv kvs)
  obtain k v where kv: "kv = (k, v)" by fastforce
  with Cons.prems obtain t where t: "store s k v t" "store_all store t kvs s'" and ok: "ok k"
    by auto
  have inv: "invar t" using t ok Cons.prems by (auto intro: map_invar)
  have "lookup s' = lookup t ++ map_of (rev (map (\<lambda>(k, v). (k, norm v)) kvs))"
    using Cons.prems t inv by (intro Cons.IH) auto
  also have "lookup t = (lookup s)(k \<mapsto> norm v)"
    using Cons.prems(1) ok t(1) by (rule map_lookup)
  finally show ?case by (simp only: kv) (simp add: map_add_def fun_eq_iff split: option.split)
qed

end

end
