(* ===== verification/Server_Storage.thy ===== *)
theory Server_Storage
  imports KV_Interface
begin

text \<open>
  The server's key-value table: \<^verbatim>\<open>commands/include/commands.h\<close> (node, table, hash) and
  \<open>storage_set\<close>, \<open>storage_get\<close> of \<^verbatim>\<open>commands/commands.c\<close>.

  A bucket's linked list is a list of nodes, head first; the table's array of 1000
  bucket heads is a list of 1000 chains. Reading a bucket outside the array is the error
  \<open>Bucket_Index_Out_Of_Range\<close>. The outcome of \<^verbatim>\<open>calloc\<close> is an argument (\<open>alloc_ok\<close>).
  The source calls \<^verbatim>\<open>strncmp(node->key, key)\<close> in \<open>storage_get\<close> without its third argument;
  that argument is a parameter \<open>n\<close> of the model, and the lemmas hold for every \<open>n\<close> that
  covers the key array (\<open>64 \<le> n\<close>).
\<close>

section \<open>Data\<close>

record storage_node_db =
  node_key :: string
  node_value :: string

record storage_db =
  buckets :: "storage_node_db list list"
  db_size :: u64

datatype storage_fault = Bucket_Index_Out_Of_Range nat

definition g_storage :: storage_db where
  "g_storage = \<lparr>buckets = replicate 1000 [], db_size = 0\<rparr>"

text \<open>\<^verbatim>\<open>*key++\<close> promotes a plain \<^verbatim>\<open>char\<close>, signed on the targets of the build files, to int.\<close>

definition char_promote :: "char \<Rightarrow> u32" where
  "char_promote c = scast (of_char c :: u8)"

fun hash_loop :: "string \<Rightarrow> u32 \<Rightarrow> u32" where
  "hash_loop [] h = h"
| "hash_loop (c # cs) h = hash_loop cs (h * 31 + char_promote c)"

definition hash :: "string \<Rightarrow> u32" where
  "hash key = hash_loop key 0 AND 1000"

section \<open>Operations\<close>

definition bucket_at :: "storage_db \<Rightarrow> nat \<Rightarrow> storage_fault + storage_node_db list" where
  "bucket_at s i =
     (if i < length (buckets s) then Inr (buckets s ! i) else Inl (Bucket_Index_Out_Of_Range i))"

fun set_in_chain ::
  "storage_node_db list \<Rightarrow> string \<Rightarrow> string \<Rightarrow> storage_node_db list option" where
  "set_in_chain [] key val = None"
| "set_in_chain (node # rest) key val =
     (if strcmp (cstr (node_key node)) key = 0
      then Some (node\<lparr>node_value := copy_field 256 (node_value node) val\<rparr> # rest)
      else map_option ((#) node) (set_in_chain rest key val))"

definition calloc_node :: storage_node_db where
  "calloc_node = \<lparr>node_key = replicate 64 NUL, node_value = replicate 256 NUL\<rparr>"

definition fill_node :: "string \<Rightarrow> string \<Rightarrow> storage_node_db" where
  "fill_node key val =
     \<lparr>node_key = copy_field 64 (node_key calloc_node) key,
      node_value = copy_field 256 (node_value calloc_node) val\<rparr>"

definition storage_set ::
  "bool \<Rightarrow> storage_db \<Rightarrow> string \<Rightarrow> string \<Rightarrow> storage_fault + bool \<times> storage_db" where
  "storage_set alloc_ok s key val =
     (let index = unat (hash key) in
      bindR (bucket_at s index) (\<lambda>chain.
        case set_in_chain chain key val of
          Some chain' \<Rightarrow> Inr (True, s\<lparr>buckets := (buckets s)[index := chain']\<rparr>)
        | None \<Rightarrow>
            if \<not> alloc_ok then Inr (False, s)
            else Inr (True, s\<lparr>buckets := (buckets s)[index := fill_node key val # chain],
                              db_size := db_size s + 1\<rparr>)))"

fun get_in_chain :: "nat \<Rightarrow> storage_node_db list \<Rightarrow> string \<Rightarrow> string option" where
  "get_in_chain n [] key = None"
| "get_in_chain n (node # rest) key =
     (if strncmp (cstr (node_key node)) key n = 0 then Some (cstr (node_value node))
      else get_in_chain n rest key)"

definition storage_get :: "nat \<Rightarrow> storage_db \<Rightarrow> string \<Rightarrow> storage_fault + string option" where
  "storage_get n s key =
     bindR (bucket_at s (unat (hash key))) (\<lambda>chain. Inr (get_in_chain n chain key))"

section \<open>The hash\<close>

lemma hash_range: "unat (hash key) \<le> 1000"
proof -
  have "hash key \<le> 1000" unfolding hash_def by (rule word_and_le1)
  then show ?thesis by (simp add: word_le_nat_alt)
qed

lemma hash_masked: "hash key AND 1000 = hash key"
  by (simp add: hash_def and.assoc)

section \<open>Well-formed tables\<close>

text \<open>
  Every node's arrays have their declared size and hold terminated strings, the table has
  1000 buckets, and \<open>db_size\<close> counts the nodes (modulo 2 to the 64, as \<^verbatim>\<open>size_t\<close> does).
\<close>

definition node_wf :: "storage_node_db \<Rightarrow> bool" where
  "node_wf nd \<longleftrightarrow> length (node_key nd) = 64 \<and> length (node_value nd) = 256
     \<and> length (cstr (node_key nd)) \<le> 63 \<and> length (cstr (node_value nd)) \<le> 255"

definition node_count :: "storage_db \<Rightarrow> nat" where
  "node_count s = sum_list (map length (buckets s))"

definition db_wf :: "storage_db \<Rightarrow> bool" where
  "db_wf s \<longleftrightarrow> length (buckets s) = 1000
     \<and> (\<forall>chain \<in> set (buckets s). \<forall>nd \<in> set chain. node_wf nd)
     \<and> db_size s = of_nat (node_count s)"

lemma bucket_nodes_wf:
  "db_wf s \<Longrightarrow> i < length (buckets s) \<Longrightarrow> \<forall>nd \<in> set (buckets s ! i). node_wf nd"
  by (metis db_wf_def nth_mem)

lemma db_wf_init: "db_wf g_storage"
  by (simp add: db_wf_def g_storage_def node_count_def sum_list_replicate)

lemma fill_node_fields [simp]:
  "is_cstr key \<Longrightarrow> cstr (node_key (fill_node key val)) = take 63 key"
  "is_cstr val \<Longrightarrow> cstr (node_value (fill_node key val)) = take 255 val"
  by (simp_all add: fill_node_def calloc_node_def)

lemma node_wf_fill_node: "is_cstr key \<Longrightarrow> is_cstr val \<Longrightarrow> node_wf (fill_node key val)"
  by (simp add: node_wf_def) (simp add: fill_node_def calloc_node_def)

lemma node_wf_update:
  "node_wf nd \<Longrightarrow> is_cstr val \<Longrightarrow>
   node_wf (nd\<lparr>node_value := copy_field 256 (node_value nd) val\<rparr>)"
  by (simp add: node_wf_def)

lemma set_in_chain_None_iff:
  "set_in_chain chain key val = None \<longleftrightarrow> (\<forall>nd \<in> set chain. cstr (node_key nd) \<noteq> key)"
  by (induction chain) auto

lemma set_in_chain_wf:
  "set_in_chain chain key val = Some chain' \<Longrightarrow> is_cstr val \<Longrightarrow>
   \<forall>nd \<in> set chain. node_wf nd \<Longrightarrow> (\<forall>nd \<in> set chain'. node_wf nd) \<and> length chain' = length chain"
  by (induction chain arbitrary: chain') (auto simp: node_wf_update split: if_splits)

lemma sum_list_update_nat:
  "i < length xs \<Longrightarrow> sum_list (xs[i := y]) + xs ! i = sum_list xs + (y :: nat)"
  by (induction xs arbitrary: i) (auto split: nat.split)

lemma node_count_update:
  "i < length (buckets s) \<Longrightarrow>
   node_count (s\<lparr>buckets := (buckets s)[i := c]\<rparr>) + length (buckets s ! i) = node_count s + length c"
  using sum_list_update_nat [of i "map length (buckets s)" "length c"]
  by (simp add: node_count_def map_update)

text \<open>The two ways a call of \<open>storage_set\<close> changes the table.\<close>

lemma storage_set_cases:
  assumes "storage_set alloc s key val = Inr (b, s')"
  obtains (replaced) chain' where "unat (hash key) < length (buckets s)" and "b"
      and "set_in_chain (buckets s ! unat (hash key)) key val = Some chain'"
      and "s' = s\<lparr>buckets := (buckets s)[unat (hash key) := chain']\<rparr>"
  | (refused) "\<not> alloc" and "\<not> b" and "s' = s"
      and "set_in_chain (buckets s ! unat (hash key)) key val = None"
  | (added) "unat (hash key) < length (buckets s)" and "alloc" and "b"
      and "set_in_chain (buckets s ! unat (hash key)) key val = None"
      and "s' = s\<lparr>buckets := (buckets s)[unat (hash key) :=
             fill_node key val # buckets s ! unat (hash key)], db_size := db_size s + 1\<rparr>"
  using assms
  by (auto simp: storage_set_def bucket_at_def Let_def split: if_splits option.splits)

lemma storage_set_wf:
  assumes wf: "db_wf s" and set: "storage_set alloc s key val = Inr (b, s')"
    and c: "is_cstr key" "is_cstr val"
  shows "db_wf s'"
  using set
proof (cases rule: storage_set_cases)
  case (replaced chain')
  let ?i = "unat (hash key)"
  have "\<forall>nd \<in> set (buckets s ! ?i). node_wf nd"
    using wf replaced by (simp add: bucket_nodes_wf)
  with replaced c have "\<forall>nd \<in> set chain'. node_wf nd" and len: "length chain' = length (buckets s ! ?i)"
    by (auto dest: set_in_chain_wf)
  moreover have "node_count s' = node_count s"
    using node_count_update [of ?i s chain'] replaced len by simp
  ultimately show ?thesis
    using wf replaced by (auto simp: db_wf_def dest!: subsetD [OF set_update_subset_insert])
next
  case refused
  with wf show ?thesis by simp
next
  case added
  let ?i = "unat (hash key)"
  have "node_count s' = Suc (node_count s)"
    using node_count_update [of ?i s "fill_node key val # buckets s ! ?i"] added
    by (simp add: node_count_def)
  moreover have "\<forall>nd \<in> set (buckets s ! ?i). node_wf nd"
    using wf added by (simp add: bucket_nodes_wf)
  then have "\<forall>chain \<in> set (buckets s'). \<forall>nd \<in> set chain. node_wf nd"
    using wf added c
    by (auto simp: db_wf_def node_wf_fill_node dest!: subsetD [OF set_update_subset_insert])
  ultimately show ?thesis
    using wf added by (auto simp: db_wf_def)
qed

section \<open>The table is a finite map\<close>

lemma key_match:
  assumes "node_wf nd" and "64 \<le> n"
  shows "take n (cstr (node_key nd)) = take n key \<longleftrightarrow> cstr (node_key nd) = key"
proof
  assume eq: "take n (cstr (node_key nd)) = take n key"
  have short: "take n (cstr (node_key nd)) = cstr (node_key nd)"
    using assms by (simp add: node_wf_def)
  then have "length (take n key) \<le> 63" using assms eq by (simp add: node_wf_def)
  with \<open>64 \<le> n\<close> have "take n key = key" by (auto simp: min_def split: if_splits)
  with eq short show "cstr (node_key nd) = key" by simp
qed simp

lemma get_in_chain_find:
  "\<forall>nd \<in> set chain. node_wf nd \<Longrightarrow> 64 \<le> n \<Longrightarrow>
   get_in_chain n chain key =
     map_option (\<lambda>nd. cstr (node_value nd)) (find (\<lambda>nd. cstr (node_key nd) = key) chain)"
  by (induction chain) (auto simp: key_match)

lemma get_set_in_chain:
  "set_in_chain chain key val = Some chain' \<Longrightarrow> \<forall>nd \<in> set chain. node_wf nd \<Longrightarrow> 64 \<le> n \<Longrightarrow>
   is_cstr val \<Longrightarrow>
   get_in_chain n chain' k = (if k = key then Some (take 255 val) else get_in_chain n chain k)"
  by (induction chain arbitrary: chain') (auto simp: key_match node_wf_def split: if_splits)

text \<open>What a caller reads: the abstraction of the table.\<close>

definition storage_lookup :: "storage_db \<Rightarrow> string \<Rightarrow> string option" where
  "storage_lookup s key = (case storage_get 64 s key of Inl _ \<Rightarrow> None | Inr r \<Rightarrow> r)"

definition storage_store :: "storage_db \<Rightarrow> string \<Rightarrow> string \<Rightarrow> storage_db \<Rightarrow> bool" where
  "storage_store s key val s' \<longleftrightarrow> is_cstr val \<and> (\<exists>alloc. storage_set alloc s key val = Inr (True, s'))"

definition fits_key :: "string \<Rightarrow> bool" where
  "fits_key key \<longleftrightarrow> is_cstr key \<and> length key \<le> 63"

lemma storage_lookup_eq:
  "storage_lookup s key =
     (if unat (hash key) < length (buckets s)
      then get_in_chain 64 (buckets s ! unat (hash key)) key else None)"
  by (simp add: storage_lookup_def storage_get_def bucket_at_def)

lemma storage_get_lookup:
  assumes "db_wf s" and "64 \<le> n"
  shows "storage_get n s key =
    (if unat (hash key) < 1000 then Inr (storage_lookup s key)
     else Inl (Bucket_Index_Out_Of_Range (unat (hash key))))"
proof (cases "unat (hash key) < 1000")
  case True
  let ?c = "buckets s ! unat (hash key)"
  have len: "length (buckets s) = 1000" using assms by (simp add: db_wf_def)
  then have "\<forall>nd \<in> set ?c. node_wf nd" using assms True by (simp add: bucket_nodes_wf)
  then have "get_in_chain n ?c key = get_in_chain 64 ?c key"
    using \<open>64 \<le> n\<close> by (simp add: get_in_chain_find)
  with True len show ?thesis by (simp add: storage_get_def bucket_at_def storage_lookup_eq)
next
  case False
  with assms show ?thesis by (simp add: storage_get_def bucket_at_def db_wf_def)
qed

lemma storage_set_lookup:
  assumes wf: "db_wf s" and key: "is_cstr key" and val: "is_cstr val"
    and set: "storage_set alloc s key val = Inr (True, s')"
  shows "storage_lookup s' k =
    (if unat (hash k) = unat (hash key) \<and> k = take 63 key \<and> (length key \<le> 63 \<or> alloc)
     then Some (take 255 val) else storage_lookup s k)"
  using set
proof (cases rule: storage_set_cases)
  case (replaced chain')
  let ?c = "buckets s ! unat (hash key)"
  have wfc: "\<forall>nd \<in> set ?c. node_wf nd" using wf replaced by (simp add: bucket_nodes_wf)
  have "\<exists>nd \<in> set ?c. cstr (node_key nd) = key"
    using replaced(3) set_in_chain_None_iff [of ?c key val] by auto
  then have len: "length key \<le> 63" using wfc by (auto simp: node_wf_def)
  have g: "get_in_chain 64 chain' k = (if k = key then Some (take 255 val) else get_in_chain 64 ?c k)"
    using replaced(3) wfc val by (simp add: get_set_in_chain)
  show ?thesis
  proof (cases "unat (hash k) = unat (hash key)")
    case True
    with replaced g len show ?thesis by (simp add: storage_lookup_eq)
  next
    case False
    with replaced show ?thesis by (simp add: storage_lookup_eq)
  qed
next
  case refused
  then show ?thesis by simp
next
  case added
  let ?c = "buckets s ! unat (hash key)"
  have wfc: "\<forall>nd \<in> set (fill_node key val # ?c). node_wf nd"
    using wf added key val by (simp add: bucket_nodes_wf node_wf_fill_node)
  have g: "get_in_chain 64 (fill_node key val # ?c) k =
      (if k = take 63 key then Some (take 255 val) else get_in_chain 64 ?c k)"
    using wfc key val by (simp add: get_in_chain_find del: get_in_chain.simps)
  show ?thesis
  proof (cases "unat (hash k) = unat (hash key)")
    case True
    with added g show ?thesis by (simp add: storage_lookup_eq)
  next
    case False
    with added show ?thesis by (simp add: storage_lookup_eq)
  qed
qed

interpretation server_kv: kv_map storage_lookup storage_store db_wf "take 255" fits_key
proof
  fix s key val s'
  assume wf: "db_wf s" and key: "fits_key key" and st: "storage_store s key val s'"
  then obtain alloc where val: "is_cstr val" and set: "storage_set alloc s key val = Inr (True, s')"
    by (auto simp: storage_store_def)
  show "db_wf s'" using wf set key val by (auto simp: fits_key_def intro: storage_set_wf)
  show "storage_lookup s' = (storage_lookup s)(key \<mapsto> take 255 val)"
    using storage_set_lookup [OF wf _ val set] key by (auto simp: fits_key_def)
qed

section \<open>Tables that hold fitting keys only\<close>

text \<open>
  As long as no key longer than 63 bytes is stored, every node sits in the bucket its key
  hashes to and no key occurs twice, so \<open>db_size\<close> counts the keys.
\<close>

definition chain_keys :: "storage_db \<Rightarrow> nat \<Rightarrow> string list" where
  "chain_keys s i = map (\<lambda>nd. cstr (node_key nd)) (buckets s ! i)"

definition db_fits :: "storage_db \<Rightarrow> bool" where
  "db_fits s \<longleftrightarrow> db_wf s
     \<and> (\<forall>i < 1000. distinct (chain_keys s i) \<and> (\<forall>k \<in> set (chain_keys s i). unat (hash k) = i))"

lemma db_fits_wf: "db_fits s \<Longrightarrow> db_wf s"
  by (simp add: db_fits_def)

lemma chain_keys_hash:
  "db_fits s \<Longrightarrow> i < 1000 \<Longrightarrow> k \<in> set (chain_keys s i) \<Longrightarrow> unat (hash k) = i"
  by (simp add: db_fits_def)

lemma chain_keys_disjoint:
  "db_fits s \<Longrightarrow> i < 1000 \<Longrightarrow> j < 1000 \<Longrightarrow> i \<noteq> j \<Longrightarrow>
   set (chain_keys s i) \<inter> set (chain_keys s j) = {}"
  by (metis chain_keys_hash disjoint_iff)

lemma db_fits_init: "db_fits g_storage"
  by (simp add: db_fits_def db_wf_init) (simp add: chain_keys_def g_storage_def)

lemma set_in_chain_keys:
  "set_in_chain chain key val = Some chain' \<Longrightarrow>
   map (\<lambda>nd. cstr (node_key nd)) chain' = map (\<lambda>nd. cstr (node_key nd)) chain"
  by (induction chain arbitrary: chain') (auto split: if_splits)

lemma storage_set_chain_keys:
  assumes "storage_set alloc s key val = Inr (b, s')" and "fits_key key"
  shows "chain_keys s' i =
    (if i = unat (hash key) \<and> b \<and> key \<notin> set (chain_keys s i) then key # chain_keys s i
     else chain_keys s i)"
  using assms(1)
proof (cases rule: storage_set_cases)
  case (replaced chain')
  have "key \<in> set (chain_keys s (unat (hash key)))"
    using replaced(3) set_in_chain_None_iff [of "buckets s ! unat (hash key)" key val]
    by (auto simp: chain_keys_def)
  then show ?thesis
    using replaced set_in_chain_keys [OF replaced(3)]
    by (auto simp: chain_keys_def nth_list_update)
next
  case refused
  then show ?thesis by simp
next
  case added
  have "key \<notin> set (chain_keys s (unat (hash key)))"
    using added(4) by (auto simp: set_in_chain_None_iff chain_keys_def)
  then show ?thesis
    using added \<open>fits_key key\<close> by (auto simp: chain_keys_def nth_list_update fits_key_def)
qed

lemma storage_set_fits:
  assumes "db_fits s" and "storage_set alloc s key val = Inr (b, s')"
    and "fits_key key" and "is_cstr val"
  shows "db_fits s'"
  unfolding db_fits_def
proof (intro conjI allI impI)
  show "db_wf s'" using assms by (auto simp: fits_key_def db_fits_def intro: storage_set_wf)
  fix i :: nat
  assume "i < 1000"
  with assms show "distinct (chain_keys s' i)"
    by (auto simp: storage_set_chain_keys db_fits_def)
  from assms \<open>i < 1000\<close> show "\<forall>k \<in> set (chain_keys s' i). unat (hash k) = i"
    by (auto simp: storage_set_chain_keys db_fits_def)
qed

lemma get_in_chain_None_iff:
  "\<forall>nd \<in> set chain. node_wf nd \<Longrightarrow>
   get_in_chain 64 chain k = None \<longleftrightarrow> k \<notin> (\<lambda>nd. cstr (node_key nd)) ` set chain"
  by (auto simp: get_in_chain_find find_None_iff)

lemma dom_storage_lookup:
  assumes "db_fits s"
  shows "dom (storage_lookup s) = (\<Union>i < 1000. set (chain_keys s i))"
proof -
  have len: "length (buckets s) = 1000" using assms by (simp add: db_fits_def db_wf_def)
  have "storage_lookup s k \<noteq> None \<longleftrightarrow> (\<exists>i < 1000. k \<in> set (chain_keys s i))" for k
  proof (cases "unat (hash k) < 1000")
    case True
    then have "storage_lookup s k \<noteq> None \<longleftrightarrow> k \<in> set (chain_keys s (unat (hash k)))"
      using len assms bucket_nodes_wf [of s "unat (hash k)"]
      by (simp add: storage_lookup_eq get_in_chain_None_iff chain_keys_def db_fits_wf)
    with True assms show ?thesis by (auto simp: db_fits_def)
  next
    case False
    with len assms show ?thesis by (auto simp: storage_lookup_eq db_fits_def)
  qed
  then show ?thesis by blast
qed

lemma db_fits_size:
  assumes "db_fits s"
  shows "finite (dom (storage_lookup s))"
    and "db_size s = of_nat (card (dom (storage_lookup s)))"
proof -
  show "finite (dom (storage_lookup s))" using assms by (simp add: dom_storage_lookup)
  have len: "length (buckets s) = 1000" using assms by (simp add: db_fits_def db_wf_def)
  have card_keys: "card (set (chain_keys s i)) = length (buckets s ! i)" if "i < 1000" for i
  proof -
    have "distinct (chain_keys s i)" using assms that by (simp add: db_fits_def)
    then have "card (set (chain_keys s i)) = length (chain_keys s i)" by (rule distinct_card)
    also have "\<dots> = length (buckets s ! i)" by (simp add: chain_keys_def)
    finally show ?thesis .
  qed
  have "card (\<Union>i < 1000. set (chain_keys s i)) = (\<Sum>i < 1000. card (set (chain_keys s i)))"
    by (rule card_UN_disjoint) (use chain_keys_disjoint [OF assms] in auto)
  also have "\<dots> = (\<Sum>i < 1000. length (buckets s ! i))"
    by (rule sum.cong) (simp_all add: card_keys)
  also have "\<dots> = node_count s"
    using len by (simp add: node_count_def sum_list_sum_nth atLeast0LessThan)
  finally show "db_size s = of_nat (card (dom (storage_lookup s)))"
    using assms by (simp add: dom_storage_lookup db_fits_def db_wf_def)
qed

section \<open>Keys that do not fit\<close>

text \<open>
  A key of 64 bytes or more is cut when it is stored but not when it is looked up: no node
  ever matches it, and the node a store adds carries its 63-byte prefix.
\<close>

lemma long_key_absent:
  assumes "db_wf s" and "64 \<le> length key"
  shows "storage_lookup s key = None"
proof (cases "unat (hash key) < length (buckets s)")
  case True
  then have "\<forall>nd \<in> set (buckets s ! unat (hash key)). node_wf nd"
    using assms by (simp add: bucket_nodes_wf)
  then show ?thesis
    using True assms(2) by (auto simp: storage_lookup_eq get_in_chain_None_iff node_wf_def)
next
  case False
  then show ?thesis by (simp add: storage_lookup_eq)
qed

lemma long_key_store_adds:
  assumes "db_wf s" and "is_cstr key" and "64 \<le> length key" and "unat (hash key) < 1000"
  shows "storage_set True s key val =
    Inr (True, s\<lparr>buckets := (buckets s)[unat (hash key) :=
      fill_node key val # buckets s ! unat (hash key)], db_size := db_size s + 1\<rparr>)"
proof -
  have len: "length (buckets s) = 1000" using assms by (simp add: db_wf_def)
  with assms have "\<forall>nd \<in> set (buckets s ! unat (hash key)). node_wf nd"
    by (simp add: bucket_nodes_wf)
  then have "set_in_chain (buckets s ! unat (hash key)) key val = None"
    using \<open>64 \<le> length key\<close> by (auto simp: set_in_chain_None_iff node_wf_def)
  then show ?thesis using assms len by (simp add: storage_set_def bucket_at_def Let_def)
qed

lemma storage_set_in_range:
  assumes "db_wf s" and "unat (hash key) < 1000"
  obtains s' where "storage_set True s key val = Inr (True, s')"
  using assms
  by (cases "set_in_chain (buckets s ! unat (hash key)) key val")
    (auto simp: storage_set_def bucket_at_def Let_def db_wf_def)

section \<open>Evaluated hashes\<close>

lemmas hash_eval = hash_def char_promote_def

lemma hash_samples:
  "unat (hash ''k'') = 104" "unat (hash ''name'') = 648" "unat (hash ''cbg'') = 1000"
  by (simp_all add: hash_eval)

text \<open>1000 is 125 shifted left by 3, and 125 has six bits: the mask leaves 64 values.\<close>

definition masked_indices :: "int list" where
  "masked_indices = map (push_bit 3) (filter (\<lambda>i. i AND 125 = i) [0..125])"

lemma length_masked_indices: "length masked_indices = 64"
  unfolding masked_indices_def length_map by code_simp

lemma and_1000: "(x :: int) AND 1000 = push_bit 3 (drop_bit 3 x AND 125)"
proof -
  have "x AND push_bit 3 m = push_bit 3 (drop_bit 3 x AND m)" for m :: int
    by (simp only: bit_eq_iff) (auto simp: bit_simps)
  from this [of 125] show ?thesis by simp
qed

lemma and_1000_masked: "(x :: int) AND 1000 \<in> set masked_indices"
proof -
  let ?j = "drop_bit 3 x AND 125"
  have "0 \<le> ?j" and "?j \<le> 125"
    by (simp_all add: AND_upper2)
  moreover have "?j AND 125 = ?j"
    by (simp add: and.assoc)
  ultimately have "?j \<in> set (filter (\<lambda>i. i AND 125 = i) [0..125])"
    by (simp only: set_filter set_upto mem_Collect_eq atLeastAtMost_iff simp_thms)
  then show ?thesis
    by (simp only: masked_indices_def set_map and_1000 image_eqI)
qed

lemma hash_masked_index: "unat (hash key) \<in> nat ` set masked_indices"
proof -
  have "uint (hash key) = uint (hash_loop key 0) AND 1000"
    by (simp add: hash_def unsigned_and_eq)
  then have "uint (hash key) \<in> set masked_indices"
    by (simp only: and_1000_masked)
  then show ?thesis
    by (rule rev_image_eqI) (simp_all only: unat_eq_nat_uint)
qed

section \<open>Sequences of stores\<close>

lemma storage_store_fits:
  "db_fits s \<Longrightarrow> fits_key key \<Longrightarrow> storage_store s key val s' \<Longrightarrow> db_fits s'"
  by (auto simp: storage_store_def intro: storage_set_fits)

interpretation server_fit: kv_map storage_lookup storage_store db_fits "take 255" fits_key
proof
  fix s key val s'
  assume "db_fits s" and "fits_key key" and "storage_store s key val s'"
  then show "db_fits s'" and "storage_lookup s' = (storage_lookup s)(key \<mapsto> take 255 val)"
    by (auto intro: storage_store_fits server_kv.map_lookup db_fits_wf)
qed

section \<open>Properties\<close>

text \<open>Storing a key of at most 63 bytes in an existing bucket, when the allocation
  succeeds, returns true and keeps the table well formed; the key then reads back as the
  first 255 bytes of the value, and every other key reads as before.\<close>

lemma storage_set_get:
  assumes "db_wf s" and "fits_key key" and "is_cstr val" and "64 \<le> n" and "unat (hash key) < 1000"
  shows "\<exists>s'. storage_set True s key val = Inr (True, s') \<and> db_wf s'
    \<and> storage_get n s' key = Inr (Some (take 255 val))
    \<and> (\<forall>k. k \<noteq> key \<longrightarrow> storage_get n s' k = storage_get n s k)"
proof -
  obtain s' where set: "storage_set True s key val = Inr (True, s')"
    using assms by (blast intro: storage_set_in_range)
  then have st: "storage_store s key val s'" using assms by (auto simp: storage_store_def)
  have wf': "db_wf s'" using server_kv.map_invar [OF assms(1,2) st] .
  have look: "storage_lookup s' = (storage_lookup s)(key \<mapsto> take 255 val)"
    using server_kv.map_lookup [OF assms(1,2) st] .
  show ?thesis
    using set wf' assms by (simp add: storage_get_lookup look)
qed

lemma storage_set_get_witness:
  "\<exists>s'. storage_set True g_storage ''name'' ''kryo'' = Inr (True, s') \<and> db_wf s'
    \<and> storage_get 64 s' ''name'' = Inr (Some (take 255 ''kryo''))
    \<and> (\<forall>k. k \<noteq> ''name'' \<longrightarrow> storage_get 64 s' k = storage_get 64 g_storage k)"
  by (rule storage_set_get [OF db_wf_init]) (simp_all add: fits_key_def hash_samples)

text \<open>C2: After any sequence of stores that succeed (a bucket of the array, a node when one is
  needed), into the empty table and of keys of at most 63 bytes, a key reads as the last value
  stored under it, cut to 255 bytes, and as absent when it was never stored; the table's size
  field is the number of distinct keys stored. (A longer key is lost.)\<close>

theorem storage_run:
  assumes "\<forall>(k, v) \<in> set kvs. fits_key k" and "store_all storage_store g_storage kvs s"
  shows "storage_lookup s = map_of (rev (map (\<lambda>(k, v). (k, take 255 v)) kvs))
    \<and> db_size s = of_nat (card (fst ` set kvs))"
proof -
  have init: "storage_lookup g_storage = Map.empty"
    by (auto simp: storage_lookup_eq g_storage_def fun_eq_iff)
  have look: "storage_lookup s = map_of (rev (map (\<lambda>(k, v). (k, take 255 v)) kvs))"
    using server_fit.store_all_map [OF db_fits_init assms] init by simp
  have "db_fits s" using server_fit.store_all_invar [OF db_fits_init assms] .
  then have "db_size s = of_nat (card (dom (storage_lookup s)))" by (rule db_fits_size)
  moreover have "dom (storage_lookup s) = fst ` set kvs"
    by (force simp: look dom_map_of_conv_image_fst)
  ultimately show ?thesis using look by simp
qed

theorem storage_run_witness:
  "\<exists>s. store_all storage_store g_storage [(''k'', ''1''), (''name'', ''x''), (''k'', ''2'')] s
    \<and> storage_lookup s = map_of (rev (map (\<lambda>(k, v). (k, take 255 v))
         [(''k'', ''1''), (''name'', ''x''), (''k'', ''2'')]))
    \<and> db_size s = of_nat (card (fst ` set [(''k'', ''1''), (''name'', ''x''), (''k'', ''2'')]))"
proof -
  have step: "\<exists>t. storage_store s k v t \<and> db_wf t"
    if "db_wf s" "fits_key k" "is_cstr v" "unat (hash k) < 1000" for s k v
    using that server_kv.map_invar by (metis storage_set_in_range storage_store_def)
  obtain s1 where s1: "storage_store g_storage ''k'' ''1'' s1" "db_wf s1"
    using step [OF db_wf_init, of "''k''" "''1''"] by (auto simp: fits_key_def hash_samples)
  obtain s2 where s2: "storage_store s1 ''name'' ''x'' s2" "db_wf s2"
    using step [OF s1(2), of "''name''" "''x''"] by (auto simp: fits_key_def hash_samples)
  obtain s3 where s3: "storage_store s2 ''k'' ''2'' s3"
    using step [OF s2(2), of "''k''" "''2''"] by (auto simp: fits_key_def hash_samples)
  have run: "store_all storage_store g_storage [(''k'', ''1''), (''name'', ''x''), (''k'', ''2'')] s3"
    using s1 s2 s3 by auto
  moreover have "\<forall>(k, v) \<in> set [(''k'', ''1''), (''name'', ''x''), (''k'', ''2'')]. fits_key k"
    by (simp add: fits_key_def)
  ultimately show ?thesis using storage_run by blast
qed

text \<open>C29: The bucket index of a key is at most 1000, so the only index outside the array of
  1000 heads is 1000 itself; a store or a lookup reads out of range exactly for the keys with
  that index, and such keys exist.\<close>

theorem bucket_fault_iff:
  assumes "db_wf s"
  shows "unat (hash key) \<le> 1000
    \<and> ((\<exists>f. storage_set alloc s key val = Inl f) \<longleftrightarrow> unat (hash key) = 1000)
    \<and> ((\<exists>f. storage_get n s key = Inl f) \<longleftrightarrow> unat (hash key) = 1000)
    \<and> unat (hash ''cbg'') = 1000"
proof -
  have len: "length (buckets s) = 1000" using assms by (simp add: db_wf_def)
  show ?thesis
    using hash_range [of key] hash_samples(3) len
    by (auto simp: storage_set_def storage_get_def bucket_at_def Let_def split: option.split)
qed

theorem bucket_fault_iff_witness:
  "unat (hash ''k'') \<le> 1000
    \<and> ((\<exists>f. storage_set True g_storage ''k'' ''v'' = Inl f) \<longleftrightarrow> unat (hash ''k'') = 1000)
    \<and> ((\<exists>f. storage_get 64 g_storage ''k'' = Inl f) \<longleftrightarrow> unat (hash ''k'') = 1000)
    \<and> unat (hash ''cbg'') = 1000"
  by (rule bucket_fault_iff [OF db_wf_init])

text \<open>The hash masks with 1000 instead of reducing modulo 1000: at most 64 of the
  bucket indices are ever used, all keys together.\<close>

lemma hash_uses_few_buckets: "card (range (\<lambda>key. unat (hash key))) \<le> 64"
proof -
  have "range (\<lambda>key. unat (hash key)) \<subseteq> nat ` set masked_indices"
    using hash_masked_index by blast
  then have "card (range (\<lambda>key. unat (hash key))) \<le> card (nat ` set masked_indices)"
    by (rule card_mono [OF finite_imageI [OF finite_set]])
  also have "\<dots> \<le> length masked_indices"
    by (rule order_trans [OF card_image_le [OF finite_set] card_length])
  finally show ?thesis by (simp only: length_masked_indices)
qed

text \<open>C30: A key of 64 bytes or more is never found: each store of it adds a node, so the
  size grows every time, and the key still reads as absent afterwards. When the key and its
  63-byte prefix share a bucket, the store overwrites what the prefix reads as.\<close>

theorem long_key_lost:
  assumes "db_wf s" and "is_cstr key" and "is_cstr val" and "64 \<le> length key"
    and "unat (hash key) < 1000" and "64 \<le> n"
  shows "\<exists>s'. storage_set True s key val = Inr (True, s') \<and> db_size s' = db_size s + 1
    \<and> storage_get n s' key = Inr None
    \<and> (hash (take 63 key) = hash key \<longrightarrow>
         storage_get n s' (take 63 key) = Inr (Some (take 255 val)))"
proof -
  let ?s' = "s\<lparr>buckets := (buckets s)[unat (hash key) :=
      fill_node key val # buckets s ! unat (hash key)], db_size := db_size s + 1\<rparr>"
  have set: "storage_set True s key val = Inr (True, ?s')"
    using assms by (simp add: long_key_store_adds)
  have wf': "db_wf ?s'" using assms(1) set assms(2,3) by (rule storage_set_wf)
  have "storage_lookup ?s' (take 63 key) = Some (take 255 val)" if "hash (take 63 key) = hash key"
    using storage_set_lookup [OF assms(1-3) set, of "take 63 key"] that by simp
  then show ?thesis
    using set wf' assms by (auto simp: storage_get_lookup long_key_absent)
qed

theorem long_key_lost_witness:
  "\<exists>s'. storage_set True g_storage (replicate 63 CHR ''D'' @ ''hd'') ''v'' = Inr (True, s')
    \<and> db_size s' = db_size g_storage + 1
    \<and> storage_get 64 s' (replicate 63 CHR ''D'' @ ''hd'') = Inr None
    \<and> (hash (take 63 (replicate 63 CHR ''D'' @ ''hd'')) = hash (replicate 63 CHR ''D'' @ ''hd'') \<longrightarrow>
         storage_get 64 s' (take 63 (replicate 63 CHR ''D'' @ ''hd'')) = Inr (Some (take 255 ''v'')))
    \<and> hash (take 63 (replicate 63 CHR ''D'' @ ''hd'')) = hash (replicate 63 CHR ''D'' @ ''hd'')"
proof -
  let ?k = "replicate 63 CHR ''D'' @ ''hd''"
  have "hash ?k = 192" and "hash (replicate 63 CHR ''D'') = 192"
    by (simp_all add: hash_eval numeral_eq_Suc)
  moreover have "is_cstr ?k" by (simp add: is_cstr_def)
  ultimately show ?thesis
    using long_key_lost [OF db_wf_init, of ?k "''v''" 64] by simp
qed

end
