(* ===== verification/Server_Commands.thy ===== *)
theory Server_Commands
  imports Server_Storage
begin

text \<open>
  The request handler of the server: \<open>handle_client_connection\<close> of
  \<^verbatim>\<open>commands/commands.c\<close>, over the table of \<^verbatim>\<open>Server_Storage\<close>.

  A connection is the bytes the peer has sent when \<^verbatim>\<open>recv\<close> is called (\<open>None\<close> when
  \<^verbatim>\<open>recv\<close> fails); the handler's visible effects are the list of what it sends, ended by
  \<^verbatim>\<open>close\<close>. Log output (\<^verbatim>\<open>printf\<close>) is left out. An out-of-range bucket access ends the run
  with the fault of \<^verbatim>\<open>Server_Storage\<close>. \<open>n\<close> and \<open>alloc_ok\<close> are passed on to the table's
  operations.
\<close>

section \<open>The handler\<close>

datatype net_event = Send string | Close

text \<open>
  \<^verbatim>\<open>buffer\<close> after the received bytes are terminated and one trailing line feed and one
  carriage return before it are overwritten with NUL.
\<close>

definition strip_line :: "string \<Rightarrow> string" where
  "strip_line received =
     (let bytes_read = length received;
          buf = received @ [NUL];
          (buf, bytes_read) =
            (if buf ! (bytes_read - 1) = CHR 0x0A
             then (buf[bytes_read - 1 := NUL], bytes_read - 1) else (buf, bytes_read))
      in if 0 < bytes_read \<and> buf ! (bytes_read - 1) = CHR 0x0D
         then buf[bytes_read - 1 := NUL] else buf)"

text \<open>The \<^verbatim>\<open>FLUSH\<close> loop over the bucket heads.\<close>

definition flush_buckets :: "storage_db \<Rightarrow> storage_db" where
  "flush_buckets s =
     (fold (\<lambda>i t. t\<lparr>buckets := (buckets t)[i := []]\<rparr>) [0..<1000] s)\<lparr>db_size := 0\<rparr>"

definition run_command ::
  "nat \<Rightarrow> bool \<Rightarrow> storage_db \<Rightarrow> string \<Rightarrow> storage_fault + string \<times> storage_db" where
  "run_command n alloc_ok s command =
     (if strncmp command ''PING'' 5 = 0 then Inr (''PONG'' @ crlf, s)
      else if strncmp command ''FLUSH'' 5 = 0 then Inr (''OK'' @ crlf, flush_buckets s)
      else if strncmp command ''SET '' 4 = 0 then
        (case strchr_split (CHR '' '') (drop 4 command) of
           Some (key, val) \<Rightarrow>
             bindR (storage_set alloc_ok s key val) (\<lambda>(stored, s').
               if stored then Inr (''OK'' @ crlf, s')
               else Inr (''ERROR Memory full'' @ crlf, s'))
         | None \<Rightarrow> Inr (''ERROR Invalid SET format'' @ crlf, s))
      else if strncmp command ''GET '' 4 = 0 then
        bindR (storage_get n s (drop 4 command)) (\<lambda>r.
          case r of
            Some val \<Rightarrow> Inr (snprintf 512 (''VALUE '' @ val @ crlf), s)
          | None \<Rightarrow> Inr (''NOT_FOUND'' @ crlf, s))
      else if strncmp command ''DELETE '' 7 = 0 then Inr (''OK'' @ crlf, s)
      else if strncmp command ''EXISTS '' 7 = 0 then
        bindR (storage_get n s (drop 7 command)) (\<lambda>r.
          case r of
            Some val \<Rightarrow> Inr (''1'' @ crlf, s)
          | None \<Rightarrow> Inr (''0'' @ crlf, s))
      else if strncmp command ''STATS'' 6 = 0 then
        Inr (snprintf 128 (''KEYS: '' @ dec_digits (unat (db_size s)) @ crlf), s)
      else Inr (''ERROR Unknown command'' @ crlf, s))"

definition handle_client_connection ::
  "nat \<Rightarrow> bool \<Rightarrow> storage_db \<Rightarrow> string option \<Rightarrow> storage_fault + net_event list \<times> storage_db" where
  "handle_client_connection n alloc_ok s incoming =
     (case incoming of
        None \<Rightarrow> Inr ([Close], s)
      | Some bytes \<Rightarrow>
          let received = take 1023 bytes in
          if received = [] then Inr ([Close], s)
          else bindR (run_command n alloc_ok s (cstr (strip_line received)))
                 (\<lambda>(response, s'). Inr ([Send response, Close], s')))"

section \<open>Reading a request\<close>

lemma cstr_strip_line_crlf:
  assumes "is_cstr req"
  shows "cstr (strip_line (req @ crlf)) = req"
proof -
  have "strip_line (req @ crlf) = req @ [NUL, NUL, NUL]"
    by (simp add: strip_line_def crlf_def nth_append list_update_append)
  with assms show ?thesis by simp
qed

lemma cstr_strip_line_lf:
  assumes "is_cstr req" and "req = [] \<or> last req \<noteq> CHR 0x0D"
  shows "cstr (strip_line (req @ [CHR 0x0A])) = req"
proof -
  have "strip_line (req @ [CHR 0x0A]) = req @ [NUL, NUL]"
    using assms(2)
    by (cases req rule: rev_cases)
      (simp_all add: strip_line_def Let_def nth_append list_update_append)
  with assms show ?thesis by simp
qed

lemma flush_buckets_fold:
  "k \<le> length (buckets s) \<Longrightarrow>
   fold (\<lambda>i t. t\<lparr>buckets := (buckets t)[i := []]\<rparr>) [0..<k] s
     = s\<lparr>buckets := replicate k [] @ drop k (buckets s)\<rparr>"
proof (induction k)
  case 0
  then show ?case by simp
next
  case (Suc k)
  have "(replicate k [] @ drop k (buckets s))[k := []] = replicate k [] @ [] # drop (Suc k) (buckets s)"
    using Suc.prems by (simp add: list_update_append Cons_nth_drop_Suc [symmetric])
  then show ?case using Suc by (simp add: replicate_append_same [symmetric])
qed

lemma flush_buckets_init: "length (buckets s) = 1000 \<Longrightarrow> flush_buckets s = g_storage"
  by (simp add: flush_buckets_def flush_buckets_fold g_storage_def)

section \<open>What the protocol promises\<close>

text \<open>
  The abstract server: a request is one of the protocol's commands, the state is a finite
  map, and a request maps the state to a response and the next state.
\<close>

datatype request =
    Ping | Flush | Set string string | Set_Malformed | Get string | Delete string
  | Exists string | Stats | Unknown

definition parse_request :: "string \<Rightarrow> request" where
  "parse_request c =
     (if c = ''PING'' then Ping
      else if take 5 c = ''FLUSH'' then Flush
      else if take 4 c = ''SET '' then
        (case strchr_split (CHR '' '') (drop 4 c) of
           Some (key, val) \<Rightarrow> Set key val | None \<Rightarrow> Set_Malformed)
      else if take 4 c = ''GET '' then Get (drop 4 c)
      else if take 7 c = ''DELETE '' then Delete (drop 7 c)
      else if take 7 c = ''EXISTS '' then Exists (drop 7 c)
      else if c = ''STATS'' then Stats
      else Unknown)"

text \<open>\<open>DELETE\<close> is specified as the code behaves: it answers and keeps the key.\<close>

fun respond :: "(string \<rightharpoonup> string) \<Rightarrow> request \<Rightarrow> string \<times> (string \<rightharpoonup> string)" where
  "respond m Ping = (''PONG'' @ crlf, m)"
| "respond m Flush = (''OK'' @ crlf, Map.empty)"
| "respond m (Set key val) = (''OK'' @ crlf, m(key \<mapsto> take 255 val))"
| "respond m Set_Malformed = (''ERROR Invalid SET format'' @ crlf, m)"
| "respond m (Get key) =
     (case m key of Some val \<Rightarrow> ''VALUE '' @ val @ crlf | None \<Rightarrow> ''NOT_FOUND'' @ crlf, m)"
| "respond m (Delete key) = (''OK'' @ crlf, m)"
| "respond m (Exists key) = (case m key of Some val \<Rightarrow> ''1'' @ crlf | None \<Rightarrow> ''0'' @ crlf, m)"
| "respond m Stats = (''KEYS: '' @ dec_digits (card (dom m)) @ crlf, m)"
| "respond m Unknown = (''ERROR Unknown command'' @ crlf, m)"

text \<open>With the outcome of \<^verbatim>\<open>calloc\<close>: without memory a new key is refused and the map stays.\<close>

fun serve :: "bool \<Rightarrow> (string \<rightharpoonup> string) \<Rightarrow> request \<Rightarrow> string \<times> (string \<rightharpoonup> string)" where
  "serve alloc_ok m (Set key val) =
     (if alloc_ok \<or> m key \<noteq> None then respond m (Set key val) else (''ERROR Memory full'' @ crlf, m))"
| "serve alloc_ok m r = respond m r"

lemma serve_True [simp]: "serve True m r = respond m r"
  by (cases r) simp_all

text \<open>The requests the table serves: keys whose bucket exists, and stored keys that fit.\<close>

fun stored_key_fits :: "request \<Rightarrow> bool" where
  "stored_key_fits (Set key val) \<longleftrightarrow> length key \<le> 63"
| "stored_key_fits _ \<longleftrightarrow> True"

fun request_ok :: "request \<Rightarrow> bool" where
  "request_ok (Set key val) \<longleftrightarrow> length key \<le> 63 \<and> unat (hash key) < 1000"
| "request_ok (Get key) \<longleftrightarrow> unat (hash key) < 1000"
| "request_ok (Exists key) \<longleftrightarrow> unat (hash key) < 1000"
| "request_ok _ \<longleftrightarrow> True"

lemma take_eq_shorter: "length w < n \<Longrightarrow> take n c = w \<longleftrightarrow> c = w"
  by (auto simp: min_def take_all_iff dest: arg_cong [where f = length] split: if_splits)

lemma strncmp_word: "length w < n \<Longrightarrow> strncmp c w n = 0 \<longleftrightarrow> c = w"
  using take_eq_shorter [of w n c] by simp

lemma strncmp_prefix: "length w = n \<Longrightarrow> strncmp c w n = 0 \<longleftrightarrow> take n c = w"
  by auto

lemma command_tests:
  "strncmp c ''PING'' 5 = 0 \<longleftrightarrow> c = ''PING''"
  "strncmp c ''FLUSH'' 5 = 0 \<longleftrightarrow> take 5 c = ''FLUSH''"
  "strncmp c ''SET '' 4 = 0 \<longleftrightarrow> take 4 c = ''SET ''"
  "strncmp c ''GET '' 4 = 0 \<longleftrightarrow> take 4 c = ''GET ''"
  "strncmp c ''DELETE '' 7 = 0 \<longleftrightarrow> take 7 c = ''DELETE ''"
  "strncmp c ''EXISTS '' 7 = 0 \<longleftrightarrow> take 7 c = ''EXISTS ''"
  "strncmp c ''STATS'' 6 = 0 \<longleftrightarrow> c = ''STATS''"
  by (rule strncmp_word strncmp_prefix; simp)+

lemma stats_line_fits:
  "snprintf 128 (''KEYS: '' @ dec_digits (unat (w :: u64)) @ crlf)
     = ''KEYS: '' @ dec_digits (unat w) @ crlf"
proof -
  have "unat w < 2 ^ LENGTH(64)" by (rule unsigned_less)
  then have "unat w < 10 ^ 20" by simp
  then have "length (dec_digits (unat w)) \<le> 20" by (rule length_dec_digits) simp
  then show ?thesis by (intro snprintf_fits) (simp add: crlf_def)
qed

lemma storage_lookup_short:
  assumes "db_wf s" and "storage_lookup s key = Some val"
  shows "length val \<le> 255 \<and> is_cstr val"
proof -
  have i: "unat (hash key) < length (buckets s)"
    using assms by (auto simp: storage_lookup_eq split: if_splits)
  have "get_in_chain 64 (buckets s ! unat (hash key)) key = Some val"
    using assms i by (simp add: storage_lookup_eq)
  with bucket_nodes_wf [OF assms(1) i] show ?thesis
    by (auto simp: get_in_chain_find find_Some_iff node_wf_def)
qed

lemma get_response_fits:
  "length val \<le> 255 \<Longrightarrow>
   snprintf 512 (''VALUE '' @ val @ crlf) = ''VALUE '' @ val @ crlf"
  by (rule snprintf_fits) (simp add: crlf_def)

section \<open>The handler implements the protocol\<close>

lemma flush_buckets_fits: "db_wf s \<Longrightarrow> flush_buckets s = g_storage"
  by (simp add: flush_buckets_init db_wf_def)

lemma storage_lookup_init [simp]: "storage_lookup g_storage = Map.empty"
  by (auto simp: storage_lookup_eq g_storage_def fun_eq_iff)

lemma parse_set_cstr:
  "is_cstr c \<Longrightarrow> parse_request c = Set key val \<Longrightarrow> is_cstr key \<and> is_cstr val"
  by (auto simp: parse_request_def split: if_splits option.splits dest!: strchr_split_Some)
    (metis is_cstr_Cons is_cstr_append is_cstr_drop)+

text \<open>The handler's chain of tests, one case per request.\<close>

fun exec_request ::
  "nat \<Rightarrow> bool \<Rightarrow> storage_db \<Rightarrow> request \<Rightarrow> storage_fault + string \<times> storage_db" where
  "exec_request n alloc s Ping = Inr (''PONG'' @ crlf, s)"
| "exec_request n alloc s Flush = Inr (''OK'' @ crlf, flush_buckets s)"
| "exec_request n alloc s (Set key val) =
     bindR (storage_set alloc s key val) (\<lambda>(stored, s').
       if stored then Inr (''OK'' @ crlf, s') else Inr (''ERROR Memory full'' @ crlf, s'))"
| "exec_request n alloc s Set_Malformed = Inr (''ERROR Invalid SET format'' @ crlf, s)"
| "exec_request n alloc s (Get key) =
     bindR (storage_get n s key) (\<lambda>r. case r of
       Some val \<Rightarrow> Inr (snprintf 512 (''VALUE '' @ val @ crlf), s)
     | None \<Rightarrow> Inr (''NOT_FOUND'' @ crlf, s))"
| "exec_request n alloc s (Delete key) = Inr (''OK'' @ crlf, s)"
| "exec_request n alloc s (Exists key) =
     bindR (storage_get n s key) (\<lambda>r. case r of
       Some val \<Rightarrow> Inr (''1'' @ crlf, s) | None \<Rightarrow> Inr (''0'' @ crlf, s))"
| "exec_request n alloc s Stats =
     Inr (snprintf 128 (''KEYS: '' @ dec_digits (unat (db_size s)) @ crlf), s)"
| "exec_request n alloc s Unknown = Inr (''ERROR Unknown command'' @ crlf, s)"

lemma run_command_parse: "run_command n alloc s c = exec_request n alloc s (parse_request c)"
  by (simp only: run_command_def parse_request_def command_tests if_distrib
      [where f = "exec_request n alloc s"] exec_request.simps)
    (simp split: option.split prod.split)

lemma exec_set:
  assumes "db_fits s" and "fits_key key" and "is_cstr val" and "unat (hash key) < 1000"
  shows "\<exists>s'. exec_request n True s (Set key val) = Inr (''OK'' @ crlf, s')
    \<and> storage_lookup s' = (storage_lookup s)(key \<mapsto> take 255 val) \<and> db_fits s'"
proof -
  obtain s' where set: "storage_set True s key val = Inr (True, s')"
    using assms by (blast intro: storage_set_in_range db_fits_wf)
  have "storage_lookup s' = (storage_lookup s)(key \<mapsto> take 255 val)"
    using server_kv.map_lookup [OF db_fits_wf [OF assms(1)] assms(2), of val s'] set assms(3)
    by (auto simp: storage_store_def)
  moreover have "db_fits s'" using assms(1) set assms(2,3) by (rule storage_set_fits)
  ultimately show ?thesis using set by simp
qed

lemma exec_set_serve:
  assumes "db_fits s" and "fits_key key" and "is_cstr val" and "unat (hash key) < 1000"
  shows "\<exists>s'. exec_request n alloc s (Set key val) = Inr (fst (serve alloc (storage_lookup s) (Set key val)), s')
    \<and> storage_lookup s' = snd (serve alloc (storage_lookup s) (Set key val)) \<and> db_fits s'"
proof (cases "alloc \<or> storage_lookup s key \<noteq> None")
  case True
  have len: "length (buckets s) = 1000" using assms(1) by (simp add: db_fits_def db_wf_def)
  then have wf: "\<forall>nd \<in> set (buckets s ! unat (hash key)). node_wf nd"
    using bucket_nodes_wf [OF db_fits_wf [OF assms(1)]] assms(4) by simp
  have "set_in_chain (buckets s ! unat (hash key)) key val \<noteq> None" if "storage_lookup s key \<noteq> None"
    using that len wf assms(4) by (auto simp: storage_lookup_eq get_in_chain_None_iff set_in_chain_None_iff)
  with True have "storage_set alloc s key val = storage_set True s key val"
    using len assms(4) by (cases alloc) (auto simp: storage_set_def bucket_at_def Let_def)
  then show ?thesis using exec_set [OF assms, of n] True by simp
next
  case False
  have len: "length (buckets s) = 1000" using assms(1) by (simp add: db_fits_def db_wf_def)
  then have wf: "\<forall>nd \<in> set (buckets s ! unat (hash key)). node_wf nd"
    using bucket_nodes_wf [OF db_fits_wf [OF assms(1)]] assms(4) by simp
  have "set_in_chain (buckets s ! unat (hash key)) key val = None"
    using False len wf assms(4) by (auto simp: storage_lookup_eq get_in_chain_None_iff set_in_chain_None_iff)
  then show ?thesis using False len assms(1,4) by (simp add: storage_set_def bucket_at_def Let_def)
qed

lemma run_command_serves:
  assumes fits: "db_fits s" and c: "is_cstr c" and n: "64 \<le> n"
    and ok: "request_ok (parse_request c)"
    and few: "card (dom (storage_lookup s)) < 2 ^ 64"
  shows "\<exists>s'. run_command n alloc s c = Inr (fst (serve alloc (storage_lookup s) (parse_request c)), s')
    \<and> storage_lookup s' = snd (serve alloc (storage_lookup s) (parse_request c)) \<and> db_fits s'"
proof -
  note wf = db_fits_wf [OF fits]
  have sz: "unat (db_size s) = card (dom (storage_lookup s))"
    using db_fits_size [OF fits] few by (simp add: unat_of_nat take_bit_eq_mod)
  note reads = storage_get_lookup [OF wf n]
  show ?thesis
  proof (cases "parse_request c")
    case (Set key val)
    moreover have "is_cstr key \<and> is_cstr val" using parse_set_cstr [OF c Set] .
    ultimately show ?thesis
      using ok fits exec_set_serve [of s key val n alloc] by (simp add: run_command_parse fits_key_def)
  next
    case (Get key)
    with ok fits show ?thesis
      using storage_lookup_short [OF wf, of key] get_response_fits
      by (cases "storage_lookup s key") (simp_all add: run_command_parse reads)
  next
    case (Exists key)
    with ok fits show ?thesis
      by (auto simp: run_command_parse reads split: option.split)
  next
    case Flush
    with wf show ?thesis by (simp add: run_command_parse flush_buckets_fits db_fits_init)
  next
    case Stats
    with fits show ?thesis
      by (simp only: run_command_parse exec_request.simps stats_line_fits) (simp add: sz)
  qed (simp_all add: run_command_parse fits)
qed

lemma run_command_refines:
  assumes "db_fits s" and "is_cstr c" and "64 \<le> n" and "request_ok (parse_request c)"
    and "card (dom (storage_lookup s)) < 2 ^ 64"
  shows "\<exists>s'. run_command n True s c = Inr (fst (respond (storage_lookup s) (parse_request c)), s')
    \<and> storage_lookup s' = snd (respond (storage_lookup s) (parse_request c)) \<and> db_fits s'"
  using run_command_serves [OF assms, of True] by simp

section \<open>One connection\<close>

lemma handle_request:
  assumes "is_cstr req" and "length req \<le> 1021"
  shows "handle_client_connection n alloc s (Some (req @ crlf)) =
    bindR (run_command n alloc s req) (\<lambda>(response, s'). Inr ([Send response, Close], s'))"
proof -
  have "take 1023 (req @ crlf) = req @ crlf" using assms by (simp add: crlf_def)
  moreover have "req @ crlf \<noteq> []" by (simp add: crlf_def)
  ultimately show ?thesis
    using assms
    by (simp only: handle_client_connection_def option.case Let_def if_False cstr_strip_line_crlf)
qed

text \<open>A response line: at most 511 bytes, ended by CR LF.\<close>

definition response_line :: "string \<Rightarrow> bool" where
  "response_line r \<longleftrightarrow> length r \<le> 511 \<and> (\<exists>body. is_cstr body \<and> r = body @ crlf)"

lemma response_lineI: "is_cstr body \<Longrightarrow> length body \<le> 509 \<Longrightarrow> response_line (body @ crlf)"
  by (auto simp: response_line_def crlf_def)

lemma stats_response_line: "response_line (''KEYS: '' @ dec_digits (unat (w :: u64)) @ crlf)"
proof -
  have "unat w < 2 ^ LENGTH(64)" by (rule unsigned_less)
  then have "unat w < 10 ^ 20" by simp
  then have "length (dec_digits (unat w)) \<le> 20" by (rule length_dec_digits) simp
  then show ?thesis
    using response_lineI [of "''KEYS: '' @ dec_digits (unat w)"] by simp
qed

lemma value_response_line:
  "length val \<le> 255 \<Longrightarrow> is_cstr val \<Longrightarrow> response_line (''VALUE '' @ val @ crlf)"
  using response_lineI [of "''VALUE '' @ val"] by simp

lemma fixed_response_lines:
  "response_line (''PONG'' @ crlf)" "response_line (''OK'' @ crlf)"
  "response_line (''ERROR Memory full'' @ crlf)" "response_line (''ERROR Invalid SET format'' @ crlf)"
  "response_line (''NOT_FOUND'' @ crlf)" "response_line (''1'' @ crlf)" "response_line (''0'' @ crlf)"
  "response_line (''ERROR Unknown command'' @ crlf)"
  by (rule response_lineI; simp)+

lemma exec_request_response:
  assumes wf: "db_wf s" and n: "64 \<le> n" and ex: "exec_request n alloc s r = Inr (resp, s')"
    and c: "\<And>key val. r = Set key val \<Longrightarrow> is_cstr key \<and> is_cstr val"
  shows "response_line resp \<and> db_wf s'"
proof (cases r)
  case (Set key val)
  then obtain b where set: "storage_set alloc s key val = Inr (b, s')"
      and resp: "resp = (if b then ''OK'' else ''ERROR Memory full'') @ crlf"
    using ex by (auto simp: bindR_Inr_iff split: if_splits)
  have "db_wf s'" using wf set c [OF Set] by (blast intro: storage_set_wf)
  then show ?thesis using resp by (simp add: fixed_response_lines del: append_Cons)
next
  case (Get key)
  then show ?thesis
    using ex wf storage_lookup_short [OF wf, of key]
    by (cases "storage_lookup s key")
      (auto simp: storage_get_lookup [OF wf n] get_response_fits value_response_line
        fixed_response_lines simp del: append_Cons split: if_splits)
next
  case (Exists key)
  then show ?thesis
    using ex wf by (auto simp: storage_get_lookup [OF wf n] fixed_response_lines
        simp del: append_Cons split: if_splits option.splits)
next
  case Flush
  then show ?thesis
    using ex wf by (auto simp: flush_buckets_fits db_wf_init fixed_response_lines simp del: append_Cons)
next
  case Stats
  then show ?thesis
    using ex wf by (auto simp only: exec_request.simps stats_line_fits stats_response_line sum.inject prod.inject)
qed (use ex wf in \<open>auto simp: fixed_response_lines simp del: append_Cons\<close>)

text \<open>The key whose bucket a request reads.\<close>

fun request_key :: "request \<Rightarrow> string option" where
  "request_key (Set key val) = Some key"
| "request_key (Get key) = Some key"
| "request_key (Exists key) = Some key"
| "request_key _ = None"

lemma exec_request_fault_iff:
  assumes "db_wf s"
  shows "(\<exists>f. exec_request n alloc s r = Inl f) \<longleftrightarrow>
    (\<exists>key. request_key r = Some key \<and> unat (hash key) = 1000)"
proof -
  have len: "length (buckets s) = 1000" using assms by (simp add: db_wf_def)
  show ?thesis
    using hash_range len
    by (cases r)
      (auto simp: storage_set_def storage_get_def bucket_at_def bindR_def Let_def le_less
        split: option.split sum.split)
qed

section \<open>Properties\<close>

lemma handle_line:
  assumes "db_fits s" and "64 \<le> n" and "is_cstr req" and "length req \<le> 1021"
    and "request_ok (parse_request req)" and "card (dom (storage_lookup s)) < 2 ^ 64"
  shows "\<exists>s'. handle_client_connection n alloc s (Some (req @ crlf)) =
      Inr ([Send (fst (serve alloc (storage_lookup s) (parse_request req))), Close], s')
    \<and> storage_lookup s' = snd (serve alloc (storage_lookup s) (parse_request req)) \<and> db_fits s'"
proof -
  obtain s' where
    "run_command n alloc s req = Inr (fst (serve alloc (storage_lookup s) (parse_request req)), s')"
    "storage_lookup s' = snd (serve alloc (storage_lookup s) (parse_request req))" "db_fits s'"
    using run_command_serves [OF assms(1,3,2,5,6)] by blast
  then show ?thesis using handle_request [OF assms(3,4)] by simp
qed

lemma exec_request_fault:
  assumes "db_wf s" and "request_key r = Some key" and "\<not> unat (hash key) < 1000"
  shows "exec_request n alloc s r = Inl (Bucket_Index_Out_Of_Range 1000)"
proof -
  have "unat (hash key) = 1000" using hash_range [of key] assms(3) by simp
  moreover have "length (buckets s) = 1000" using assms(1) by (simp add: db_wf_def)
  ultimately show ?thesis
    using assms(2) by (cases r) (simp_all add: storage_set_def storage_get_def bucket_at_def Let_def)
qed

text \<open>C1: A request line (no NUL, at most 1021 bytes and CR LF), served on a well-formed table that holds fewer
  than 2 to the 64 keys, all of them stored under at most 63 bytes. When the key of a SET, GET or EXISTS hashes
  to 1000 the handler faults, reading past the buckets. Every other line is answered exactly as the abstract
  protocol answers it with this outcome of \<open>calloc\<close>, once and before the connection is closed, and the table
  afterwards is the protocol's next state, values cut to 255 bytes. A SET must have a key of at most 63 bytes;
  the others may name any key. \<open>n\<close>, at least 64, is the argument of \<open>strncmp\<close> the source leaves out.\<close>

theorem handle_refines:
  assumes "db_fits s" and "64 \<le> n" and "is_cstr req" and "length req \<le> 1021"
    and "stored_key_fits (parse_request req)" and "card (dom (storage_lookup s)) < 2 ^ 64"
  shows "if \<exists>key. request_key (parse_request req) = Some key \<and> unat (hash key) = 1000
    then handle_client_connection n alloc s (Some (req @ crlf)) = Inl (Bucket_Index_Out_Of_Range 1000)
    else \<exists>s'. handle_client_connection n alloc s (Some (req @ crlf)) =
        Inr ([Send (fst (serve alloc (storage_lookup s) (parse_request req))), Close], s')
      \<and> storage_lookup s' = snd (serve alloc (storage_lookup s) (parse_request req)) \<and> db_fits s'"
proof (cases "\<exists>key. request_key (parse_request req) = Some key \<and> unat (hash key) = 1000")
  case True
  then obtain key where "request_key (parse_request req) = Some key" "\<not> unat (hash key) < 1000" by auto
  from exec_request_fault [OF db_fits_wf [OF assms(1)] this, of n alloc] True show ?thesis
    by (simp add: handle_request [OF assms(3,4)] run_command_parse)
next
  case False
  then have "unat (hash key) < 1000" if "request_key (parse_request req) = Some key" for key
    using that hash_range [of key] by (auto simp: le_less)
  then have "request_ok (parse_request req)" using assms(5) by (cases "parse_request req") simp_all
  from handle_line [OF assms(1-4) this assms(6), of alloc] show ?thesis unfolding if_not_P [OF False] .
qed

theorem handle_refines_witness:
  "(\<exists>s'. handle_client_connection 64 True g_storage (Some (''SET name kryo'' @ crlf)) =
      Inr ([Send (''OK'' @ crlf), Close], s') \<and> storage_lookup s' = [''name'' \<mapsto> ''kryo''] \<and> db_fits s')
   \<and> (\<exists>s'. handle_client_connection 64 False g_storage (Some (''SET name kryo'' @ crlf)) =
      Inr ([Send (''ERROR Memory full'' @ crlf), Close], s') \<and> storage_lookup s' = Map.empty \<and> db_fits s')"
proof -
  have p: "parse_request ''SET name kryo'' = Set ''name'' ''kryo''"
    by (simp add: parse_request_def strchr_split_def)
  have h: "unat (hash ''name'') \<noteq> 1000" by (simp add: hash_samples)
  note served = handle_refines [OF db_fits_init, of 64 "''SET name kryo''"]
  show ?thesis using served [of True] served [of False] h by (simp add: p)
qed

text \<open>Set, then get, over two connections: a value of at most 255 bytes sent with SET under
  a key without a space, of at most 63 bytes, comes back unchanged in the VALUE line of a GET.\<close>

lemma set_then_get:
  assumes "db_fits s" and "64 \<le> n" and "fits_key key" and "is_cstr val" and "CHR '' '' \<notin> set key"
    and "length val \<le> 255" and "unat (hash key) < 1000"
  shows "\<exists>s'. handle_client_connection n True s (Some (''SET '' @ key @ '' '' @ val @ crlf)) =
      Inr ([Send (''OK'' @ crlf), Close], s')
    \<and> handle_client_connection n True s' (Some (''GET '' @ key @ crlf)) =
      Inr ([Send (''VALUE '' @ val @ crlf), Close], s')"
proof -
  let ?set = "''SET '' @ key @ '' '' @ val" and ?get = "''GET '' @ key"
  have key: "is_cstr key" "length key \<le> 63" using assms by (simp_all add: fits_key_def)
  have parse: "parse_request ?set = Set key val" "parse_request ?get = Get key"
    using assms by (simp_all add: parse_request_def)
  obtain s' where s': "exec_request n True s (Set key val) = Inr (''OK'' @ crlf, s')"
      "storage_lookup s' = (storage_lookup s)(key \<mapsto> val)" "db_fits s'"
    using exec_set [of s key val n] assms by auto
  have "exec_request n True s' (Get key) = Inr (''VALUE '' @ val @ crlf, s')"
    using s' assms get_response_fits [of val] by (simp add: storage_get_lookup [OF db_fits_wf])
  moreover have "is_cstr ?set" "is_cstr ?get" "length ?set \<le> 1021" "length ?get \<le> 1021"
    using assms key by simp_all
  ultimately show ?thesis
    using handle_request [of ?set n True s] handle_request [of ?get n True s'] s'
    by (simp add: run_command_parse parse [simplified])
qed

theorem set_then_get_witness:
  "\<exists>s'. handle_client_connection 64 True g_storage
        (Some (''SET '' @ ''name'' @ '' '' @ ''a b'' @ crlf)) = Inr ([Send (''OK'' @ crlf), Close], s')
    \<and> handle_client_connection 64 True s' (Some (''GET '' @ ''name'' @ crlf)) =
      Inr ([Send (''VALUE '' @ ''a b'' @ crlf), Close], s')"
  by (rule set_then_get [OF db_fits_init]) (simp_all add: fits_key_def hash_samples)

text \<open>A DELETE request is answered OK and changes nothing: the key it names keeps its
  value, whatever the table holds.\<close>

lemma delete_keeps_key:
  assumes "is_cstr key" and "length key \<le> 1014"
  shows "handle_client_connection n alloc s (Some (''DELETE '' @ key @ crlf)) =
    Inr ([Send (''OK'' @ crlf), Close], s)"
proof -
  have "parse_request (''DELETE '' @ key) = Delete key" by (simp add: parse_request_def)
  then show ?thesis
    using assms handle_request [of "''DELETE '' @ key" n alloc s] by (simp add: run_command_parse)
qed

lemma delete_keeps_key_witness:
  "handle_client_connection 64 True
      (g_storage\<lparr>buckets := (buckets g_storage)[648 := [fill_node ''name'' ''kryo'']], db_size := 1\<rparr>)
      (Some (''DELETE '' @ ''name'' @ crlf)) =
    Inr ([Send (''OK'' @ crlf), Close],
      g_storage\<lparr>buckets := (buckets g_storage)[648 := [fill_node ''name'' ''kryo'']], db_size := 1\<rparr>)"
  by (rule delete_keeps_key) simp_all

lemma handle_survives:
  assumes "db_wf s" and "64 \<le> n"
    and "handle_client_connection n alloc s incoming = Inr (events, s')"
  shows "db_wf s' \<and> ((incoming = None \<or> incoming = Some []) \<and> events = [Close] \<and> s' = s
    \<or> (\<exists>r. events = [Send r, Close] \<and> response_line r))"
proof (cases "incoming = None \<or> incoming = Some []")
  case True
  with assms show ?thesis by (auto simp: handle_client_connection_def)
next
  case False
  then obtain bytes where inc: "incoming = Some bytes" "bytes \<noteq> []" by auto
  let ?c = "cstr (strip_line (take 1023 bytes))"
  obtain r where ex: "exec_request n alloc s (parse_request ?c) = Inr (r, s')"
      and ev: "events = [Send r, Close]"
    using assms(3) inc
    by (auto simp: handle_client_connection_def run_command_parse bindR_Inr_iff)
  have "response_line r \<and> db_wf s'"
    by (rule exec_request_response [OF assms(1,2) ex]) (rule parse_set_cstr [OF is_cstr_cstr])
  with ev show ?thesis by blast
qed

text \<open>C17: Whatever bytes a peer sends, a connection that the handler survives gets at most one
  response, a line of at most 511 bytes ended by CR LF, and is then closed; the table stays well
  formed, and is unchanged when nothing was received.\<close>

theorem handle_one_response:
  assumes "db_wf s" and "64 \<le> n"
    and "handle_client_connection n alloc s incoming = Inr (events, s')"
  shows "db_wf s' \<and> ((incoming = None \<or> incoming = Some []) \<and> events = [Close] \<and> s' = s
    \<or> (\<exists>r. events = [Send r, Close] \<and> response_line r))"
  using assms by (rule handle_survives)

theorem handle_one_response_witness:
  "db_wf g_storage \<and> ((Some ''PING'' = None \<or> Some ''PING'' = Some [])
      \<and> [Send (''PONG'' @ crlf), Close] = [Close] \<and> g_storage = g_storage
    \<or> (\<exists>r. [Send (''PONG'' @ crlf), Close] = [Send r, Close] \<and> response_line r))"
proof (rule handle_one_response [OF db_wf_init])
  show "handle_client_connection 64 True g_storage (Some ''PING'') =
      Inr ([Send (''PONG'' @ crlf), Close], g_storage)"
    by (simp add: handle_client_connection_def strip_line_def run_command_def cstr_def)
qed simp

text \<open>The handler reads outside the bucket array on exactly the SET, GET and EXISTS requests
  whose key hashes to 1000, so any peer can make it do so.\<close>

lemma handle_fault_iff:
  assumes "db_wf s" and "is_cstr req" and "length req \<le> 1021"
  shows "(\<exists>f. handle_client_connection n alloc s (Some (req @ crlf)) = Inl f) \<longleftrightarrow>
      (\<exists>key. request_key (parse_request req) = Some key \<and> unat (hash key) = 1000)"
  using exec_request_fault_iff [OF assms(1), of n alloc "parse_request req"]
  by (cases "exec_request n alloc s (parse_request req)")
    (auto simp: handle_request [OF assms(2,3)] run_command_parse)

lemma handle_fault_iff_witness:
  "(\<exists>f. handle_client_connection 64 True g_storage (Some (''GET cbg'' @ crlf)) = Inl f) \<and>
   ((\<exists>f. handle_client_connection 64 True g_storage (Some (''GET cbg'' @ crlf)) = Inl f) \<longleftrightarrow>
      (\<exists>key. request_key (parse_request ''GET cbg'') = Some key \<and> unat (hash key) = 1000))"
proof -
  have "parse_request ''GET cbg'' = Get ''cbg''" by (simp add: parse_request_def)
  then have "\<exists>key. request_key (parse_request ''GET cbg'') = Some key \<and> unat (hash key) = 1000"
    by (simp add: hash_samples)
  then show ?thesis
    using handle_fault_iff [OF db_wf_init, of "''GET cbg''" 64 True] by simp
qed

end
