(* ===== verification/Server_Lifecycle.thy ===== *)
theory Server_Lifecycle
  imports Server_Commands
begin

text \<open>
  The server process of \<^verbatim>\<open>kryocache/src/core/server\<close> (\<^verbatim>\<open>server.c\<close>, \<^verbatim>\<open>constants.c\<close>, \<^verbatim>\<open>main.c\<close>):
  the server instance, its life cycle, its information and configuration functions, and the
  acceptor thread that hands connections to the request handler of \<^verbatim>\<open>Server_Commands\<close>.

  \<^item> The instance keeps a storage of its own, which no request reaches: the handler works
    on the table \<open>g_storage\<close>.
  \<^item> What an operation does to memory, mutexes, descriptors and threads is a list of
    \<open>sys_event\<close>, oldest first; what the system answers (allocations, socket calls, clock)
    are parameters. Log output and \<^verbatim>\<open>usleep\<close> are left out.
  \<^item> A pointer that may be NULL is an \<open>option\<close>. \<^verbatim>\<open>double\<close> seconds are whole seconds, an \<open>int\<close>.
\<close>

section \<open>Constants\<close>

definition get_server_default_port :: u32 where "get_server_default_port = 6898"
definition get_server_max_clients :: u32 where "get_server_max_clients = 10000"
definition get_initial_storage_capacity :: nat where "get_initial_storage_capacity = 1024"
definition get_initial_storage_size :: u64 where "get_initial_storage_size = 0"
definition get_initial_server_fd :: int where "get_initial_server_fd = -1"
definition get_initial_client_count :: u32 where "get_initial_client_count = 0"
definition get_max_safe_client_count :: nat where "get_max_safe_client_count = 100000"
definition get_default_client_count :: nat where "get_default_client_count = 1000"
definition get_initial_error_message :: string where "get_initial_error_message = []"
definition get_initial_start_time :: int where "get_initial_start_time = 0"
definition get_socket_success_code :: int where "get_socket_success_code = 0"
definition get_thread_success_code :: int where "get_thread_success_code = 0"
definition get_milliseconds_per_second :: u32 where "get_milliseconds_per_second = 1000"
definition get_minimum_port_number :: u32 where "get_minimum_port_number = 1024"
definition get_maximum_port_number :: u32 where "get_maximum_port_number = 65535"
definition get_minimum_client_count :: u32 where "get_minimum_client_count = 1"
definition get_default_max_memory :: u64 where "get_default_max_memory = 0"
definition get_default_bind_address :: "string option" where "get_default_bind_address = None"
definition get_default_data_directory :: "string option" where
  "get_default_data_directory = Some ''./data''"
definition get_default_persistence_enabled :: bool where "get_default_persistence_enabled = False"
definition get_default_persistence_interval :: int where "get_default_persistence_interval = 300"

definition get_socket_creation_error_message :: string where
  "get_socket_creation_error_message = ''Socket creation failed''"
definition get_socket_option_error_message :: string where
  "get_socket_option_error_message = ''Socket option setting failed''"
definition get_socket_bind_error_message :: string where
  "get_socket_bind_error_message = ''Socket bind failed''"
definition get_socket_listen_error_message :: string where
  "get_socket_listen_error_message = ''Socket listen failed''"
definition get_thread_creation_error_message :: string where
  "get_thread_creation_error_message = ''Thread creation failed''"
definition get_null_config_error_message :: string where
  "get_null_config_error_message = ''Configuration is NULL''"
definition get_invalid_client_count_error_message :: string where
  "get_invalid_client_count_error_message = ''Invalid client count''"
definition get_null_parameter_error_message :: string where
  "get_null_parameter_error_message = ''NULL parameter provided''"
definition server_get_version :: string where "server_get_version = ''1.0.0''"
definition server_get_build_info :: string where
  "server_get_build_info = ''In-Memory Cache Server 1.0.0''"

lemmas server_constants = get_initial_storage_capacity_def get_initial_storage_size_def
  get_initial_server_fd_def get_initial_client_count_def get_max_safe_client_count_def
  get_default_client_count_def get_initial_error_message_def get_initial_start_time_def
  get_socket_success_code_def get_thread_success_code_def get_milliseconds_per_second_def

section \<open>Data\<close>

datatype server_mode = SERVER_MODE_STANDALONE | SERVER_MODE_CLUSTER | SERVER_MODE_REPLICA

datatype server_status =
    SERVER_STATUS_IDLE | SERVER_STATUS_STOPPED | SERVER_STATUS_STARTING
  | SERVER_STATUS_RUNNING | SERVER_STATUS_SHUTTING_DOWN | SERVER_STATUS_ERROR

definition get_default_server_mode :: server_mode where
  "get_default_server_mode = SERVER_MODE_STANDALONE"

definition get_initial_server_status :: server_status where
  "get_initial_server_status = SERVER_STATUS_STOPPED"

record server_config =
  server_port :: u32
  max_clients :: u32
  max_memory :: u64
  server_mode :: server_mode
  bind_address :: "string option"
  data_directory :: "string option"
  persistence_enabled :: bool
  persistence_interval :: int

record server_stats =
  connections_total :: u64
  commands_processed :: u64
  keys_stored :: u64
  memory_used :: u64
  connected_clients :: u32
  uptime_seconds :: int

record storage_node =
  sn_key :: string
  sn_value :: string
  expires_at :: int

record storage =
  st_buckets :: "storage_node list list option"
  st_capacity :: nat
  st_size :: u64

record client_context =
  ctx_fd :: int
  ctx_connected :: bool

record server_instance =
  srv_config :: server_config
  actual_max_clients :: nat
  srv_status :: server_status
  srv_storage :: "storage option"
  server_fd :: int
  clients :: "client_context list option"
  client_count :: u32
  srv_last_error :: string
  start_time :: int

text \<open>What an operation acquires and releases.\<close>

datatype resource =
    R_Server | R_Storage | R_Storage_Lock | R_Buckets | R_Node nat nat | R_Clients | R_Clients_Lock

datatype sys_event =
    Acquire resource | Release resource | Sys_Socket int | Sys_Shutdown int | Sys_Close int
  | Thread_Create | Peer net_event

datatype server_fault = Null_Storage | Use_After_Free | Handler_Fault storage_fault

section \<open>Initialisation\<close>

definition server_config_default :: server_config where
  "server_config_default = \<lparr>server_port = get_server_default_port,
     max_clients = get_server_max_clients, max_memory = get_default_max_memory,
     server_mode = get_default_server_mode, bind_address = get_default_bind_address,
     data_directory = get_default_data_directory,
     persistence_enabled = get_default_persistence_enabled,
     persistence_interval = get_default_persistence_interval\<rparr>"

record init_env =
  server_calloc_ok :: bool
  storage_calloc_ok :: bool
  storage_mutex_ok :: bool
  buckets_calloc_ok :: bool
  clients_calloc_ok :: bool
  clients_mutex_ok :: bool

definition get_max_clients_count :: "server_config \<Rightarrow> nat" where
  "get_max_clients_count cfg = unat (max_clients cfg)"

definition client_slots :: "server_config \<Rightarrow> nat" where
  "client_slots cfg =
     (let m = get_max_clients_count cfg
      in if m = 0 \<or> m > get_max_safe_client_count then get_default_client_count else m)"

text \<open>The zeroed context \<^verbatim>\<open>calloc\<close> gives; its descriptor is 0, not -1.\<close>

definition zero_context :: client_context where
  "zero_context = \<lparr>ctx_fd = 0, ctx_connected = False\<rparr>"

definition server_init ::
  "init_env \<Rightarrow> server_config option \<Rightarrow> server_instance option \<times> sys_event list" where
  "server_init env conf =
     (case conf of
        None \<Rightarrow> (None, [])
      | Some cfg \<Rightarrow>
          if \<not> server_calloc_ok env then (None, [])
          else if \<not> storage_calloc_ok env then (None, [Acquire R_Server, Release R_Server])
          else if \<not> storage_mutex_ok env then
            (None, [Acquire R_Server, Acquire R_Storage, Release R_Storage, Release R_Server])
          else if \<not> buckets_calloc_ok env then
            (None, [Acquire R_Server, Acquire R_Storage, Acquire R_Storage_Lock,
                    Release R_Storage_Lock, Release R_Storage, Release R_Server])
          else if \<not> clients_calloc_ok env then
            (None, [Acquire R_Server, Acquire R_Storage, Acquire R_Storage_Lock, Acquire R_Buckets,
                    Release R_Storage_Lock, Release R_Buckets, Release R_Storage, Release R_Server])
          else if \<not> clients_mutex_ok env then
            (None, [Acquire R_Server, Acquire R_Storage, Acquire R_Storage_Lock, Acquire R_Buckets,
                    Acquire R_Clients, Release R_Clients, Release R_Storage_Lock, Release R_Buckets,
                    Release R_Storage, Release R_Server])
          else
            (Some \<lparr>srv_config = cfg, actual_max_clients = client_slots cfg,
               srv_status = get_initial_server_status,
               srv_storage = Some \<lparr>st_buckets = Some (replicate get_initial_storage_capacity []),
                 st_capacity = get_initial_storage_capacity, st_size = get_initial_storage_size\<rparr>,
               server_fd = get_initial_server_fd,
               clients = Some (replicate (client_slots cfg) zero_context),
               client_count = get_initial_client_count,
               srv_last_error = take 255 get_initial_error_message,
               start_time = get_initial_start_time\<rparr>,
             [Acquire R_Server, Acquire R_Storage, Acquire R_Storage_Lock, Acquire R_Buckets,
              Acquire R_Clients, Acquire R_Clients_Lock]))"

definition server_init_default :: "init_env \<Rightarrow> server_instance option \<times> sys_event list" where
  "server_init_default env = server_init env (Some server_config_default)"

section \<open>Control\<close>

text \<open>What the system answers to one \<open>server_start\<close>.\<close>

record start_env =
  socket_result :: int
  setsockopt_result :: int
  bind_result :: int
  listen_result :: int
  pthread_create_result :: int
  start_clock :: int

definition fail_start :: "string \<Rightarrow> server_instance \<Rightarrow> server_instance" where
  "fail_start msg s = s\<lparr>srv_status := SERVER_STATUS_ERROR, srv_last_error := msg\<rparr>"

definition server_start ::
  "start_env \<Rightarrow> server_instance option \<Rightarrow> bool \<times> server_instance option \<times> sys_event list" where
  "server_start env server =
     (case server of
        None \<Rightarrow> (False, None, [])
      | Some s \<Rightarrow>
          if srv_status s = SERVER_STATUS_RUNNING then (True, Some s, [])
          else
            let s = s\<lparr>srv_status := SERVER_STATUS_STARTING, server_fd := socket_result env\<rparr>
            in if server_fd s < get_socket_success_code then
                 (False, Some (fail_start get_socket_creation_error_message s), [])
               else if setsockopt_result env < get_socket_success_code then
                 (False, Some (fail_start get_socket_option_error_message s), [Sys_Socket (server_fd s)])
               else if bind_result env < get_socket_success_code then
                 (False, Some (fail_start get_socket_bind_error_message s), [Sys_Socket (server_fd s)])
               else if listen_result env < get_socket_success_code then
                 (False, Some (fail_start get_socket_listen_error_message s), [Sys_Socket (server_fd s)])
               else
                 let s = s\<lparr>srv_status := SERVER_STATUS_RUNNING, start_time := start_clock env\<rparr>
                 in if pthread_create_result env \<noteq> get_thread_success_code then
                      (False, Some (fail_start get_thread_creation_error_message s),
                       [Sys_Socket (server_fd s)])
                    else (True, Some s, [Sys_Socket (server_fd s), Thread_Create]))"

definition shutdown_listener :: "server_instance \<Rightarrow> sys_event list" where
  "shutdown_listener s =
     (if server_fd s \<ge> get_initial_server_fd then [Sys_Shutdown (server_fd s)] else [])"

definition server_force_shutdown ::
  "server_instance option \<Rightarrow> server_instance option \<times> sys_event list" where
  "server_force_shutdown server =
     (case server of
        None \<Rightarrow> (None, [])
      | Some s \<Rightarrow> (Some (s\<lparr>srv_status := SERVER_STATUS_STOPPED\<rparr>), shutdown_listener s))"

text \<open>
  The wait for clients to leave: \<open>clock 0\<close> is read before the loop, \<open>clock (k + 1)\<close> at its
  \<open>k\<close>-th test, and every round sleeps. The result is the number of rounds; a loop whose clock
  stands still need not end.
\<close>

partial_function (option) stop_wait :: "(nat \<Rightarrow> int) \<Rightarrow> u32 \<Rightarrow> u32 \<Rightarrow> nat \<Rightarrow> nat option" where
  "stop_wait clock n_clients timeout_ms k =
     (if n_clients > get_initial_client_count \<and>
         clock (k + 1) - clock 0 < int (unat (timeout_ms div get_milliseconds_per_second))
      then stop_wait clock n_clients timeout_ms (k + 1)
      else Some k)"

definition server_stop ::
  "(nat \<Rightarrow> int) \<Rightarrow> server_instance option \<Rightarrow> u32 \<Rightarrow>
     (bool \<times> server_instance option \<times> sys_event list) option" where
  "server_stop clock server timeout_ms =
     (case server of
        None \<Rightarrow> Some (False, None, [])
      | Some s \<Rightarrow>
          if srv_status s \<noteq> SERVER_STATUS_RUNNING then Some (True, Some s, [])
          else
            let s = s\<lparr>srv_status := SERVER_STATUS_SHUTTING_DOWN\<rparr>
            in case stop_wait clock (client_count s) timeout_ms 0 of
                 None \<Rightarrow> None
               | Some _ \<Rightarrow>
                   if client_count s > get_initial_client_count then
                     (case server_force_shutdown (Some s) of
                        (s', es) \<Rightarrow> Some (False, s', shutdown_listener s @ es))
                   else Some (True, Some (s\<lparr>srv_status := SERVER_STATUS_STOPPED\<rparr>), shutdown_listener s))"

text \<open>The nodes of the buckets, freed chain by chain.\<close>

definition release_nodes :: "storage_node list list \<Rightarrow> sys_event list" where
  "release_nodes bs =
     concat (map (\<lambda>i. map (\<lambda>j. Release (R_Node i j)) [0..<length (bs ! i)]) [0..<length bs])"

definition release_storage :: "storage \<Rightarrow> sys_event list" where
  "release_storage st =
     (case st_buckets st of
        None \<Rightarrow> []
      | Some bs \<Rightarrow> release_nodes (take (st_capacity st) bs) @ [Release R_Buckets])
     @ [Release R_Storage_Lock, Release R_Storage]"

definition close_clients :: "server_instance \<Rightarrow> client_context list \<Rightarrow> sys_event list" where
  "close_clients s cs =
     (let clients_to_clean = min (unat (client_count s)) (actual_max_clients s)
      in map (\<lambda>c. Sys_Close (ctx_fd c)) (filter (\<lambda>c. ctx_fd c \<ge> 0) (take clients_to_clean cs)))"

text \<open>What is left of a destroyed server is what it released.\<close>

definition server_destroy :: "server_instance option \<Rightarrow> sys_event list" where
  "server_destroy server =
     (case server of
        None \<Rightarrow> []
      | Some s \<Rightarrow>
          let es = (if srv_status s = SERVER_STATUS_RUNNING
                    then snd (server_force_shutdown (Some s)) else [])
          in if clients s = None \<and> srv_storage s = None then es @ [Release R_Server]
             else es
               @ (case clients s of None \<Rightarrow> [] | Some cs \<Rightarrow> close_clients s cs @ [Release R_Clients])
               @ [Release R_Clients_Lock]
               @ (case srv_storage s of None \<Rightarrow> [] | Some st \<Rightarrow> release_storage st)
               @ [Release R_Server])"

section \<open>Information and configuration\<close>

text \<open>For NULL the code 0 of \<open>get_server_status_stopped\<close> becomes the first enumerator.\<close>

definition server_get_status :: "server_instance option \<Rightarrow> server_status" where
  "server_get_status server =
     (case server of None \<Rightarrow> SERVER_STATUS_IDLE | Some s \<Rightarrow> srv_status s)"

definition get_server_uptime_seconds :: "int \<Rightarrow> server_instance option \<Rightarrow> int" where
  "get_server_uptime_seconds now server =
     (case server of None \<Rightarrow> 0 | Some s \<Rightarrow> if start_time s = 0 then 0 else now - start_time s)"

definition server_get_stats ::
  "int \<Rightarrow> server_instance option \<Rightarrow> bool \<Rightarrow> server_fault + server_stats option" where
  "server_get_stats now server wanted =
     (case server of
        None \<Rightarrow> Inr None
      | Some s \<Rightarrow>
          if \<not> wanted then Inr None
          else case srv_storage s of
            None \<Rightarrow> Inl Null_Storage
          | Some st \<Rightarrow> Inr (Some \<lparr>connections_total = 0, commands_processed = 0,
              keys_stored = st_size st, memory_used = 0, connected_clients = client_count s,
              uptime_seconds = get_server_uptime_seconds now server\<rparr>))"

definition server_get_config :: "server_instance option \<Rightarrow> server_config option" where
  "server_get_config server = map_option srv_config server"

definition server_get_last_error :: "server_instance option \<Rightarrow> string" where
  "server_get_last_error server =
     (case server of None \<Rightarrow> [] | Some s \<Rightarrow> srv_last_error s)"

definition server_config_validate :: "server_config option \<Rightarrow> nat \<Rightarrow> bool \<times> string" where
  "server_config_validate conf error_size =
     (case conf of
        None \<Rightarrow> (False, snprintf error_size get_null_config_error_message)
      | Some cfg \<Rightarrow>
          if server_port cfg < get_minimum_port_number \<or> server_port cfg > get_maximum_port_number then
            (False, snprintf error_size (''Invalid port number: '' @ signed_digits (server_port cfg)))
          else if max_clients cfg < get_minimum_client_count then
            (False, snprintf error_size get_invalid_client_count_error_message)
          else (True, []))"

text \<open>The file is never opened. The result: success, the configuration, the error text.\<close>

definition server_config_load ::
  "string option \<Rightarrow> server_config option \<Rightarrow> nat \<Rightarrow> bool \<times> server_config option \<times> string" where
  "server_config_load filename conf error_size =
     (if filename = None \<or> conf = None then
        (False, conf, snprintf error_size get_null_parameter_error_message)
      else (True, Some server_config_default, []))"

definition server_config_save :: "string option \<Rightarrow> server_config option \<Rightarrow> bool" where
  "server_config_save filename conf = (filename \<noteq> None \<and> conf \<noteq> None)"

definition server_save_data :: "server_instance option \<Rightarrow> bool" where
  "server_save_data server = (server \<noteq> None)"

definition server_load_data :: "server_instance option \<Rightarrow> bool" where
  "server_load_data server = (server \<noteq> None)"

definition server_flush_data ::
  "server_instance option \<Rightarrow> server_fault + bool \<times> server_instance option \<times> sys_event list" where
  "server_flush_data server =
     (case server of
        None \<Rightarrow> Inr (False, server, [])
      | Some s \<Rightarrow>
          (case srv_storage s of
             None \<Rightarrow> Inr (False, server, [])
           | Some st \<Rightarrow>
               (case st_buckets st of
                  None \<Rightarrow> Inl Null_Storage
                | Some bs \<Rightarrow>
                    Inr (True,
                     Some (s\<lparr>srv_storage := Some (st\<lparr>
                       st_buckets := Some (replicate (min (st_capacity st) (length bs)) [] @ drop (st_capacity st) bs),
                       st_size := get_initial_storage_size\<rparr>)\<rparr>),
                     release_nodes (take (st_capacity st) bs)))))"

end
