(* ===== verification/Server_Process.thy ===== *)
theory Server_Process
  imports Server_Lifecycle
begin

text \<open>
  The running server process: the instance, the acceptor threads and the table they serve,
  as one state, and the steps that change it.

  \<^item> A thread of \<open>server_acceptor_thread\<close> is at its loop test, inside \<^verbatim>\<open>accept\<close>, or has left
    the loop. One step takes it to the next of these points; serving a connection is part of
    the step that \<^verbatim>\<open>accept\<close> returns from. Steps of threads and calls of the interface come
    in any order; within a step nothing interleaves.
  \<^item> \<open>server_start\<close> never joins or counts threads, so there may be several.
  \<^item> After \<open>server_destroy\<close> the instance is gone; a later use of it is \<open>Use_After_Free\<close>.
\<close>

section \<open>State\<close>

datatype thread = At_Test | In_Accept | Exited

datatype accept_outcome = Accepted bool "string option" | Would_Block | Accept_Failed

record world =
  inst :: "server_instance option"
  threads :: "thread list"
  db_table :: storage_db
  sys_log :: "sys_event list"

datatype server_event =
    Start start_env
  | Stop "nat \<Rightarrow> int" u32
  | Force_Shutdown
  | Flush_Data
  | Destroy
  | Thread_Step nat accept_outcome

definition log_events :: "sys_event list \<Rightarrow> world \<Rightarrow> world" where
  "log_events es w = w\<lparr>sys_log := sys_log w @ es\<rparr>"

section \<open>Steps\<close>

text \<open>One step of a thread; \<open>n\<close> is that of the handler, and an accepted connection brings the outcome of the
  handler's \<^verbatim>\<open>calloc\<close> and what the peer has sent.\<close>

definition acceptor_step ::
  "nat \<Rightarrow> thread \<Rightarrow> accept_outcome \<Rightarrow> world \<Rightarrow> server_fault + thread \<times> world" where
  "acceptor_step n t outcome w =
     (case t of
        Exited \<Rightarrow> Inr (Exited, w)
      | At_Test \<Rightarrow>
          (case inst w of
             None \<Rightarrow> Inl Use_After_Free
           | Some s \<Rightarrow> Inr (if srv_status s = SERVER_STATUS_RUNNING then In_Accept else Exited, w))
      | In_Accept \<Rightarrow>
          (case outcome of
             Accepted alloc_ok request \<Rightarrow>
               (case handle_client_connection n alloc_ok (db_table w) request of
                  Inl f \<Rightarrow> Inl (Handler_Fault f)
                | Inr (es, db) \<Rightarrow> Inr (At_Test, log_events (map Peer es) (w\<lparr>db_table := db\<rparr>)))
           | Would_Block \<Rightarrow> Inr (At_Test, w)
           | Accept_Failed \<Rightarrow> Inr (Exited, w)))"

text \<open>An operation of the interface on the instance; \<open>Thread_Create\<close> adds a thread.\<close>

definition with_server ::
  "world \<Rightarrow> (server_instance \<Rightarrow> server_fault + server_instance option \<times> sys_event list) \<Rightarrow>
     server_fault + world" where
  "with_server w f =
     (case inst w of
        None \<Rightarrow> Inl Use_After_Free
      | Some s \<Rightarrow> bindR (f s) (\<lambda>(s', es).
          Inr (log_events es (w\<lparr>inst := s',
            threads := threads w @ (if Thread_Create \<in> set es then [At_Test] else [])\<rparr>))))"

text \<open>\<open>None\<close> is a step that does not return.\<close>

fun server_step :: "nat \<Rightarrow> server_event \<Rightarrow> world \<Rightarrow> (server_fault + world) option" where
  "server_step n (Start env) w =
     Some (with_server w (\<lambda>s. case server_start env (Some s) of (_, s', es) \<Rightarrow> Inr (s', es)))"
| "server_step n (Stop clock timeout) w =
     (case inst w of
        None \<Rightarrow> Some (Inl Use_After_Free)
      | Some s \<Rightarrow>
          (case server_stop clock (Some s) timeout of
             None \<Rightarrow> None
           | Some (_, s', es) \<Rightarrow> Some (with_server w (\<lambda>s. Inr (s', es)))))"
| "server_step n Force_Shutdown w =
     Some (with_server w (\<lambda>s. Inr (server_force_shutdown (Some s))))"
| "server_step n Flush_Data w =
     Some (with_server w (\<lambda>s. bindR (server_flush_data (Some s)) (\<lambda>(_, s', es). Inr (s', es))))"
| "server_step n Destroy w =
     Some (with_server w (\<lambda>s. Inr (None, server_destroy (Some s))))"
| "server_step n (Thread_Step i outcome) w =
     (if i < length (threads w) then
        Some (bindR (acceptor_step n (threads w ! i) outcome w) (\<lambda>(t, w').
          Inr (w'\<lparr>threads := (threads w')[i := t]\<rparr>)))
      else Some (Inr w))"

fun server_run :: "nat \<Rightarrow> server_event list \<Rightarrow> world \<Rightarrow> (server_fault + world) option" where
  "server_run n [] w = Some (Inr w)"
| "server_run n (e # es) w =
     (case server_step n e w of
        None \<Rightarrow> None
      | Some (Inl f) \<Rightarrow> Some (Inl f)
      | Some (Inr w') \<Rightarrow> server_run n es w')"

text \<open>A process that has just created its server.\<close>

definition new_world :: "server_instance \<Rightarrow> sys_event list \<Rightarrow> world" where
  "new_world s es = \<lparr>inst = Some s, threads = [], db_table = g_storage, sys_log = es\<rparr>"

section \<open>The program\<close>

text \<open>
  \<^verbatim>\<open>main\<close>: create and start a server, wait until it no longer runs, destroy it. \<open>during\<close> is
  what happens while the loop waits (a signal is a \<open>Stop\<close>); with a server that still runs
  afterwards the program does not get past its loop, and the exit code is missing.
\<close>

definition server_main ::
  "nat \<Rightarrow> init_env \<Rightarrow> start_env \<Rightarrow> server_event list \<Rightarrow> (server_fault + int option \<times> world option) option" where
  "server_main n ienv senv during =
     (case server_init_default ienv of
        (None, es) \<Rightarrow> Some (Inr (Some 1, None))
      | (Some s, es) \<Rightarrow>
          (case server_run n [Start senv] (new_world s es) of
             None \<Rightarrow> None
           | Some (Inl f) \<Rightarrow> Some (Inl f)
           | Some (Inr w) \<Rightarrow>
               if \<not> fst (server_start senv (Some s)) then
                 map_option (map_sum id (\<lambda>w. (Some 1, Some w))) (server_run n [Destroy] w)
               else
                 (case server_run n during w of
                    None \<Rightarrow> None
                  | Some (Inl f) \<Rightarrow> Some (Inl f)
                  | Some (Inr w) \<Rightarrow>
                      if server_get_status (inst w) = SERVER_STATUS_RUNNING then Some (Inr (None, Some w))
                      else map_option (map_sum id (\<lambda>w. (Some 0, Some w))) (server_run n [Destroy] w))))"

text \<open>
  The handler of SIGINT and SIGTERM; \<open>created\<close> says whether \<^verbatim>\<open>g_server\<close> is set. \<^verbatim>\<open>main\<close> sets it once and never
  clears it, so that a signal after the destruction reaches a freed instance.
\<close>

definition signal_handler :: "nat \<Rightarrow> (nat \<Rightarrow> int) \<Rightarrow> bool \<Rightarrow> world \<Rightarrow> (server_fault + world) option" where
  "signal_handler n clock created w = (if created then server_step n (Stop clock 5000) w else Some (Inr w))"

lemma signal_after_main:
  assumes "server_main n ienv senv during = Some (Inr (Some code, Some w))"
  shows "signal_handler n clock True w = Some (Inl Use_After_Free)"
proof -
  have "inst w = None" if "map_option (map_sum id (\<lambda>w. (Some c, Some w))) (server_run n [Destroy] v)
      = Some (Inr (Some code, Some w))" for c v
    using that
    by (auto simp: with_server_def log_events_def split: option.splits sum.splits)
  then have "inst w = None"
    using assms unfolding server_main_def
    by (auto simp del: server_run.simps split: option.splits prod.splits sum.splits if_splits)
  then show ?thesis by (simp add: signal_handler_def)
qed

end
