(* ===== verification/Server_Correct.thy ===== *)
theory Server_Correct
  imports Server_Process
begin

text \<open>
  What every run of the server process keeps: the shape of the instance and of the table,
  the balance of memory and mutexes; that stopping returns and lets the threads end; and
  what the threads answer while the server runs.
\<close>

section \<open>Waiting for clients\<close>

lemma stop_wait_done [simp]:
  "n_clients = 0 \<Longrightarrow> stop_wait clock n_clients timeout_ms k = Some k"
  by (simp add: stop_wait.simps server_constants)

text \<open>No sleep lies between the first reading of the clock and the first test, one second between any two tests.\<close>

lemma stop_wait_returns:
  assumes "clock 0 \<le> clock 1" and "\<forall>k \<ge> 1. clock k + 1 \<le> clock (k + 1)"
  shows "\<exists>m. stop_wait clock c t 0 = Some m \<and> m \<le> unat (t div 1000)"
proof -
  have passed: "int k \<le> clock (k + 1) - clock 0" for k
  proof (induction k)
    case 0
    then show ?case using assms(1) by simp
  next
    case (Suc k)
    moreover have "clock (Suc k) + 1 \<le> clock (Suc k + 1)" using assms(2) by simp
    ultimately show ?case by simp
  qed
  have "\<exists>m. stop_wait clock c t k = Some m \<and> m \<le> unat (t div 1000)" if "k \<le> unat (t div 1000)" for k
    using that
  proof (induction "unat (t div 1000) - k" arbitrary: k rule: less_induct)
    case less
    show ?case
    proof (cases "c > 0 \<and> clock (k + 1) - clock 0 < int (unat (t div 1000))")
      case True
      then have "int k < int (unat (t div 1000))" using passed [of k] by linarith
      then have k: "k < unat (t div 1000)" by (simp only: of_nat_less_iff)
      have "stop_wait clock c t k = stop_wait clock c t (k + 1)"
        using True by (subst stop_wait.simps) (simp add: server_constants)
      then show ?thesis using less.hyps [of "k + 1"] k by simp
    next
      case False
      then have "stop_wait clock c t k = Some k" by (subst stop_wait.simps) (auto simp: server_constants)
      then show ?thesis using less.prems by simp
    qed
  qed
  then show ?thesis by simp
qed

lemma server_stop_idle:
  assumes "client_count s = 0"
  shows "server_stop clock (Some s) timeout = Some (if srv_status s \<noteq> SERVER_STATUS_RUNNING
     then (True, Some s, [])
     else (True, Some (s\<lparr>srv_status := SERVER_STATUS_STOPPED\<rparr>), shutdown_listener s))"
  using assms by (simp add: server_stop_def shutdown_listener_def server_constants Let_def)

text \<open>C40:
  \<open>server_stop\<close> returns, after at most \<^verbatim>\<open>timeout_ms / 1000\<close> sleeps, provided that each \<^verbatim>\<open>sleep(1)\<close> advances the
  clock by at least a second (no signal cuts it short) and the clock does not step back before the first test;
  the server then no longer runs, and the result is false exactly when it ran and clients were still counted.
\<close>

theorem server_stop_returns:
  assumes "clock 0 \<le> clock 1" and "\<forall>k \<ge> 1. clock k + 1 \<le> clock (k + 1)"
  shows "(\<exists>m. stop_wait clock (client_count s) timeout 0 = Some m \<and> m \<le> unat (timeout div 1000)) \<and>
    (\<exists>ok s' es. server_stop clock (Some s) timeout = Some (ok, Some s', es) \<and>
      srv_status s' \<noteq> SERVER_STATUS_RUNNING \<and>
      (ok \<longleftrightarrow> srv_status s \<noteq> SERVER_STATUS_RUNNING \<or> client_count s = 0))"
proof -
  obtain m where m: "stop_wait clock (client_count s) timeout 0 = Some m" "m \<le> unat (timeout div 1000)"
    using stop_wait_returns [OF assms] by blast
  then have "\<exists>ok s' es. server_stop clock (Some s) timeout = Some (ok, Some s', es) \<and>
      srv_status s' \<noteq> SERVER_STATUS_RUNNING \<and>
      (ok \<longleftrightarrow> srv_status s \<noteq> SERVER_STATUS_RUNNING \<or> client_count s = 0)"
    by (auto simp: server_stop_def server_force_shutdown_def server_constants word_gt_0 Let_def)
  with m show ?thesis by blast
qed

section \<open>The invariant of a run\<close>

definition idle_storage :: storage where
  "idle_storage = \<lparr>st_buckets = Some (replicate 1024 []), st_capacity = 1024, st_size = 0\<rparr>"

definition server_ok :: "server_config \<Rightarrow> server_instance \<Rightarrow> bool" where
  "server_ok cfg s \<longleftrightarrow> srv_config s = cfg \<and> actual_max_clients s = client_slots cfg
     \<and> srv_status s \<in> {SERVER_STATUS_STOPPED, SERVER_STATUS_RUNNING, SERVER_STATUS_ERROR}
     \<and> srv_storage s = Some idle_storage \<and> client_count s = 0
     \<and> clients s = Some (replicate (client_slots cfg) zero_context)
     \<and> length (srv_last_error s) \<le> 255"

text \<open>The resources held after a run of events; \<open>None\<close> if one is taken twice or released
  without being held.\<close>

fun held :: "resource set \<Rightarrow> sys_event list \<Rightarrow> resource set option" where
  "held R [] = Some R"
| "held R (Acquire x # es) = (if x \<in> R then None else held (insert x R) es)"
| "held R (Release x # es) = (if x \<notin> R then None else held (R - {x}) es)"
| "held R (_ # es) = held R es"

definition server_resources :: "resource set" where
  "server_resources = {R_Server, R_Storage, R_Storage_Lock, R_Buckets, R_Clients, R_Clients_Lock}"

lemma held_append: "held R (es @ es') = Option.bind (held R es) (\<lambda>R'. held R' es')"
  by (induction R es rule: held.induct) auto

text \<open>Events that neither take nor give back anything, nor close a descriptor.\<close>

fun neutral :: "sys_event \<Rightarrow> bool" where
  "neutral (Acquire x) = False"
| "neutral (Release x) = False"
| "neutral (Sys_Close fd) = False"
| "neutral _ = True"

lemma held_neutral [simp]: "list_all neutral es \<Longrightarrow> held R es = Some R"
  by (induction R es rule: held.induct) auto

lemma neutral_no_close: "list_all neutral es \<Longrightarrow> Sys_Close fd \<notin> set es"
  by (induction es) auto

lemma neutral_Peer [simp]: "list_all neutral (map Peer es)"
  by (induction es) auto

lemma neutral_shutdown [simp]: "list_all neutral (shutdown_listener s)"
  by (simp add: shutdown_listener_def)

lemma release_nodes_idle [simp]: "release_nodes (replicate m []) = []"
  by (simp add: release_nodes_def)

lemma server_init_ok:
  "server_init env (Some cfg) = (Some s, es) \<Longrightarrow> server_ok cfg s \<and> held {} es = Some server_resources
     \<and> (\<forall>fd. Sys_Close fd \<notin> set es)"
  by (auto simp: server_init_def server_ok_def idle_storage_def server_constants
      get_initial_server_status_def server_resources_def split: if_splits)

lemma server_start_ok:
  "server_ok cfg s \<Longrightarrow> server_start env (Some s) = (b, s', es) \<Longrightarrow>
   (\<exists>t. s' = Some t \<and> server_ok cfg t) \<and> list_all neutral es"
  by (auto simp: server_start_def server_ok_def fail_start_def Let_def
      get_socket_creation_error_message_def get_socket_option_error_message_def
      get_socket_bind_error_message_def get_socket_listen_error_message_def
      get_thread_creation_error_message_def split: if_splits)

lemma server_destroy_releases:
  assumes "server_ok cfg s"
  shows "held server_resources (server_destroy (Some s)) = Some {} \<and>
    (\<forall>fd. Sys_Close fd \<notin> set (server_destroy (Some s)))"
  using assms
  by (auto simp: server_ok_def server_destroy_def server_force_shutdown_def shutdown_listener_def
      close_clients_def release_storage_def idle_storage_def server_resources_def Let_def)

lemma server_flush_ok:
  "server_ok cfg s \<Longrightarrow> server_flush_data (Some s) = Inr (True, Some s, [])"
  by (auto simp: server_flush_data_def server_ok_def idle_storage_def server_constants)

definition world_ok :: "server_config \<Rightarrow> world \<Rightarrow> bool" where
  "world_ok cfg w \<longleftrightarrow> (case inst w of None \<Rightarrow> True | Some s \<Rightarrow> server_ok cfg s)
     \<and> db_wf (db_table w)
     \<and> held {} (sys_log w) = Some (if inst w = None then {} else server_resources)
     \<and> (\<forall>fd. Sys_Close fd \<notin> set (sys_log w))"

lemma with_server_ok:
  assumes "world_ok cfg w" and "inst w = Some s" and "with_server w f = Inr w'"
    and "f s = Inr (Some s', es)" and "server_ok cfg s'" and "list_all neutral es"
  shows "world_ok cfg w'"
  using assms by (auto simp: with_server_def world_ok_def log_events_def held_append neutral_no_close)

lemma acceptor_step_ok:
  assumes "world_ok cfg w" and "64 \<le> n" and "acceptor_step n t x w = Inr (t', w')"
  shows "world_ok cfg (w'\<lparr>threads := ts\<rparr>)"
proof (cases "t = In_Accept \<and> (\<exists>al r. x = Accepted al r)")
  case True
  then obtain al r where tx: "t = In_Accept" "x = Accepted al r" by auto
  with assms(3) obtain es db where h: "handle_client_connection n al (db_table w) r = Inr (es, db)"
    and w': "w' = log_events (map Peer es) (w\<lparr>db_table := db\<rparr>)"
    by (auto simp: acceptor_step_def split: sum.splits)
  have "db_wf db" using handle_survives [OF _ assms(2) h] assms(1) by (simp add: world_ok_def)
  then show ?thesis
    using assms(1) by (auto simp: w' world_ok_def log_events_def held_append neutral_no_close)
next
  case False
  with assms(3) have "w' = w"
    by (auto simp: acceptor_step_def split: thread.splits option.splits accept_outcome.splits)
  then show ?thesis using assms(1) by (simp add: world_ok_def)
qed

lemma server_step_ok:
  assumes ok: "world_ok cfg w" and n: "64 \<le> n" and step: "server_step n e w = Some (Inr w')"
  shows "world_ok cfg w'"
proof (cases "\<exists>i x. e = Thread_Step i x")
  case True
  then obtain i x where e: "e = Thread_Step i x" by blast
  show ?thesis
  proof (cases "acceptor_step n (threads w ! i) x w")
    case (Inr r)
    then show ?thesis
      using acceptor_step_ok [OF ok n, of "threads w ! i" x "fst r" "snd r"] step ok e
      by (cases r) (auto split: if_splits)
  qed (use step ok e in \<open>auto split: if_splits\<close>)
next
  case False
  with step obtain s where s: "inst w = Some s"
    by (cases e) (auto simp: with_server_def split: option.splits)
  with ok have sok: "server_ok cfg s" by (simp add: world_ok_def)
  then have stopped: "server_ok cfg (s\<lparr>srv_status := SERVER_STATUS_STOPPED\<rparr>)"
    by (simp add: server_ok_def)
  note keep = with_server_ok [OF ok s]
  show ?thesis
  proof (cases e)
    case (Start env)
    obtain b s' es where st: "server_start env (Some s) = (b, s', es)"
      by (cases "server_start env (Some s)") auto
    with server_start_ok [OF sok st] step Start show ?thesis
      by (auto intro: keep)
  next
    case (Stop clock timeout)
    have "client_count s = 0" using sok by (simp add: server_ok_def)
    with step s Stop sok stopped server_stop_idle [of s clock timeout] show ?thesis
      by (auto intro: keep split: if_splits)
  next
    case Force_Shutdown
    with step stopped show ?thesis by (auto simp: server_force_shutdown_def intro: keep)
  next
    case Flush_Data
    with step sok server_flush_ok [OF sok] show ?thesis by (auto intro: keep)
  next
    case Destroy
    with step s ok server_destroy_releases [OF sok] show ?thesis
      by (auto simp: with_server_def world_ok_def log_events_def held_append)
  qed (use False in simp)
qed

lemma server_run_ok_world:
  "world_ok cfg w \<Longrightarrow> 64 \<le> n \<Longrightarrow> server_run n evs w = Some (Inr w') \<Longrightarrow> world_ok cfg w'"
proof (induction evs arbitrary: w)
  case (Cons e evs)
  then show ?case
    by (auto split: option.splits sum.splits dest: server_step_ok)
qed simp

lemma new_world_ok:
  "server_init env (Some cfg) = (Some s, es) \<Longrightarrow> world_ok cfg (new_world s es)"
  using server_init_ok [of env cfg s es] by (simp add: world_ok_def new_world_def db_wf_init)

section \<open>Properties of every run\<close>

text \<open>C21:
  After any calls and thread steps in any order, an instance that is still there is
  STOPPED, RUNNING or ERROR, has the configuration it was made with and between 1 and
  100000 client slots of which none is ever used, and reports 0 keys and 0 clients whatever
  the table holds; flushing it succeeds and changes nothing. The table stays well formed.
\<close>

theorem server_run_type:
  assumes "server_init env (Some cfg) = (Some s0, es)" and "64 \<le> n"
    and "server_run n evs (new_world s0 es) = Some (Inr w)"
  shows "db_wf (db_table w) \<and> (case inst w of
      None \<Rightarrow> True
    | Some s \<Rightarrow> srv_config s = cfg
        \<and> srv_status s \<in> {SERVER_STATUS_STOPPED, SERVER_STATUS_RUNNING, SERVER_STATUS_ERROR}
        \<and> (\<exists>cs. clients s = Some cs \<and> length cs = actual_max_clients s)
        \<and> 1 \<le> actual_max_clients s \<and> actual_max_clients s \<le> 100000
        \<and> (\<exists>st. server_get_stats now (Some s) True = Inr (Some st) \<and> keys_stored st = 0
             \<and> connected_clients st = 0)
        \<and> server_flush_data (Some s) = Inr (True, Some s, []))"
proof -
  have ok: "world_ok cfg w" using new_world_ok [OF assms(1)] assms(2,3) by (rule server_run_ok_world)
  show ?thesis
  proof (cases "inst w")
    case None
    with ok show ?thesis by (simp add: world_ok_def)
  next
    case (Some s)
    with ok have s: "server_ok cfg s" by (simp add: world_ok_def)
    then have "\<exists>st. server_get_stats now (Some s) True = Inr (Some st) \<and> keys_stored st = 0
        \<and> connected_clients st = 0"
      by (simp add: server_get_stats_def server_ok_def idle_storage_def)
    moreover have "1 \<le> client_slots cfg" "client_slots cfg \<le> 100000"
      by (auto simp: client_slots_def server_constants Let_def)
    ultimately show ?thesis
      using ok Some s server_flush_ok [OF s] by (simp add: world_ok_def server_ok_def)
  qed
qed

text \<open>C14:
  Memory and mutexes balance: an initialisation that fails gives back all it took, and a
  server holds its six resources until \<open>server_destroy\<close>, which releases each exactly once.
  Descriptors do not: no run ever closes a listening socket it opened.
\<close>

theorem server_resources_balance:
  assumes "64 \<le> n"
  shows "case server_init env conf of
      (None, es) \<Rightarrow> held {} es = Some {}
    | (Some s0, es) \<Rightarrow>
        (case server_run n evs (new_world s0 es) of
           Some (Inr w) \<Rightarrow> held {} (sys_log w) = Some (if inst w = None then {} else server_resources)
             \<and> (\<forall>fd. Sys_Close fd \<notin> set (sys_log w))
         | _ \<Rightarrow> True)"
proof (cases "server_init env conf")
  case (Pair r es)
  show ?thesis
  proof (cases r)
    case None
    with Pair show ?thesis by (auto simp: server_init_def split: option.splits if_splits)
  next
    case (Some s0)
    with Pair obtain cfg where "server_init env (Some cfg) = (Some s0, es)"
      by (cases conf) (simp_all add: server_init_def)
    then have start: "world_ok cfg (new_world s0 es)" by (rule new_world_ok)
    have "world_ok cfg w" if "server_run n evs (new_world s0 es) = Some (Inr w)" for w
      using server_run_ok_world [OF start assms that] .
    with Pair Some show ?thesis by (auto simp: world_ok_def split: option.splits sum.splits)
  qed
qed

subsection \<open>Witnesses\<close>

definition good_init :: init_env where
  "good_init = \<lparr>server_calloc_ok = True, storage_calloc_ok = True, storage_mutex_ok = True,
     buckets_calloc_ok = True, clients_calloc_ok = True, clients_mutex_ok = True\<rparr>"

definition good_start :: start_env where
  "good_start = \<lparr>socket_result = 4, setsockopt_result = 0, bind_result = 0, listen_result = 0,
     pthread_create_result = 0, start_clock = 9\<rparr>"

definition default_server :: server_instance where
  "default_server = \<lparr>srv_config = server_config_default, actual_max_clients = 10000,
     srv_status = SERVER_STATUS_STOPPED, srv_storage = Some idle_storage, server_fd = -1,
     clients = Some (replicate 10000 zero_context), client_count = 0, srv_last_error = [],
     start_time = 0\<rparr>"

definition init_log :: "sys_event list" where
  "init_log = [Acquire R_Server, Acquire R_Storage, Acquire R_Storage_Lock, Acquire R_Buckets,
     Acquire R_Clients, Acquire R_Clients_Lock]"

lemma default_server_init: "server_init good_init (Some server_config_default) = (Some default_server, init_log)"
proof -
  have "client_slots server_config_default = 10000"
    by (simp add: client_slots_def get_max_clients_count_def server_config_default_def
        get_server_max_clients_def server_constants)
  then show ?thesis
    by (simp add: server_init_def good_init_def default_server_def init_log_def idle_storage_def
        server_constants get_initial_server_status_def)
qed

definition running_server :: server_instance where
  "running_server = default_server\<lparr>srv_status := SERVER_STATUS_RUNNING, server_fd := 4, start_time := 9\<rparr>"

lemma good_start_run:
  "server_run n [Start good_start] (new_world default_server init_log) =
     Some (Inr \<lparr>inst = Some running_server, threads = [At_Test], db_table = g_storage,
       sys_log = init_log @ [Sys_Socket 4, Thread_Create]\<rparr>)"
  by (simp add: with_server_def server_start_def good_start_def default_server_def running_server_def
      new_world_def log_events_def server_constants)

lemma server_stop_returns_witness:
  "\<exists>ok s' es. server_stop (\<lambda>k. int (k - 1)) (Some (running_server\<lparr>client_count := 2\<rparr>)) 3000 = Some (ok, Some s', es) \<and>
    srv_status s' \<noteq> SERVER_STATUS_RUNNING \<and> \<not> ok"
proof -
  have "int (0 - 1) \<le> int (1 - 1)" "\<forall>k \<ge> 1. int (k - 1) + 1 \<le> int (k + 1 - 1)" by auto
  from server_stop_returns [of "\<lambda>k. int (k - 1)", OF this, of "running_server\<lparr>client_count := 2\<rparr>" 3000]
  show ?thesis by (simp add: running_server_def)
qed

lemma server_run_type_witness:
  "\<exists>st. server_get_stats 20 (Some running_server) True = Inr (Some st) \<and> keys_stored st = 0
      \<and> connected_clients st = 0"
  using server_run_type [OF default_server_init order_refl good_start_run, of 20] by simp

lemma server_resources_balance_witness:
  "held {} (init_log @ [Sys_Socket 4, Thread_Create]) = Some server_resources \<and>
   (\<forall>fd. Sys_Close fd \<notin> set (init_log @ [Sys_Socket 4, Thread_Create]))"
  using server_resources_balance [where n = 64 and env = good_init and
      conf = "Some server_config_default" and evs = "[Start good_start]",
      unfolded default_server_init good_start_run prod.case option.case sum.case]
  by simp

end
