(* ===== verification/Server_Threads.thy ===== *)
theory Server_Threads
  imports Server_Correct
begin

text \<open>
  The acceptor threads of \<^verbatim>\<open>Server_Process\<close>: they serve as the abstract protocol says while
  the server runs, they end once it is stopped, and they outlive the instance they use when
  it is destroyed.
\<close>

section \<open>Counting\<close>

fun steps_left :: "thread \<Rightarrow> nat" where
  "steps_left Exited = 0"
| "steps_left At_Test = 1"
| "steps_left In_Accept = 2"

fun steps :: "nat \<Rightarrow> server_event \<Rightarrow> bool" where
  "steps i (Thread_Step j x) = (i = j)"
| "steps i _ = False"

fun is_start :: "server_event \<Rightarrow> bool" where
  "is_start (Start env) = True"
| "is_start _ = False"

definition closed_peers :: "sys_event list \<Rightarrow> nat" where
  "closed_peers es = count_list es (Peer Close)"

definition waiting :: "thread list \<Rightarrow> nat" where
  "waiting ts = count_list ts In_Accept"

definition not_running :: "world \<Rightarrow> bool" where
  "not_running w = (case inst w of None \<Rightarrow> True | Some s \<Rightarrow> srv_status s \<noteq> SERVER_STATUS_RUNNING)"

lemma closed_peers_append [simp]: "closed_peers (es @ es') = closed_peers es + closed_peers es'"
  by (simp add: closed_peers_def)

lemma closed_peers_none: "Peer Close \<notin> set es \<Longrightarrow> closed_peers es = 0"
  by (simp add: closed_peers_def count_list_0_iff)

lemma waiting_update:
  "i < length ts \<Longrightarrow> waiting (ts[i := t]) + of_bool (ts ! i = In_Accept)
     = waiting ts + of_bool (t = In_Accept)"
proof (induction ts arbitrary: i)
  case (Cons a ts)
  then show ?case by (cases i) (auto simp: waiting_def)
qed simp

lemma handle_closes:
  "handle_client_connection n alloc db r = Inr (es, db') \<Longrightarrow> closed_peers (map Peer es) = 1"
  by (auto simp: handle_client_connection_def closed_peers_def bindR_Inr_iff Let_def
      split: option.splits if_splits)

section \<open>A server that does not run\<close>

text \<open>What a step does then: no thread appears, no thread moves back, and connections are
  served only by threads already waiting for one.\<close>

definition winds_down :: "server_event \<Rightarrow> world \<Rightarrow> world \<Rightarrow> bool" where
  "winds_down e w w' \<longleftrightarrow> not_running w' \<and> length (threads w') = length (threads w)
     \<and> (\<forall>i < length (threads w). steps_left (threads w' ! i) \<le> steps_left (threads w ! i) - of_bool (steps i e))
     \<and> closed_peers (sys_log w') + waiting (threads w') \<le> closed_peers (sys_log w) + waiting (threads w)"

lemma with_server_winds_down:
  assumes "with_server w f = Inr w'" and "inst w = Some s" and "f s = Inr (s', es)"
    and "not_running (w\<lparr>inst := s'\<rparr>)" and "Thread_Create \<notin> set es" and "Peer Close \<notin> set es"
    and "\<not> (\<exists>i x. e = Thread_Step i x)"
  shows "winds_down e w w'"
proof -
  have "\<not> steps i e" for i using assms(7) by (cases e) auto
  with assms show ?thesis
    by (auto simp: with_server_def winds_down_def log_events_def not_running_def closed_peers_none)
qed

lemma acceptor_step_winds_down:
  assumes "not_running w" and "i < length (threads w)"
    and "acceptor_step n (threads w ! i) x w = Inr (t, w')"
  shows "winds_down (Thread_Step i x) w (w'\<lparr>threads := (threads w')[i := t]\<rparr>)"
proof -
  have "inst w' = inst w \<and> threads w' = threads w \<and> steps_left t \<le> steps_left (threads w ! i) - 1
    \<and> t \<noteq> In_Accept
    \<and> closed_peers (sys_log w') = closed_peers (sys_log w) + of_bool (threads w ! i = In_Accept \<and> t = At_Test \<and> (\<exists>al r. x = Accepted al r))"
    using assms(1,3)
    by (auto simp: acceptor_step_def not_running_def log_events_def handle_closes
        split: thread.splits option.splits accept_outcome.splits sum.splits if_splits)
  moreover note waiting_update [OF assms(2), of t]
  ultimately show ?thesis
    using assms(1,2) by (auto simp: winds_down_def not_running_def nth_list_update split: if_splits)
qed

lemma release_nodes_quiet [simp]:
  "Thread_Create \<notin> set (release_nodes bs)" "Peer p \<notin> set (release_nodes bs)"
  by (auto simp: release_nodes_def)

lemma server_destroy_quiet:
  "Thread_Create \<notin> set (server_destroy (Some s))" "Peer p \<notin> set (server_destroy (Some s))"
  by (auto simp: server_destroy_def server_force_shutdown_def shutdown_listener_def
      close_clients_def release_storage_def Let_def split: option.splits)

lemma server_step_winds_down:
  assumes "not_running w" and "\<not> is_start e" and "server_step n e w = Some (Inr w')"
  shows "winds_down e w w'"
proof (cases "\<exists>i x. e = Thread_Step i x")
  case True
  then obtain i x where e: "e = Thread_Step i x" by blast
  show ?thesis
  proof (cases "i < length (threads w)")
    case True
    with assms(3) e obtain t v where "acceptor_step n (threads w ! i) x w = Inr (t, v)"
      "w' = v\<lparr>threads := (threads v)[i := t]\<rparr>"
      by (auto simp: bindR_Inr_iff)
    with acceptor_step_winds_down [OF assms(1) True] e show ?thesis by blast
  next
    case False
    with assms(1,3) e show ?thesis by (auto simp: winds_down_def)
  qed
next
  case False
  with assms(3) obtain s where s: "inst w = Some s"
    by (cases e) (auto simp: with_server_def split: option.splits)
  with assms(1) have idle: "srv_status s \<noteq> SERVER_STATUS_RUNNING" by (simp add: not_running_def)
  note down = with_server_winds_down [OF _ s]
  have nts: "\<not> (\<exists>i x. e = Thread_Step i x)" using False by blast
  show ?thesis
  proof (cases e)
    case (Stop clock timeout)
    with assms(3) s idle have "with_server w (\<lambda>_. Inr (Some s, [])) = Inr w'"
      by (simp add: server_stop_def)
    then show ?thesis by (rule down [OF _ refl]) (use idle nts in \<open>simp_all add: not_running_def\<close>)
  next
    case Force_Shutdown
    with assms(3) have "with_server w (\<lambda>s. Inr (server_force_shutdown (Some s))) = Inr w'" by simp
    then show ?thesis
      by (rule down) (use nts in \<open>auto simp: not_running_def server_force_shutdown_def
        shutdown_listener_def\<close>)
  next
    case Flush_Data
    with assms(3) have run: "with_server w (\<lambda>s. bindR (server_flush_data (Some s)) (\<lambda>(_, s', es). Inr (s', es))) = Inr w'"
      by simp
    with s obtain s' es where f: "bindR (server_flush_data (Some s)) (\<lambda>(_, s', es). Inr (s', es)) = Inr (s', es)"
      by (auto simp: with_server_def bindR_Inr_iff)
    then have "not_running (w\<lparr>inst := s'\<rparr>)" "Thread_Create \<notin> set es" "Peer Close \<notin> set es"
      using idle by (auto simp: server_flush_data_def not_running_def split: option.splits)
    then show ?thesis using down [OF run f] nts by blast
  next
    case Destroy
    with assms(3) have "with_server w (\<lambda>s. Inr (None, server_destroy (Some s))) = Inr w'" by simp
    then show ?thesis
      by (rule down [OF _ refl]) (use nts in \<open>simp_all add: not_running_def server_destroy_quiet\<close>)
  qed (use assms(2) nts in auto)
qed

lemma server_run_winds_down:
  "not_running w \<Longrightarrow> \<forall>e \<in> set evs. \<not> is_start e \<Longrightarrow> server_run n evs w = Some (Inr w') \<Longrightarrow>
   length (threads w') = length (threads w)
   \<and> (\<forall>i < length (threads w). steps_left (threads w' ! i) \<le> steps_left (threads w ! i) - length (filter (steps i) evs))
   \<and> closed_peers (sys_log w') + waiting (threads w') \<le> closed_peers (sys_log w) + waiting (threads w)"
proof (induction evs arbitrary: w)
  case (Cons e evs)
  then obtain v where v: "server_step n e w = Some (Inr v)" "server_run n evs v = Some (Inr w')"
    by (auto split: option.splits sum.splits)
  from server_step_winds_down [OF Cons.prems(1) _ v(1)] Cons.prems(2)
  have d: "winds_down e w v" by simp
  with Cons.IH [of v] Cons.prems(2) v(2) have ih: "length (threads w') = length (threads v)"
    "\<forall>i < length (threads v). steps_left (threads w' ! i) \<le> steps_left (threads v ! i) - length (filter (steps i) evs)"
    "closed_peers (sys_log w') + waiting (threads w') \<le> closed_peers (sys_log v) + waiting (threads v)"
    by (auto simp: winds_down_def)
  have "steps_left (threads w' ! i) \<le> steps_left (threads w ! i) - length (filter (steps i) (e # evs))"
    if "i < length (threads w)" for i
    using ih(1,2) d that by (force simp: winds_down_def)
  with ih d show ?case by (simp add: winds_down_def)
qed simp

section \<open>Stopping\<close>

lemma stop_not_running:
  "server_stop clock (Some s) timeout = Some (b, s', es) \<Longrightarrow> \<exists>t. s' = Some t \<and> srv_status t \<noteq> SERVER_STATUS_RUNNING
     \<and> Thread_Create \<notin> set es \<and> Peer Close \<notin> set es"
  by (auto simp: server_stop_def server_force_shutdown_def shutdown_listener_def Let_def
      split: if_splits option.splits)

lemma stop_step:
  assumes "server_step n (Stop clock timeout) w = Some (Inr w')"
  shows "not_running w' \<and> threads w' = threads w \<and> closed_peers (sys_log w') = closed_peers (sys_log w)"
proof -
  obtain s where s: "inst w = Some s" using assms by (auto split: option.splits)
  with assms obtain b s' es where st: "server_stop clock (Some s) timeout = Some (b, s', es)"
    by (auto split: option.splits)
  with assms s stop_not_running [OF st] show ?thesis
    by (auto simp: with_server_def not_running_def log_events_def closed_peers_none)
qed

text \<open>C13:
  In a run that starts with a \<open>server_stop\<close> that returns, has no later \<open>server_start\<close> and does not fault (no
  thread uses an instance that was destroyed, no key hashes to 1000), every acceptor thread has left its loop
  after two of its own steps, and all threads together serve at most as many more connections as threads were
  waiting in \<^verbatim>\<open>accept\<close> at the stop.
\<close>

theorem stop_ends_threads:
  assumes "server_run n (Stop clock timeout # evs) w = Some (Inr w')"
    and "\<forall>e \<in> set evs. \<not> is_start e"
  shows "(\<forall>i < length (threads w). 2 \<le> length (filter (steps i) evs) \<longrightarrow> threads w' ! i = Exited)
    \<and> closed_peers (sys_log w') \<le> closed_peers (sys_log w) + waiting (threads w)"
proof -
  obtain v where v: "server_step n (Stop clock timeout) w = Some (Inr v)" "server_run n evs v = Some (Inr w')"
    using assms(1) by (auto simp del: server_step.simps split: option.splits sum.splits)
  note st = stop_step [OF v(1)]
  note down = server_run_winds_down [OF _ assms(2) v(2)]
  have "threads w' ! i = Exited" if "i < length (threads w)" "2 \<le> length (filter (steps i) evs)" for i
  proof -
    have "steps_left (threads v ! i) \<le> 2" by (cases "threads v ! i") simp_all
    then have "steps_left (threads w' ! i) = 0" using down st that by force
    then show ?thesis by (cases "threads w' ! i") simp_all
  qed
  with down st show ?thesis by auto
qed

lemma stop_ends_threads_witness:
  "\<exists>w'. server_run 64 [Stop int 5000, Thread_Step 0 Would_Block, Thread_Step 0 Would_Block]
      \<lparr>inst = Some running_server, threads = [In_Accept], db_table = g_storage, sys_log = []\<rparr> = Some (Inr w')
    \<and> threads w' ! 0 = Exited \<and> closed_peers (sys_log w') \<le> 1"
proof -
  let ?w = "\<lparr>inst = Some running_server, threads = [In_Accept], db_table = g_storage, sys_log = []\<rparr>"
  let ?evs = "[Thread_Step 0 Would_Block, Thread_Step 0 Would_Block]"
  have "client_count running_server = 0" "srv_status running_server = SERVER_STATUS_RUNNING"
    by (simp_all add: running_server_def default_server_def)
  then obtain w' where run: "server_run 64 (Stop int 5000 # ?evs) ?w = Some (Inr w')"
    by (simp add: server_stop_idle with_server_def acceptor_step_def log_events_def)
  have "2 \<le> length (filter (steps 0) ?evs)" by simp
  with stop_ends_threads [OF run] run show ?thesis by (auto simp: waiting_def closed_peers_def)
qed

section \<open>Destroying a server whose threads are alive\<close>

text \<open>C24:
  Nothing waits for the threads: stop and then destroy a server while an acceptor has not
  left its loop, as \<open>main\<close> does after a signal, and the acceptor's next loop test reads the
  freed instance.
\<close>

theorem destroy_use_after_free:
  assumes "server_init env (Some cfg) = (Some s0, es)" and "64 \<le> n"
    and "server_run n evs (new_world s0 es) = Some (Inr w)"
    and "inst w \<noteq> None" and "i < length (threads w)" and "threads w ! i \<noteq> Exited"
  shows "server_run n [Stop clock timeout, Destroy, Thread_Step i Would_Block, Thread_Step i Would_Block] w
    = Some (Inl Use_After_Free)"
proof -
  obtain s where s: "inst w = Some s" using assms(4) by blast
  have "world_ok cfg w" using new_world_ok [OF assms(1)] assms(2,3) by (rule server_run_ok_world)
  with s have c: "client_count s = 0" by (simp add: world_ok_def server_ok_def)
  have quiet: "Thread_Create \<notin> set (shutdown_listener s)" by (simp add: shutdown_listener_def)
  show ?thesis
    using s assms(5,6) quiet
    by (cases "threads w ! i")
      (simp_all add: server_stop_idle [OF c] with_server_def log_events_def server_destroy_quiet
        acceptor_step_def)
qed

lemma destroy_use_after_free_witness:
  "server_run 64 [Start good_start] (new_world default_server init_log) \<noteq> None \<and>
   server_run 64 [Stop int 5000, Destroy, Thread_Step 0 Would_Block, Thread_Step 0 Would_Block]
     \<lparr>inst = Some running_server, threads = [At_Test], db_table = g_storage,
       sys_log = init_log @ [Sys_Socket 4, Thread_Create]\<rparr> = Some (Inl Use_After_Free)"
  using destroy_use_after_free [OF default_server_init order_refl good_start_run, of 0 int 5000]
  unfolding good_start_run by simp

section \<open>Serving\<close>

text \<open>The abstract protocol over a list of request lines, each with the outcome of the handler's \<^verbatim>\<open>calloc\<close>.\<close>

fun serve_all :: "(string \<rightharpoonup> string) \<Rightarrow> (bool \<times> string) list \<Rightarrow> string list \<times> (string \<rightharpoonup> string)" where
  "serve_all m [] = ([], m)"
| "serve_all m ((alloc, req) # reqs) =
     (case serve_all (snd (serve alloc m (parse_request req))) reqs of
        (answers, m') \<Rightarrow> (fst (serve alloc m (parse_request req)) # answers, m'))"

text \<open>The same when there always is memory.\<close>

fun respond_all :: "(string \<rightharpoonup> string) \<Rightarrow> string list \<Rightarrow> string list \<times> (string \<rightharpoonup> string)" where
  "respond_all m [] = ([], m)"
| "respond_all m (req # reqs) =
     (case respond_all (snd (respond m (parse_request req))) reqs of
        (answers, m') \<Rightarrow> (fst (respond m (parse_request req)) # answers, m'))"

text \<open>The two steps in which thread \<open>i\<close> accepts a connection and serves its line.\<close>

definition serve_line :: "nat \<Rightarrow> bool \<times> string \<Rightarrow> server_event list" where
  "serve_line i areq =
     [Thread_Step i Would_Block, Thread_Step i (Accepted (fst areq) (Some (snd areq @ crlf)))]"

definition servable :: "string \<Rightarrow> bool" where
  "servable req \<longleftrightarrow> is_cstr req \<and> length req \<le> 1021 \<and> request_ok (parse_request req)"

lemma serve_card: "card (dom (snd (serve alloc m r))) \<le> card (dom m) + 1"
  by (cases r) (simp_all add: card_insert_le_m1 card_insert_if)

lemma server_run_append:
  "server_run n (es @ es') w = (case server_run n es w of
     Some (Inr w') \<Rightarrow> server_run n es' w' | r \<Rightarrow> r)"
  by (induction es arbitrary: w) (auto split: option.splits sum.splits)

lemma serve_line_run:
  assumes "inst w = Some s" and "srv_status s = SERVER_STATUS_RUNNING"
    and "i < length (threads w)" and "threads w ! i = At_Test"
    and "db_fits (db_table w)" and "64 \<le> n" and "servable req"
    and "card (dom (storage_lookup (db_table w))) < 2 ^ 64"
  shows "\<exists>w'. server_run n (serve_line i (alloc, req)) w = Some (Inr w') \<and> inst w' = inst w
    \<and> threads w' = threads w \<and> db_fits (db_table w')
    \<and> storage_lookup (db_table w') = snd (serve alloc (storage_lookup (db_table w)) (parse_request req))
    \<and> sys_log w' = sys_log w @
        [Peer (Send (fst (serve alloc (storage_lookup (db_table w)) (parse_request req)))), Peer Close]"
proof -
  obtain db where "handle_client_connection n alloc (db_table w) (Some (req @ crlf)) =
      Inr ([Send (fst (serve alloc (storage_lookup (db_table w)) (parse_request req))), Close], db)"
    "storage_lookup db = snd (serve alloc (storage_lookup (db_table w)) (parse_request req))" "db_fits db"
    using handle_line [OF assms(5,6)] assms(7,8) by (auto simp: servable_def)
  with assms show ?thesis
    by (simp add: serve_line_def acceptor_step_def log_events_def list_update_same_conv)
qed

text \<open>C3:
  A running server implements the protocol: a thread that serves one request line after another, each with its
  own outcome of \<^verbatim>\<open>calloc\<close>, answers each as the abstract server does (ERROR Memory full for a new key without
  memory) and closes its connection, and the table ends as the abstract map. The lines are \<open>servable\<close>: no NUL,
  at most 1021 bytes and CR LF, the key of a SET at most 63 bytes (values are cut to 255), and no key of a SET,
  GET or EXISTS hashes to 1000, which would fault. The table at the start holds only keys of at most 63 bytes,
  and there never are 2 to the 64 of them.
\<close>

theorem server_serves:
  assumes "inst w = Some s" and "srv_status s = SERVER_STATUS_RUNNING"
    and "i < length (threads w)" and "threads w ! i = At_Test"
    and "db_fits (db_table w)" and "64 \<le> n" and "\<forall>req \<in> snd ` set reqs. servable req"
    and "card (dom (storage_lookup (db_table w))) + length reqs < 2 ^ 64"
  shows "\<exists>w'. server_run n (concat (map (serve_line i) reqs)) w = Some (Inr w')
    \<and> storage_lookup (db_table w') = snd (serve_all (storage_lookup (db_table w)) reqs)
    \<and> sys_log w' = sys_log w @ concat (map (\<lambda>a. [Peer (Send a), Peer Close])
        (fst (serve_all (storage_lookup (db_table w)) reqs)))"
  using assms
proof (induction reqs arbitrary: w)
  case (Cons areq reqs)
  obtain alloc req where areq: "areq = (alloc, req)" by (cases areq)
  note p = Cons.prems
  have "servable req" "card (dom (storage_lookup (db_table w))) < 2 ^ 64" using p(7,8) areq by simp_all
  from serve_line_run [OF p(1-6) this, of alloc]
  obtain v where v: "server_run n (serve_line i areq) w = Some (Inr v)" "inst v = inst w"
    "threads v = threads w" "db_fits (db_table v)"
    "storage_lookup (db_table v) = snd (serve alloc (storage_lookup (db_table w)) (parse_request req))"
    "sys_log v = sys_log w @
        [Peer (Send (fst (serve alloc (storage_lookup (db_table w)) (parse_request req)))), Peer Close]"
    unfolding areq by blast
  have card: "card (dom (storage_lookup (db_table v))) + length reqs < 2 ^ 64"
    using serve_card [of alloc "storage_lookup (db_table w)" "parse_request req"] p(8) v(5) by simp
  obtain w' where w': "server_run n (concat (map (serve_line i) reqs)) v = Some (Inr w')"
    "storage_lookup (db_table w') = snd (serve_all (storage_lookup (db_table v)) reqs)"
    "sys_log w' = sys_log v @ concat (map (\<lambda>a. [Peer (Send a), Peer Close])
        (fst (serve_all (storage_lookup (db_table v)) reqs)))"
    using Cons.IH [of v] p(1-7) v(2-4) card by auto
  have "server_run n (concat (map (serve_line i) (areq # reqs))) w = Some (Inr w')"
    using v(1) w'(1) by (simp add: server_run_append)
  then show ?case using w'(2,3) v(5,6) by (auto simp: areq split: prod.split)
qed simp

lemma server_serves_witness:
  "\<exists>w'. server_run 64 (concat (map (serve_line 0)
        [(True, ''SET name kryo''), (False, ''SET k 1''), (True, ''EXISTS name'')]))
      \<lparr>inst = Some running_server, threads = [At_Test], db_table = g_storage, sys_log = []\<rparr> = Some (Inr w')
    \<and> storage_lookup (db_table w') = [''name'' \<mapsto> ''kryo'']
    \<and> sys_log w' = [Peer (Send (''OK'' @ crlf)), Peer Close, Peer (Send (''ERROR Memory full'' @ crlf)), Peer Close,
        Peer (Send (''1'' @ crlf)), Peer Close]"
proof -
  let ?w = "\<lparr>inst = Some running_server, threads = [At_Test], db_table = g_storage, sys_log = []\<rparr>"
  let ?reqs = "[(True, ''SET name kryo''), (False, ''SET k 1''), (True, ''EXISTS name'')]"
  have parse: "parse_request ''SET name kryo'' = Set ''name'' ''kryo''"
    "parse_request ''SET k 1'' = Set ''k'' ''1''" "parse_request ''EXISTS name'' = Exists ''name''"
    by (simp_all add: parse_request_def strchr_split_def)
  then have ok: "\<forall>req \<in> snd ` set ?reqs. servable req" by (simp add: servable_def hash_samples)
  have run: "inst ?w = Some running_server" "srv_status running_server = SERVER_STATUS_RUNNING"
    "0 < length (threads ?w)" "threads ?w ! 0 = At_Test" "db_fits (db_table ?w)"
    "card (dom (storage_lookup (db_table ?w))) + length ?reqs < 2 ^ 64"
    by (simp_all add: running_server_def db_fits_init)
  show ?thesis
    using server_serves [OF run(1-5) order_refl ok run(6)]
    by (simp add: parse)
qed

end
