(* ===== verification/Storage_Steps.thy ===== *)
theory Storage_Steps
  imports Server_Commands
begin

text \<open>
  The table operations of \<^verbatim>\<open>commands.c\<close> on shared memory, access by access. A server that is stopped and
  started again may have several acceptor threads, and the operations take no lock, so their accesses
  interleave.

  \<^item> A node lives at an address of the heap; a bucket head or a \<^verbatim>\<open>next\<close> field is \<open>None\<close> for NULL. Reading
    or writing a node that is not allocated is the error \<open>Freed_Node\<close>.
  \<^item> A step is one access to shared memory, and memory is sequentially consistent. A value is accessed byte
    by byte: \<open>storage_set\<close> overwrites the 256 bytes of a stored value one after the other, \<^verbatim>\<open>strncpy\<close> from
    the front and then the last byte, and a value is read up to its terminating NUL, one byte per step. Keys
    never change once a node is linked, so a comparison with one counts as one access.
  \<^item> A node that \<^verbatim>\<open>calloc\<close> has just returned is private until it is linked, so it is filled in the step that
    allocates it; the outcome of \<^verbatim>\<open>calloc\<close> is an argument.
  \<^item> \<open>storage_get\<close> returns a pointer into the node; its caller reads the value through it, in steps of its
    own. Reading past the array would be the error \<open>Past_Value\<close>.
\<close>

section \<open>Shared memory\<close>

record cell =
  cell_node :: storage_node_db
  cell_next :: "nat option"

record shared =
  sh_heads :: "nat option list"
  sh_size :: u64
  sh_heap :: "nat \<Rightarrow> cell option"

section \<open>Operations as steps\<close>

datatype table_op = Op_Set string string | Op_Get string | Op_Flush

datatype store_result = Set_Result bool | Get_Result "string option" | Flush_Result

datatype race_fault = Index_Fault nat | Freed_Node nat | Past_Value nat

text \<open>
  Where a thread is: about to read the head of its bucket, in the search loop with \<^verbatim>\<open>node\<close>, about to
  overwrite byte \<open>i\<close> of the value of the node found, to link or publish its new node, to read or write
  \<^verbatim>\<open>size\<close>, to read the next byte of the value of the node found, with those it \<open>got\<close>; in the loops of
  FLUSH about to test the bucket index, to read \<^verbatim>\<open>node->next\<close>, to free \<^verbatim>\<open>node\<close>, to clear the bucket or
  the size.
\<close>

datatype store_pc =
    Begin table_op
  | Walk table_op "nat option"
  | Write_Value string nat nat
  | Link string string nat
  | Publish string string nat
  | Read_Size
  | Write_Size u64
  | Read_Value string nat string
  | Flush_Bucket nat
  | Flush_Walk nat "nat option"
  | Flush_Free nat nat "nat option"
  | Flush_Clear nat
  | Flush_Size
  | Done store_result
  | Broken race_fault

definition with_cell :: "shared \<Rightarrow> nat \<Rightarrow> (cell \<Rightarrow> store_pc \<times> shared) \<Rightarrow> store_pc \<times> shared" where
  "with_cell m a f = (case sh_heap m a of None \<Rightarrow> (Broken (Freed_Node a), m) | Some c \<Rightarrow> f c)"

definition at_bucket :: "shared \<Rightarrow> string \<Rightarrow> (nat option \<Rightarrow> store_pc) \<Rightarrow> store_pc \<times> shared" where
  "at_bucket m key f =
     (let index = unat (hash key)
      in (if index < length (sh_heads m) then f (sh_heads m ! index) else Broken (Index_Fault index), m))"

text \<open>What \<^verbatim>\<open>strncpy(node->value, value, 255); node->value[255] = '\0';\<close> stores at each index.\<close>

definition value_byte :: "string \<Rightarrow> nat \<Rightarrow> char" where
  "value_byte val i = (if i < 255 \<and> i < length val then val ! i else NUL)"

definition put_byte :: "cell \<Rightarrow> nat \<Rightarrow> char \<Rightarrow> cell" where
  "put_byte c i ch = c\<lparr>cell_node := (cell_node c)\<lparr>node_value := (node_value (cell_node c))[i := ch]\<rparr>\<rparr>"

fun store_step :: "nat \<Rightarrow> nat option \<Rightarrow> store_pc \<Rightarrow> shared \<Rightarrow> store_pc \<times> shared" where
  "store_step n al (Begin (Op_Set key val)) m = at_bucket m key (Walk (Op_Set key val))"
| "store_step n al (Begin (Op_Get key)) m = at_bucket m key (Walk (Op_Get key))"
| "store_step n al (Begin Op_Flush) m = (Flush_Bucket 0, m)"
| "store_step n al (Walk (Op_Set key val) (Some a)) m =
     with_cell m a (\<lambda>c.
       if strcmp (cstr (node_key (cell_node c))) key = 0 then (Write_Value val a 0, m)
       else (Walk (Op_Set key val) (cell_next c), m))"
| "store_step n al (Walk (Op_Set key val) None) m =
     (case al of
        None \<Rightarrow> (Done (Set_Result False), m)
      | Some a \<Rightarrow> (Link key val a,
          m\<lparr>sh_heap := (sh_heap m)(a \<mapsto> \<lparr>cell_node = fill_node key val, cell_next = None\<rparr>)\<rparr>))"
| "store_step n al (Write_Value val a i) m =
     with_cell m a (\<lambda>c. (if i < 255 then Write_Value val a (i + 1) else Done (Set_Result True),
       m\<lparr>sh_heap := (sh_heap m)(a \<mapsto> put_byte c i (value_byte val i))\<rparr>))"
| "store_step n al (Link key val a) m =
     with_cell m a (\<lambda>c. (Publish key val a,
       m\<lparr>sh_heap := (sh_heap m)(a \<mapsto> c\<lparr>cell_next := sh_heads m ! unat (hash key)\<rparr>)\<rparr>))"
| "store_step n al (Publish key val a) m = (Read_Size, m\<lparr>sh_heads := (sh_heads m)[unat (hash key) := Some a]\<rparr>)"
| "store_step n al Read_Size m = (Write_Size (sh_size m), m)"
| "store_step n al (Write_Size s) m = (Done (Set_Result True), m\<lparr>sh_size := s + 1\<rparr>)"
| "store_step n al (Walk (Op_Get key) (Some a)) m =
     with_cell m a (\<lambda>c.
       if strncmp (cstr (node_key (cell_node c))) key n = 0 then (Read_Value key a [], m)
       else (Walk (Op_Get key) (cell_next c), m))"
| "store_step n al (Walk (Op_Get key) None) m = (Done (Get_Result None), m)"
| "store_step n al (Read_Value key a got) m =
     with_cell m a (\<lambda>c.
       let value = node_value (cell_node c); i = length got
       in (if length value \<le> i then Broken (Past_Value a)
           else if value ! i = NUL then Done (Get_Result (Some got))
           else Read_Value key a (got @ [value ! i]), m))"
| "store_step n al (Flush_Bucket i) m =
     (if i < 1000 then (Flush_Walk i (sh_heads m ! i), m) else (Flush_Size, m))"
| "store_step n al (Flush_Walk i (Some a)) m = with_cell m a (\<lambda>c. (Flush_Free i a (cell_next c), m))"
| "store_step n al (Flush_Walk i None) m = (Flush_Clear i, m)"
| "store_step n al (Flush_Free i a nx) m =
     with_cell m a (\<lambda>c. (Flush_Walk i nx, m\<lparr>sh_heap := (sh_heap m)(a := None)\<rparr>))"
| "store_step n al (Flush_Clear i) m = (Flush_Bucket (i + 1), m\<lparr>sh_heads := (sh_heads m)[i := None]\<rparr>)"
| "store_step n al Flush_Size m = (Done Flush_Result, m\<lparr>sh_size := 0\<rparr>)"
| "store_step n al pc m = (pc, m)"

text \<open>\<^verbatim>\<open>calloc\<close> returns memory that is not in use.\<close>

fun calloc_ok :: "nat option \<Rightarrow> store_pc \<Rightarrow> shared \<Rightarrow> bool" where
  "calloc_ok al (Walk (Op_Set key val) None) m = (case al of None \<Rightarrow> True | Some a \<Rightarrow> sh_heap m a = None)"
| "calloc_ok al pc m = True"

text \<open>Runs of several threads, with the threads that move, and \<open>k\<close> steps of one thread alone.\<close>

inductive race :: "nat \<Rightarrow> store_pc list \<times> shared \<Rightarrow> nat list \<Rightarrow> store_pc list \<times> shared \<Rightarrow> bool"
  for n :: nat and c0 :: "store_pc list \<times> shared" where
  race_start: "race n c0 [] c0"
| race_step: "race n c0 is (ts, m) \<Longrightarrow> i < length ts \<Longrightarrow> calloc_ok al (ts ! i) m \<Longrightarrow>
    store_step n al (ts ! i) m = (t, m') \<Longrightarrow> race n c0 (is @ [i]) (ts[i := t], m')"

inductive alone :: "nat \<Rightarrow> nat option \<Rightarrow> nat \<Rightarrow> store_pc \<times> shared \<Rightarrow> store_pc \<times> shared \<Rightarrow> bool"
  for n :: nat and al :: "nat option" where
  alone_start: "alone n al 0 c c"
| alone_step: "calloc_ok al pc m \<Longrightarrow> alone n al k (store_step n al pc m) c \<Longrightarrow> alone n al (Suc k) (pc, m) c"

lemma alone_trans: "alone n al j c c' \<Longrightarrow> alone n al k c' c'' \<Longrightarrow> alone n al (j + k) c c''"
  by (induction rule: alone.induct) (auto intro: alone.intros)

lemma alone_one: "calloc_ok al pc m \<Longrightarrow> store_step n al pc m = c \<Longrightarrow> alone n al 1 (pc, m) c"
  using alone_step [of al pc m n 0 c] alone_start [of n al c] by simp

lemma alone_two:
  assumes "calloc_ok al pc m" and "store_step n al pc m = (pc', m')" and "calloc_ok al pc' m'"
    and "store_step n al pc' m' = c"
  shows "alone n al 2 (pc, m) c"
  using alone_trans [OF alone_one [OF assms(1,2)] alone_one [OF assms(3,4)]] by (simp add: numeral_2_eq_2)

lemma race_solo:
  assumes "alone n al k (ts ! i, m) (t, m')" and "race n c0 is (ts, m)" and "i < length ts"
  shows "race n c0 (is @ replicate k i) (ts[i := t], m')"
  using assms
proof (induction k "(ts ! i, m)" "(t, m')" arbitrary: ts m "is" rule: alone.induct)
  case alone_start
  then show ?case by auto
next
  case (alone_step m k)
  obtain t1 m1 where s: "store_step n al (ts ! i) m = (t1, m1)" by fastforce
  have "race n c0 (is @ [i]) (ts[i := t1], m1)" using alone_step.prems alone_step.hyps(1) s by (auto intro: race.race_step)
  moreover have "ts[i := t1] ! i = t1" using alone_step.prems by simp
  ultimately have "race n c0 ((is @ [i]) @ replicate k i) ((ts[i := t1])[i := t], m')"
    using alone_step.hyps(3) [of "ts[i := t1]" m1 "is @ [i]"] s alone_step.prems by simp
  then show ?case by simp
qed

end
