(* ===== verification/Storage_Refine.thy ===== *)
theory Storage_Refine
  imports Storage_Steps
begin

text \<open>
  A thread that runs by itself on shared memory does what the operations on the table of lists do: \<open>represents\<close>
  relates a memory to the table it holds, and each operation of \<open>Server_Storage\<close> and FLUSH is refined by its
  steps, in a bounded number of them.
\<close>

section \<open>Tables in memory\<close>

fun chain_at :: "(nat \<Rightarrow> cell option) \<Rightarrow> nat option \<Rightarrow> nat list \<Rightarrow> bool" where
  "chain_at h p [] = (p = None)"
| "chain_at h p (a # as) = (p = Some a \<and> (\<exists>c. h a = Some c \<and> chain_at h (cell_next c) as))"

definition nodes_at :: "(nat \<Rightarrow> cell option) \<Rightarrow> nat list \<Rightarrow> storage_node_db list" where
  "nodes_at h as = map (\<lambda>a. cell_node (the (h a))) as"

text \<open>\<open>ass\<close> holds the addresses of the nodes, bucket by bucket.\<close>

definition table_at :: "shared \<Rightarrow> nat list list \<Rightarrow> storage_db \<Rightarrow> bool" where
  "table_at m ass db \<longleftrightarrow> length (sh_heads m) = 1000 \<and> length ass = 1000
     \<and> buckets db = map (nodes_at (sh_heap m)) ass \<and> db_size db = sh_size m
     \<and> (\<forall>i < 1000. chain_at (sh_heap m) (sh_heads m ! i) (ass ! i) \<and> distinct (ass ! i)
          \<and> (\<forall>j < 1000. i \<noteq> j \<longrightarrow> set (ass ! i) \<inter> set (ass ! j) = {}))"

text \<open>Every value is an array of 256 bytes whose last is NUL, which is how a node is filled and overwritten.\<close>

definition value_array :: "string \<Rightarrow> bool" where
  "value_array v \<longleftrightarrow> length v = 256 \<and> v ! 255 = NUL"

definition value_arrays :: "storage_db \<Rightarrow> bool" where
  "value_arrays db \<longleftrightarrow> (\<forall>chain \<in> set (buckets db). \<forall>nd \<in> set chain. value_array (node_value nd))"

definition represents :: "shared \<Rightarrow> storage_db \<Rightarrow> bool" where
  "represents m db \<longleftrightarrow> (\<exists>ass. table_at m ass db) \<and> value_arrays db"

definition start_memory :: shared where
  "start_memory = \<lparr>sh_heads = replicate 1000 None, sh_size = 0, sh_heap = Map.empty\<rparr>"

lemma start_memory_table: "table_at start_memory (replicate 1000 []) g_storage"
  by (simp add: table_at_def start_memory_def g_storage_def nodes_at_def map_replicate_const)

lemma value_arrays_init: "value_arrays g_storage"
  by (simp add: value_arrays_def g_storage_def)

lemma start_memory_represents: "represents start_memory g_storage"
  using start_memory_table value_arrays_init by (auto simp: represents_def)

lemma chain_allocated: "chain_at h p as \<Longrightarrow> a \<in> set as \<Longrightarrow> h a \<noteq> None"
  by (induction as arbitrary: p) auto

lemma chain_at_frame: "chain_at h p as \<Longrightarrow> (\<And>a. a \<in> set as \<Longrightarrow> h' a = h a) \<Longrightarrow> chain_at h' p as"
  by (induction as arbitrary: p) auto

lemma nodes_at_frame: "(\<And>a. a \<in> set as \<Longrightarrow> h' a = h a) \<Longrightarrow> nodes_at h' as = nodes_at h as"
  by (simp add: nodes_at_def)

lemma nodes_at_simps [simp]:
  "nodes_at h [] = []"
  "nodes_at h (a # as) = cell_node (the (h a)) # nodes_at h as"
  by (simp_all add: nodes_at_def)

text \<open>A change of node contents keeps every chain.\<close>

lemma chain_at_content:
  "chain_at h p as \<Longrightarrow> h a = Some c \<Longrightarrow> cell_next c' = cell_next c \<Longrightarrow> chain_at (h(a \<mapsto> c')) p as"
  by (induction as arbitrary: p) auto

lemma table_at_bucket: "table_at m ass db \<Longrightarrow> i < 1000 \<Longrightarrow> buckets db ! i = nodes_at (sh_heap m) (ass ! i)"
  by (simp add: table_at_def)

lemma table_at_length: "table_at m ass db \<Longrightarrow> length (buckets db) = 1000"
  by (simp add: table_at_def)

text \<open>Replacing one bucket of a table: nodes of others are left alone.\<close>

lemma table_at_update:
  assumes "table_at m ass db" and "i < 1000" and "length (sh_heads m') = 1000"
    and "\<And>j. j \<noteq> i \<Longrightarrow> sh_heads m' ! j = sh_heads m ! j"
    and "\<And>j a. j < 1000 \<Longrightarrow> j \<noteq> i \<Longrightarrow> a \<in> set (ass ! j) \<Longrightarrow> sh_heap m' a = sh_heap m a \<and> a \<notin> set as"
    and "chain_at (sh_heap m') (sh_heads m' ! i) as" and "distinct as"
  shows "table_at m' (ass[i := as]) (db\<lparr>buckets := (buckets db)[i := nodes_at (sh_heap m') as], db_size := sh_size m'\<rparr>)"
proof -
  have len: "length ass = 1000" using assms(1) by (simp add: table_at_def)
  have frame: "nodes_at (sh_heap m') (ass ! j) = nodes_at (sh_heap m) (ass ! j)" if "j < 1000" "j \<noteq> i" for j
    by (rule nodes_at_frame) (use assms(5) that in blast)
  have "(buckets db)[i := nodes_at (sh_heap m') as] = map (nodes_at (sh_heap m')) (ass[i := as])"
    by (rule nth_equalityI) (use assms(1,2) len frame in \<open>auto simp: table_at_def nth_list_update\<close>)
  moreover have "chain_at (sh_heap m') (sh_heads m' ! j) (ass ! j)" if "j < 1000" "j \<noteq> i" for j
  proof -
    have "chain_at (sh_heap m) (sh_heads m ! j) (ass ! j)" using assms(1) that by (simp add: table_at_def)
    then have "chain_at (sh_heap m') (sh_heads m ! j) (ass ! j)"
      by (rule chain_at_frame) (use assms(5) that in blast)
    then show ?thesis using assms(4) that by simp
  qed
  moreover have "set as \<inter> set (ass ! j) = {}" if "j < 1000" "j \<noteq> i" for j using assms(5) that by blast
  ultimately show ?thesis
    using assms(1-3,6,7) len by (auto simp: table_at_def nth_list_update)
qed

section \<open>Values, byte by byte\<close>

abbreviation with_value :: "cell \<Rightarrow> string \<Rightarrow> cell" where
  "with_value c v \<equiv> c\<lparr>cell_node := (cell_node c)\<lparr>node_value := v\<rparr>\<rparr>"

lemma put_byte_value: "put_byte c i ch = with_value c ((node_value (cell_node c))[i := ch])"
  by (simp add: put_byte_def)

text \<open>A value of which the first \<open>k\<close> bytes are overwritten.\<close>

definition overwritten :: "string \<Rightarrow> nat \<Rightarrow> string \<Rightarrow> string" where
  "overwritten val k old = map (value_byte val) [0..<k] @ drop k old"

lemma overwritten_0 [simp]: "overwritten val 0 old = old"
  by (simp add: overwritten_def)

lemma overwritten_Suc: "k < length old \<Longrightarrow> (overwritten val k old)[k := value_byte val k] = overwritten val (Suc k) old"
  by (simp add: overwritten_def list_update_append upd_conv_take_nth_drop Cons_nth_drop_Suc [symmetric])

lemma overwritten_all: "length old = 256 \<Longrightarrow> overwritten val 256 old = copy_field 256 old val"
  by (rule nth_equalityI)
    (auto simp: overwritten_def copy_field_def strncpy_def value_byte_def nth_append nth_list_update min_def)

lemma copy_field_last: "length old = 256 \<Longrightarrow> copy_field 256 old val ! 255 = NUL"
  by (simp add: copy_field_def strncpy_def)

lemma copy_field_array: "length old = 256 \<Longrightarrow> value_array (copy_field 256 old val)"
  by (simp add: value_array_def copy_field_last)

lemma fill_node_byte: "j < 256 \<Longrightarrow> node_value (fill_node key val) ! j = value_byte val j"
  by (auto simp: fill_node_def calloc_node_def copy_field_def strncpy_def value_byte_def nth_append nth_list_update min_def)

lemma alone_write_from:
  assumes "sh_heap m a = Some c" and "length (node_value (cell_node c)) = 256" and "i + k \<le> 256"
  shows "alone n al k (if i < 256 then Write_Value val a i else Done (Set_Result True),
      m\<lparr>sh_heap := (sh_heap m)(a \<mapsto> with_value c (overwritten val i (node_value (cell_node c))))\<rparr>)
    (if i + k < 256 then Write_Value val a (i + k) else Done (Set_Result True),
      m\<lparr>sh_heap := (sh_heap m)(a \<mapsto> with_value c (overwritten val (i + k) (node_value (cell_node c))))\<rparr>)"
  using assms(3)
proof (induction k)
  case 0
  show ?case unfolding add_0_right by (rule alone_start)
next
  case (Suc k)
  let ?m = "\<lambda>k. m\<lparr>sh_heap := (sh_heap m)(a \<mapsto> with_value c (overwritten val k (node_value (cell_node c))))\<rparr>"
  let ?pc = "\<lambda>k. if k < 256 then Write_Value val a k else Done (Set_Result True)"
  have "store_step n al (?pc j) (?m j) = (?pc (Suc j), ?m (Suc j))" if "j < 256" for j
    using that assms(2) by (simp add: with_cell_def put_byte_value overwritten_Suc)
  with Suc.prems have "alone n al 1 (?pc (i + k), ?m (i + k)) (?pc (Suc (i + k)), ?m (Suc (i + k)))"
    by (intro alone_one) simp_all
  note one = this
  have "alone n al k (?pc i, ?m i) (?pc (i + k), ?m (i + k))" by (rule Suc.IH) (use Suc.prems in simp)
  from alone_trans [OF this one] show ?case by (simp only: Suc_eq_plus1 add.assoc)
qed

lemma alone_write:
  assumes "sh_heap m a = Some c" and "length (node_value (cell_node c)) = 256" and "k \<le> 256"
  shows "alone n al k (Write_Value val a 0, m) (if k < 256 then Write_Value val a k else Done (Set_Result True),
    m\<lparr>sh_heap := (sh_heap m)(a \<mapsto> with_value c (overwritten val k (node_value (cell_node c))))\<rparr>)"
proof -
  have eq: "m\<lparr>sh_heap := (sh_heap m)(a \<mapsto> with_value c (overwritten val 0 (node_value (cell_node c))))\<rparr> = m"
    using fun_upd_triv [of "sh_heap m" a] assms(1) by simp
  from alone_write_from [OF assms(1,2), of 0 k n al val] assms(3) show ?thesis
    by (simp only: eq add_0 zero_less_numeral if_True simp_thms)
qed

lemma cstr_array: "value_array v \<Longrightarrow> length (cstr v) \<le> 255 \<and> v ! length (cstr v) = NUL"
proof -
  assume v: "value_array v"
  then have "NUL \<in> set v" using nth_mem [of 255 v] by (simp add: value_array_def)
  from length_cstr_terminated [OF this] have len: "length (cstr v) < length v" .
  then have "\<not> v ! length (cstr v) \<noteq> NUL" unfolding cstr_def by (rule nth_length_takeWhile)
  then show ?thesis using v len by (simp add: value_array_def)
qed

lemma alone_read:
  assumes "sh_heap m a = Some c" and "value_array (node_value (cell_node c))"
  shows "alone n al (length (cstr (node_value (cell_node c))) + 1) (Read_Value key a [], m)
    (Done (Get_Result (Some (cstr (node_value (cell_node c))))), m)"
proof -
  let ?v = "node_value (cell_node c)"
  note v = cstr_array [OF assms(2)]
  have len: "length ?v = 256" using assms(2) by (simp add: value_array_def)
  have "alone n al k (Read_Value key a [], m) (Read_Value key a (take k (cstr ?v)), m)" if "k \<le> length (cstr ?v)" for k
    using that
  proof (induction k)
    case 0
    then show ?case by (simp add: alone_start)
  next
    case (Suc k)
    have k: "k < length (cstr ?v)" using Suc.prems by simp
    then have "cstr ?v ! k = ?v ! k" unfolding cstr_def by (rule takeWhile_nth)
    moreover have "cstr ?v ! k \<noteq> NUL" using nth_mem [OF k] unfolding cstr_def by (blast dest: set_takeWhileD)
    ultimately have "store_step n al (Read_Value key a (take k (cstr ?v))) m = (Read_Value key a (take (Suc k) (cstr ?v)), m)"
      using k v len assms(1) by (simp add: with_cell_def Let_def take_Suc_conv_app_nth)
    then have "alone n al 1 (Read_Value key a (take k (cstr ?v)), m) (Read_Value key a (take (Suc k) (cstr ?v)), m)"
      by (intro alone_one) simp_all
    moreover have "alone n al k (Read_Value key a [], m) (Read_Value key a (take k (cstr ?v)), m)"
      using Suc.IH k by simp
    ultimately show ?case using alone_trans by (metis Suc_eq_plus1)
  qed
  from this [of "length (cstr ?v)"]
  have "alone n al (length (cstr ?v)) (Read_Value key a [], m) (Read_Value key a (cstr ?v), m)" by simp
  moreover have "alone n al 1 (Read_Value key a (cstr ?v), m) (Done (Get_Result (Some (cstr ?v))), m)"
    by (rule alone_one) (use v len assms(1) in \<open>simp_all add: with_cell_def Let_def\<close>)
  ultimately show ?thesis by (rule alone_trans)
qed

section \<open>The search loops\<close>

abbreviation key_at :: "(nat \<Rightarrow> cell option) \<Rightarrow> nat \<Rightarrow> string" where
  "key_at h a \<equiv> cstr (node_key (cell_node (the (h a))))"

lemma alone_walk_set_None:
  assumes "chain_at (sh_heap m) p as" and "set_in_chain (nodes_at (sh_heap m) as) key val = None"
  shows "alone n al (length as) (Walk (Op_Set key val) p, m) (Walk (Op_Set key val) None, m)"
  using assms
proof (induction as arbitrary: p)
  case (Cons a as)
  then obtain c where c: "p = Some a" "sh_heap m a = Some c" "chain_at (sh_heap m) (cell_next c) as" by auto
  have "set_in_chain (nodes_at (sh_heap m) as) key val = None" "strcmp (cstr (node_key (cell_node c))) key \<noteq> 0"
    using Cons.prems(2) c(2) by (auto split: if_splits)
  with Cons.IH [OF c(3)] c show ?case by (auto intro!: alone_step simp: with_cell_def)
qed (simp add: alone_start)

text \<open>The search of \<open>storage_set\<close> ends at the node whose value it overwrites.\<close>

lemma alone_walk_set_Some:
  assumes "chain_at (sh_heap m) p as" and "set_in_chain (nodes_at (sh_heap m) as) key val = Some chain"
    and "distinct as"
  shows "\<exists>k a c. k \<le> length as \<and> find (\<lambda>a. key_at (sh_heap m) a = key) as = Some a \<and> a \<in> set as \<and> sh_heap m a = Some c
    \<and> alone n al k (Walk (Op_Set key val) p, m) (Write_Value val a 0, m)
    \<and> nodes_at ((sh_heap m)(a \<mapsto> with_value c (copy_field 256 (node_value (cell_node c)) val))) as = chain"
  using assms
proof (induction as arbitrary: p chain)
  case (Cons a as)
  then obtain c where c: "p = Some a" "sh_heap m a = Some c" "chain_at (sh_heap m) (cell_next c) as" by auto
  show ?case
  proof (cases "strcmp (cstr (node_key (cell_node c))) key = 0")
    case True
    let ?c' = "with_value c (copy_field 256 (node_value (cell_node c)) val)"
    have "nodes_at ((sh_heap m)(a \<mapsto> ?c')) as = nodes_at (sh_heap m) as"
      by (rule nodes_at_frame) (use Cons.prems(3) in auto)
    then have "nodes_at ((sh_heap m)(a \<mapsto> ?c')) (a # as) = chain"
      using Cons.prems(2) c(2) True by auto
    moreover have "alone n al 1 (Walk (Op_Set key val) p, m) (Write_Value val a 0, m)"
      by (rule alone_one) (use True in \<open>simp_all add: c with_cell_def\<close>)
    ultimately have "1 \<le> length (a # as) \<and> find (\<lambda>a. key_at (sh_heap m) a = key) (a # as) = Some a \<and> a \<in> set (a # as)
        \<and> sh_heap m a = Some c \<and> alone n al 1 (Walk (Op_Set key val) p, m) (Write_Value val a 0, m)
        \<and> nodes_at ((sh_heap m)(a \<mapsto> ?c')) (a # as) = chain"
      using c(2) True by simp
    then show ?thesis by blast
  next
    case False
    then obtain rest where rest: "set_in_chain (nodes_at (sh_heap m) as) key val = Some rest"
      "chain = cell_node c # rest"
      using Cons.prems(2) c(2) by auto
    have "distinct as" using Cons.prems(3) by simp
    from Cons.IH [OF c(3) rest(1) this] obtain k b d where b: "k \<le> length as"
      "find (\<lambda>a. key_at (sh_heap m) a = key) as = Some b" "b \<in> set as" "sh_heap m b = Some d"
      "alone n al k (Walk (Op_Set key val) (cell_next c), m) (Write_Value val b 0, m)"
      "nodes_at ((sh_heap m)(b \<mapsto> with_value d (copy_field 256 (node_value (cell_node d)) val))) as = rest"
      by blast
    have "alone n al (Suc k) (Walk (Op_Set key val) p, m) (Write_Value val b 0, m)"
      by (rule alone_step) (use b(5) c False in \<open>simp_all add: with_cell_def\<close>)
    moreover have "nodes_at ((sh_heap m)(b \<mapsto> with_value d (copy_field 256 (node_value (cell_node d)) val))) (a # as) = chain"
      using b(3,6) c(2) rest(2) Cons.prems(3) by auto
    moreover have "find (\<lambda>a. key_at (sh_heap m) a = key) (a # as) = Some b" using False b(2) c(2) by simp
    ultimately show ?thesis
      using b(1,3,4) by (metis Suc_le_mono length_Cons list.set_intros(2))
  qed
qed simp

text \<open>The search of \<open>storage_get\<close> ends at the node whose value it returns.\<close>

lemma alone_walk_get:
  assumes "chain_at (sh_heap m) p as"
  shows "case get_in_chain n (nodes_at (sh_heap m) as) key of
      None \<Rightarrow> alone n al (Suc (length as)) (Walk (Op_Get key) p, m) (Done (Get_Result None), m)
    | Some v \<Rightarrow> \<exists>k a c. k \<le> length as \<and> find (\<lambda>a. take n (key_at (sh_heap m) a) = take n key) as = Some a
        \<and> a \<in> set as \<and> sh_heap m a = Some c \<and> v = cstr (node_value (cell_node c))
        \<and> alone n al k (Walk (Op_Get key) p, m) (Read_Value key a [], m)"
  using assms
proof (induction as arbitrary: p)
  case Nil
  then show ?case by (auto intro!: alone_one [unfolded One_nat_def])
next
  case (Cons a as)
  then obtain c where c: "p = Some a" "sh_heap m a = Some c" "chain_at (sh_heap m) (cell_next c) as" by auto
  show ?case
  proof (cases "strncmp (cstr (node_key (cell_node c))) key n = 0")
    case True
    have "alone n al 1 (Walk (Op_Get key) p, m) (Read_Value key a [], m)"
      by (rule alone_one) (use True in \<open>simp_all add: c with_cell_def\<close>)
    then have "1 \<le> length (a # as) \<and> find (\<lambda>a. take n (key_at (sh_heap m) a) = take n key) (a # as) = Some a \<and> a \<in> set (a # as) \<and> sh_heap m a = Some c
        \<and> alone n al 1 (Walk (Op_Get key) p, m) (Read_Value key a [], m)"
      using c(2) True by simp
    moreover have "get_in_chain n (nodes_at (sh_heap m) (a # as)) key = Some (cstr (node_value (cell_node c)))"
      using c(2) True by simp
    ultimately show ?thesis by (simp only: option.case) blast
  next
    case False
    then have next_step: "alone n al (Suc k) (Walk (Op_Get key) p, m) d" if "alone n al k (Walk (Op_Get key) (cell_next c), m) d"
      for k d
      using that c by (intro alone_step) (simp_all add: with_cell_def)
    have same: "get_in_chain n (nodes_at (sh_heap m) (a # as)) key = get_in_chain n (nodes_at (sh_heap m) as) key"
      using False c(2) by simp
    show ?thesis
    proof (cases "get_in_chain n (nodes_at (sh_heap m) as) key")
      case None
      with Cons.IH [OF c(3)] have "alone n al (Suc (length as)) (Walk (Op_Get key) (cell_next c), m) (Done (Get_Result None), m)"
        by (simp only: option.case)
      then show ?thesis unfolding same None option.case list.size(4) add_Suc_right add_0_right by (rule next_step)
    next
      case (Some v)
      with Cons.IH [OF c(3)] obtain k b d where "k \<le> length as"
        "find (\<lambda>a. take n (key_at (sh_heap m) a) = take n key) as = Some b" "b \<in> set as" "sh_heap m b = Some d"
        "v = cstr (node_value (cell_node d))" "alone n al k (Walk (Op_Get key) (cell_next c), m) (Read_Value key b [], m)"
        by auto
      then have "Suc k \<le> length (a # as) \<and> find (\<lambda>a. take n (key_at (sh_heap m) a) = take n key) (a # as) = Some b \<and> b \<in> set (a # as) \<and> sh_heap m b = Some d
          \<and> v = cstr (node_value (cell_node d)) \<and> alone n al (Suc k) (Walk (Op_Get key) p, m) (Read_Value key b [], m)"
        using next_step False c(2) by simp
      then show ?thesis unfolding same Some option.case by blast
    qed
  qed
qed

section \<open>Flushing\<close>

definition free_all :: "nat list \<Rightarrow> (nat \<Rightarrow> cell option) \<Rightarrow> nat \<Rightarrow> cell option" where
  "free_all as h = (\<lambda>a. if a \<in> set as then None else h a)"

lemma alone_flush_chain:
  assumes "chain_at (sh_heap m) p as" and "distinct as"
  shows "alone n al (2 * length as) (Flush_Walk i p, m) (Flush_Walk i None, m\<lparr>sh_heap := free_all as (sh_heap m)\<rparr>)"
  using assms
proof (induction as arbitrary: p m)
  case Nil
  then show ?case by (simp add: free_all_def alone_start)
next
  case (Cons a as)
  then obtain c where c: "p = Some a" "sh_heap m a = Some c" "chain_at (sh_heap m) (cell_next c) as" by auto
  let ?m = "m\<lparr>sh_heap := (sh_heap m)(a := None)\<rparr>"
  have "chain_at (sh_heap ?m) (cell_next c) as"
    using c(3) by (rule chain_at_frame) (use Cons.prems(2) in auto)
  moreover have "distinct as" using Cons.prems(2) by simp
  ultimately have "alone n al (2 * length as) (Flush_Walk i (cell_next c), ?m)
      (Flush_Walk i None, ?m\<lparr>sh_heap := free_all as (sh_heap ?m)\<rparr>)" by (rule Cons.IH)
  moreover have "free_all as (sh_heap ?m) = free_all (a # as) (sh_heap m)" by (auto simp: free_all_def fun_eq_iff)
  ultimately have rest: "alone n al (2 * length as) (Flush_Walk i (cell_next c), ?m)
      (Flush_Walk i None, m\<lparr>sh_heap := free_all (a # as) (sh_heap m)\<rparr>)" by (simp del: fun_upd_apply)
  have "alone n al 2 (Flush_Walk i p, m) (Flush_Walk i (cell_next c), ?m)"
    by (rule alone_two) (simp add: c, simp add: c with_cell_def, simp, simp add: c with_cell_def)
  from alone_trans [OF this rest] show ?case by (simp add: algebra_simps)
qed

definition flush_steps :: "nat list list \<Rightarrow> nat" where
  "flush_steps ass = sum_list (map (\<lambda>as. 2 * length as + 3) ass)"

text \<open>The loop over the buckets from \<open>i\<close> on.\<close>

lemma alone_flush_buckets:
  assumes "length (sh_heads m) = 1000" and "i + length ass = 1000"
    and "\<And>j. j < length ass \<Longrightarrow> chain_at (sh_heap m) (sh_heads m ! (i + j)) (ass ! j) \<and> distinct (ass ! j)"
    and "\<And>j k. j < length ass \<Longrightarrow> k < length ass \<Longrightarrow> j \<noteq> k \<Longrightarrow> set (ass ! j) \<inter> set (ass ! k) = {}"
  shows "alone n al (flush_steps ass) (Flush_Bucket i, m)
    (Flush_Bucket 1000, m\<lparr>sh_heads := take i (sh_heads m) @ replicate (length ass) None, sh_heap := free_all (concat ass) (sh_heap m)\<rparr>)"
  using assms
proof (induction ass arbitrary: i m)
  case Nil
  then show ?case by (simp add: flush_steps_def free_all_def alone_start)
next
  case (Cons as ass)
  have i: "i < 1000" using Cons.prems(2) by simp
  let ?m1 = "m\<lparr>sh_heap := free_all as (sh_heap m)\<rparr>"
  let ?m2 = "?m1\<lparr>sh_heads := (sh_heads m)[i := None]\<rparr>"
  have "chain_at (sh_heap m) (sh_heads m ! i) as" "distinct as" using Cons.prems(3) [of 0] by simp_all
  then have "alone n al (2 * length as) (Flush_Walk i (sh_heads m ! i), m) (Flush_Walk i None, ?m1)"
    by (rule alone_flush_chain)
  then have 1: "alone n al (Suc (2 * length as)) (Flush_Bucket i, m) (Flush_Walk i None, ?m1)"
    by (intro alone_step) (simp_all add: i)
  have "alone n al 2 (Flush_Walk i None, ?m1) (Flush_Bucket (Suc i), ?m2)"
    by (rule alone_two) (simp, simp, simp, simp)
  from alone_trans [OF 1 this]
  have head: "alone n al (2 * length as + 3) (Flush_Bucket i, m) (Flush_Bucket (Suc i), ?m2)"
    by (simp add: numeral_3_eq_3 numeral_2_eq_2)
  have IH: "alone n al (flush_steps ass) (Flush_Bucket (Suc i), ?m2)
      (Flush_Bucket 1000, ?m2\<lparr>sh_heads := take (Suc i) (sh_heads ?m2) @ replicate (length ass) None,
         sh_heap := free_all (concat ass) (sh_heap ?m2)\<rparr>)"
  proof (rule Cons.IH)
    show "length (sh_heads ?m2) = 1000" "Suc i + length ass = 1000" using Cons.prems(1,2) by simp_all
    show "chain_at (sh_heap ?m2) (sh_heads ?m2 ! (Suc i + j)) (ass ! j) \<and> distinct (ass ! j)" if j: "j < length ass" for j
    proof -
      have old: "chain_at (sh_heap m) (sh_heads m ! (i + Suc j)) (ass ! j)" "distinct (ass ! j)"
        using Cons.prems(3) [of "Suc j"] j by simp_all
      have "set as \<inter> set (ass ! j) = {}" using Cons.prems(4) [of 0 "Suc j"] j by simp
      then have "chain_at (sh_heap ?m2) (sh_heads m ! (i + Suc j)) (ass ! j)"
        by (intro chain_at_frame [OF old(1)]) (auto simp: free_all_def)
      then show ?thesis using old(2) by simp
    qed
    show "set (ass ! j) \<inter> set (ass ! k) = {}" if "j < length ass" "k < length ass" "j \<noteq> k" for j k
      using Cons.prems(4) [of "Suc j" "Suc k"] that by simp
  qed
  have "take (Suc i) ((sh_heads m)[i := None]) = take i (sh_heads m) @ [None]"
    using i Cons.prems(1) by (simp add: take_Suc_conv_app_nth)
  moreover have "free_all (concat ass) (free_all as (sh_heap m)) = free_all (concat (as # ass)) (sh_heap m)"
    by (auto simp: free_all_def fun_eq_iff)
  ultimately have "?m2\<lparr>sh_heads := take (Suc i) (sh_heads ?m2) @ replicate (length ass) None,
         sh_heap := free_all (concat ass) (sh_heap ?m2)\<rparr>
      = m\<lparr>sh_heads := take i (sh_heads m) @ replicate (length (as # ass)) None, sh_heap := free_all (concat (as # ass)) (sh_heap m)\<rparr>"
    by simp
  moreover have "flush_steps (as # ass) = (2 * length as + 3) + flush_steps ass" by (simp add: flush_steps_def)
  ultimately show ?case using alone_trans [OF head IH] by (simp only:)
qed

lemma flush_steps_nodes: "flush_steps ass = 2 * length (concat ass) + 3 * length ass"
  by (induction ass) (simp_all add: flush_steps_def)

lemma alone_flush:
  assumes "table_at m ass db"
  shows "\<exists>k m'. k \<le> 2 * length (concat ass) + 3003 \<and> alone n al k (Begin Op_Flush, m) (Done Flush_Result, m')
    \<and> sh_heap m' = free_all (concat ass) (sh_heap m) \<and> table_at m' (replicate 1000 []) (flush_buckets db)"
proof -
  let ?m = "m\<lparr>sh_heads := replicate 1000 None, sh_heap := free_all (concat ass) (sh_heap m)\<rparr>"
  let ?m' = "?m\<lparr>sh_size := 0\<rparr>"
  have t: "length (sh_heads m) = 1000" "length ass = 1000" using assms by (simp_all add: table_at_def)
  have "alone n al (flush_steps ass) (Flush_Bucket 0, m)
      (Flush_Bucket 1000, m\<lparr>sh_heads := take 0 (sh_heads m) @ replicate (length ass) None, sh_heap := free_all (concat ass) (sh_heap m)\<rparr>)"
    by (rule alone_flush_buckets) (use assms t in \<open>simp_all add: table_at_def\<close>)
  then have loop: "alone n al (flush_steps ass) (Flush_Bucket 0, m) (Flush_Bucket 1000, ?m)" by (simp add: t(2))
  have "alone n al 2 (Flush_Bucket 1000, ?m) (Done Flush_Result, ?m')"
    by (rule alone_two) (simp, simp, simp, simp)
  from alone_trans [OF loop this] have "alone n al (Suc (flush_steps ass + 2)) (Begin Op_Flush, m) (Done Flush_Result, ?m')"
    by (intro alone_step) simp_all
  moreover have "table_at ?m' (replicate 1000 []) (flush_buckets db)"
    using table_at_length [OF assms]
    by (simp add: flush_buckets_init table_at_def g_storage_def nodes_at_def map_replicate_const)
  ultimately show ?thesis
    using t by (intro exI [of _ "Suc (flush_steps ass + 2)"] exI [of _ ?m']) (simp add: flush_steps_nodes)
qed

section \<open>One operation alone\<close>

text \<open>What the operations on the table of lists give.\<close>

fun op_result :: "nat \<Rightarrow> bool \<Rightarrow> storage_db \<Rightarrow> table_op \<Rightarrow> storage_fault + store_result \<times> storage_db" where
  "op_result n alloc_ok db (Op_Set key val) =
     bindR (storage_set alloc_ok db key val) (\<lambda>(stored, db'). Inr (Set_Result stored, db'))"
| "op_result n alloc_ok db (Op_Get key) = bindR (storage_get n db key) (\<lambda>r. Inr (Get_Result r, db))"
| "op_result n alloc_ok db Op_Flush = Inr (Flush_Result, flush_buckets db)"

text \<open>A new node, linked to its bucket, published and counted.\<close>

lemma alone_insert:
  assumes "table_at m ass db" and "unat (hash key) < 1000" and "sh_heap m a = None"
  shows "alone n (Some a) 2 (Walk (Op_Set key val) None, m) (Publish key val a, m\<lparr>sh_heap := (sh_heap m)(a \<mapsto>
      \<lparr>cell_node = fill_node key val, cell_next = sh_heads m ! unat (hash key)\<rparr>)\<rparr>)"
  by (rule alone_two) (use assms(3) in simp, simp, simp, simp add: with_cell_def)

lemma table_at_insert:
  assumes "table_at m ass db" and "i < 1000" and "sh_heap m a = None"
  shows "table_at (m\<lparr>sh_heap := (sh_heap m)(a \<mapsto> \<lparr>cell_node = nd, cell_next = sh_heads m ! i\<rparr>),
        sh_heads := (sh_heads m)[i := Some a], sh_size := s\<rparr>)
      (ass[i := a # ass ! i]) (db\<lparr>buckets := (buckets db)[i := nd # buckets db ! i], db_size := s\<rparr>)"
proof -
  let ?c = "\<lparr>cell_node = nd, cell_next = sh_heads m ! i\<rparr>"
  let ?m = "m\<lparr>sh_heap := (sh_heap m)(a \<mapsto> ?c), sh_heads := (sh_heads m)[i := Some a], sh_size := s\<rparr>"
  have chains: "chain_at (sh_heap m) (sh_heads m ! j) (ass ! j)" "distinct (ass ! j)" if "j < 1000" for j
    using assms(1) that by (simp_all add: table_at_def)
  then have free: "a \<notin> set (ass ! j)" if "j < 1000" for j
    using chain_allocated [of "sh_heap m" _ "ass ! j" a] assms(3) that by blast
  have disj: "set (ass ! i) \<inter> set (ass ! j) = {}" if "j < 1000" "j \<noteq> i" for j
    using assms(1,2) that by (simp add: table_at_def)
  have "nodes_at (sh_heap ?m) (ass ! i) = buckets db ! i"
    unfolding table_at_bucket [OF assms(1,2)] by (rule nodes_at_frame) (use free assms(2) in auto)
  moreover have "table_at ?m (ass[i := a # ass ! i])
      (db\<lparr>buckets := (buckets db)[i := nodes_at (sh_heap ?m) (a # ass ! i)], db_size := sh_size ?m\<rparr>)"
  proof (rule table_at_update [OF assms(1,2)])
    show "length (sh_heads ?m) = 1000" using assms(1) by (simp add: table_at_def)
    show "sh_heads ?m ! j = sh_heads m ! j" if "j \<noteq> i" for j using that by simp
    show "sh_heap ?m b = sh_heap m b \<and> b \<notin> set (a # ass ! i)" if "j < 1000" "j \<noteq> i" "b \<in> set (ass ! j)" for j b
      using that free [of j] disj [of j] by auto
    have "chain_at (sh_heap ?m) (sh_heads m ! i) (ass ! i)"
      using chains(1) [OF assms(2)] by (rule chain_at_frame) (use free assms(2) in auto)
    then show "chain_at (sh_heap ?m) (sh_heads ?m ! i) (a # ass ! i)"
      using assms(1,2) by (simp add: table_at_def)
    show "distinct (a # ass ! i)" using free chains assms(2) by simp
  qed
  ultimately show ?thesis by simp
qed

text \<open>An address is free, or \<^verbatim>\<open>calloc\<close> fails.\<close>

definition fresh_address :: "nat option \<Rightarrow> shared \<Rightarrow> bool" where
  "fresh_address al m = (case al of None \<Rightarrow> True | Some a \<Rightarrow> sh_heap m a = None)"

fun op_key :: "table_op \<Rightarrow> string option" where
  "op_key (Op_Set key val) = Some key"
| "op_key (Op_Get key) = Some key"
| "op_key Op_Flush = None"

lemma table_at_nodes:
  assumes "table_at m ass db"
  shows "node_count db = length (concat ass)" and "i < 1000 \<Longrightarrow> length (ass ! i) \<le> length (concat ass)"
proof -
  show "node_count db = length (concat ass)"
    using assms by (simp add: table_at_def node_count_def nodes_at_def length_concat o_def)
  assume "i < 1000"
  then have "length (ass ! i) \<in> set (map length ass)" using assms by (simp add: table_at_def)
  then show "length (ass ! i) \<le> length (concat ass)" by (simp add: length_concat member_le_sum_list)
qed

lemma begin_at_bucket:
  assumes "table_at m ass db" and "op_key op = Some key"
  shows "store_step n al (Begin op) m =
    (if unat (hash key) < 1000 then Walk op (sh_heads m ! unat (hash key)) else Broken (Index_Fault (unat (hash key))), m)"
  using assms by (cases op) (auto simp: at_bucket_def table_at_def Let_def)

lemma alone_begin:
  assumes "table_at m ass db" and "op_key op = Some key" and "unat (hash key) < 1000"
    and "alone n al k (Walk op (sh_heads m ! unat (hash key)), m) c"
  shows "alone n al (Suc k) (Begin op, m) c"
  by (rule alone_step) (use assms begin_at_bucket [OF assms(1,2), of n al] in simp_all)

text \<open>A set of a new key up to the point where its node is published, and to its end.\<close>

lemma alone_publish:
  assumes t: "table_at m ass db" and ix: "unat (hash key) < 1000" and free: "sh_heap m a = None"
    and new: "set_in_chain (buckets db ! unat (hash key)) key val = None"
  shows "alone n (Some a) (length (ass ! unat (hash key)) + 3) (Begin (Op_Set key val), m) (Publish key val a,
    m\<lparr>sh_heap := (sh_heap m)(a \<mapsto> \<lparr>cell_node = fill_node key val, cell_next = sh_heads m ! unat (hash key)\<rparr>)\<rparr>)"
proof -
  have "chain_at (sh_heap m) (sh_heads m ! unat (hash key)) (ass ! unat (hash key))" using t ix by (simp add: table_at_def)
  moreover have "set_in_chain (nodes_at (sh_heap m) (ass ! unat (hash key))) key val = None"
    using new table_at_bucket [OF t ix] by simp
  ultimately have "alone n (Some a) (length (ass ! unat (hash key)))
      (Walk (Op_Set key val) (sh_heads m ! unat (hash key)), m) (Walk (Op_Set key val) None, m)"
    by (rule alone_walk_set_None)
  from alone_begin [OF t _ ix alone_trans [OF this alone_insert [OF t ix free]]] show ?thesis
    by (simp add: numeral_3_eq_3 numeral_2_eq_2)
qed

lemma alone_published:
  "alone n al 3 (Publish key val a, m) (Done (Set_Result True),
     m\<lparr>sh_heads := (sh_heads m)[unat (hash key) := Some a], sh_size := sh_size m + 1\<rparr>)"
proof -
  let ?m = "m\<lparr>sh_heads := (sh_heads m)[unat (hash key) := Some a]\<rparr>"
  have "alone n al 2 (Publish key val a, m) (Write_Size (sh_size m), ?m)"
    by (rule alone_two) (simp, simp, simp, simp)
  moreover have "alone n al 1 (Write_Size (sh_size m), ?m) (Done (Set_Result True), ?m\<lparr>sh_size := sh_size m + 1\<rparr>)"
    by (rule alone_one) simp_all
  ultimately have "alone n al (2 + 1) (Publish key val a, m) (Done (Set_Result True), ?m\<lparr>sh_size := sh_size m + 1\<rparr>)"
    by (rule alone_trans)
  then show ?thesis by (simp add: numeral_3_eq_3 numeral_2_eq_2)
qed

lemma set_in_chain_arrays:
  "set_in_chain chain key val = Some chain' \<Longrightarrow> \<forall>nd \<in> set chain. value_array (node_value nd) \<Longrightarrow>
    \<forall>nd \<in> set chain'. value_array (node_value nd)"
  by (induction chain arbitrary: chain') (auto split: if_splits simp: value_array_def copy_field_last [unfolded One_nat_def])

lemma fill_node_array: "value_array (node_value (fill_node key val))"
  by (simp add: fill_node_def calloc_node_def copy_field_array)

lemma storage_set_arrays:
  assumes "storage_set alloc db key val = Inr (b, db')" and "value_arrays db"
  shows "value_arrays db'"
  using assms(1)
proof (cases rule: storage_set_cases)
  case (replaced chain')
  have "\<forall>nd \<in> set (buckets db ! unat (hash key)). value_array (node_value nd)"
    using assms(2) nth_mem [OF replaced(1)] unfolding value_arrays_def by blast
  from set_in_chain_arrays [OF replaced(3) this] have "\<forall>nd \<in> set chain'. value_array (node_value nd)" .
  then show ?thesis
    using assms(2) replaced(4) by (auto simp: value_arrays_def dest!: subsetD [OF set_update_subset_insert])
next
  case added
  have "\<forall>nd \<in> set (buckets db ! unat (hash key)). value_array (node_value nd)"
    using assms(2) nth_mem [OF added(1)] unfolding value_arrays_def by blast
  then show ?thesis
    using added(5) assms(2) fill_node_array
    by (auto simp: value_arrays_def dest!: subsetD [OF set_update_subset_insert])
qed (use assms(2) in simp)

lemma table_node_array:
  assumes "table_at m ass db" and "value_arrays db" and "i < 1000" and "a \<in> set (ass ! i)" and "sh_heap m a = Some c"
  shows "value_array (node_value (cell_node c))"
proof -
  have "cell_node c \<in> set (buckets db ! i)"
    using assms(4,5) table_at_bucket [OF assms(1,3)] by (force simp: nodes_at_def)
  moreover have "buckets db ! i \<in> set (buckets db)" using table_at_length [OF assms(1)] assms(3) by simp
  ultimately show ?thesis using assms(2) by (auto simp: value_arrays_def)
qed

lemma table_at_overwrite:
  assumes t: "table_at m ass db" and i: "i < 1000" and a: "a \<in> set (ass ! i)" and c: "sh_heap m a = Some c"
  shows "table_at (m\<lparr>sh_heap := (sh_heap m)(a \<mapsto> with_value c v)\<rparr>) ass
    (db\<lparr>buckets := (buckets db)[i := nodes_at ((sh_heap m)(a \<mapsto> with_value c v)) (ass ! i)]\<rparr>)"
proof -
  let ?m = "m\<lparr>sh_heap := (sh_heap m)(a \<mapsto> with_value c v)\<rparr>"
  have chain: "chain_at (sh_heap m) (sh_heads m ! i) (ass ! i)" "distinct (ass ! i)"
    using t i by (simp_all add: table_at_def)
  have "table_at ?m (ass[i := ass ! i])
      (db\<lparr>buckets := (buckets db)[i := nodes_at (sh_heap ?m) (ass ! i)], db_size := sh_size ?m\<rparr>)"
  proof (rule table_at_update [OF t i])
    show "length (sh_heads ?m) = 1000" using t by (simp add: table_at_def)
    show "sh_heads ?m ! j = sh_heads m ! j" for j by simp
    have "set (ass ! i) \<inter> set (ass ! j) = {}" if "j < 1000" "j \<noteq> i" for j
      using t i that by (simp add: table_at_def)
    then show "sh_heap ?m b = sh_heap m b \<and> b \<notin> set (ass ! i)" if "j < 1000" "j \<noteq> i" "b \<in> set (ass ! j)" for j b
      using that a by auto
    show "chain_at (sh_heap ?m) (sh_heads ?m ! i) (ass ! i)"
      using chain_at_content [OF chain(1) c, of "with_value c v"] by simp
    show "distinct (ass ! i)" by (rule chain(2))
  qed
  moreover have "sh_size m = db_size db" using t by (simp add: table_at_def)
  ultimately show ?thesis by simp
qed

lemma alone_set:
  assumes t: "table_at m ass db" and arrays: "value_arrays db" and al: "fresh_address al m" and ix: "unat (hash key) < 1000"
  shows "\<exists>k m' b db'. alone n al k (Begin (Op_Set key val), m) (Done (Set_Result b), m')
    \<and> k \<le> length (ass ! unat (hash key)) + 257
    \<and> storage_set (al \<noteq> None) db key val = Inr (b, db') \<and> represents m' db'"
proof -
  let ?i = "unat (hash key)"
  have chain: "chain_at (sh_heap m) (sh_heads m ! ?i) (ass ! ?i)" "distinct (ass ! ?i)"
    using t ix by (simp_all add: table_at_def)
  have bucket: "bucket_at db ?i = Inr (nodes_at (sh_heap m) (ass ! ?i))"
    using table_at_bucket [OF t ix] table_at_length [OF t] ix by (simp add: bucket_at_def)
  show ?thesis
  proof (cases "set_in_chain (nodes_at (sh_heap m) (ass ! ?i)) key val")
    case (Some chain')
    from alone_walk_set_Some [OF chain(1) Some chain(2), of n al] obtain k a c where a: "k \<le> length (ass ! ?i)"
      "a \<in> set (ass ! ?i)" "sh_heap m a = Some c"
      "alone n al k (Walk (Op_Set key val) (sh_heads m ! ?i), m) (Write_Value val a 0, m)"
      "nodes_at ((sh_heap m)(a \<mapsto> with_value c (copy_field 256 (node_value (cell_node c)) val))) (ass ! ?i) = chain'"
      by blast
    let ?c = "with_value c (copy_field 256 (node_value (cell_node c)) val)"
    let ?m = "m\<lparr>sh_heap := (sh_heap m)(a \<mapsto> ?c)\<rparr>"
    have "length (node_value (cell_node c)) = 256"
      using table_node_array [OF t arrays ix a(2,3)] by (simp add: value_array_def)
    from alone_write [OF a(3) this, of 256 n al val] overwritten_all [OF this, of val]
    have "alone n al 256 (Write_Value val a 0, m) (Done (Set_Result True), ?m)" by simp
    from alone_begin [OF t _ ix alone_trans [OF a(4) this]]
    have run: "alone n al (Suc (k + 256)) (Begin (Op_Set key val), m) (Done (Set_Result True), ?m)" by simp
    note table_at_overwrite [OF t ix a(2,3), of "copy_field 256 (node_value (cell_node c)) val"]
    then have "\<exists>ass. table_at ?m ass (db\<lparr>buckets := (buckets db)[?i := chain']\<rparr>)" using a(5) by auto
    moreover have set: "storage_set (al \<noteq> None) db key val = Inr (True, db\<lparr>buckets := (buckets db)[?i := chain']\<rparr>)"
      using Some by (simp add: storage_set_def Let_def bucket)
    ultimately have "represents ?m (db\<lparr>buckets := (buckets db)[?i := chain']\<rparr>)"
      using storage_set_arrays [OF set arrays] by (simp add: represents_def)
    then show ?thesis
      using run set a(1) by (intro exI [of _ "Suc (k + 256)"] exI) auto
  next
    case None
    note walk = alone_walk_set_None [OF chain(1) None, of n al]
    show ?thesis
    proof (cases al)
      case None2: None
      have "alone n al 1 (Walk (Op_Set key val) None, m) (Done (Set_Result False), m)"
        by (rule alone_one) (simp_all add: None2)
      from alone_begin [OF t _ ix alone_trans [OF walk this]]
      have "alone n al (Suc (length (ass ! ?i) + 1)) (Begin (Op_Set key val), m) (Done (Set_Result False), m)" by simp
      moreover have "storage_set (al \<noteq> None) db key val = Inr (False, db)"
        using None None2 by (simp add: storage_set_def Let_def bucket)
      ultimately show ?thesis using t arrays unfolding represents_def
        by (intro exI [of _ "Suc (length (ass ! ?i) + 1)"] exI [of _ m] exI [of _ False] exI [of _ db]) auto
    next
      case (Some a)
      then have free: "sh_heap m a = None" using al by (simp add: fresh_address_def)
      let ?c = "\<lparr>cell_node = fill_node key val, cell_next = sh_heads m ! ?i\<rparr>"
      let ?m3 = "m\<lparr>sh_heap := (sh_heap m)(a \<mapsto> ?c), sh_heads := (sh_heads m)[?i := Some a], sh_size := sh_size m + 1\<rparr>"
      let ?db = "db\<lparr>buckets := (buckets db)[?i := fill_node key val # buckets db ! ?i], db_size := db_size db + 1\<rparr>"
      have "set_in_chain (buckets db ! ?i) key val = None" using None table_at_bucket [OF t ix] by simp
      from alone_trans [OF alone_publish [OF t ix free this] alone_published]
      have "alone n al (length (ass ! ?i) + 3 + 3) (Begin (Op_Set key val), m) (Done (Set_Result True), ?m3)"
        by (simp add: Some)
      moreover have set: "storage_set (al \<noteq> None) db key val = Inr (True, ?db)"
        using None Some table_at_bucket [OF t ix] by (simp add: storage_set_def Let_def bucket)
      moreover have "represents ?m3 ?db"
      proof -
        have "table_at ?m3
            (ass[?i := a # ass ! ?i]) (db\<lparr>buckets := (buckets db)[?i := fill_node key val # buckets db ! ?i],
              db_size := sh_size m + 1\<rparr>)"
          by (rule table_at_insert [OF t ix free])
        moreover have "sh_size m = db_size db" using t by (simp add: table_at_def)
        ultimately have "\<exists>ass. table_at ?m3 ass ?db" by (intro exI) simp
        then show ?thesis using storage_set_arrays [OF set arrays] by (simp add: represents_def)
      qed
      ultimately show ?thesis
        by (intro exI [of _ "length (ass ! ?i) + 3 + 3"] exI [of _ ?m3] exI [of _ True] exI [of _ ?db]) simp
    qed
  qed
qed

text \<open>A get of a stored key, up to the point where it holds the pointer to the value.\<close>

lemma alone_get_found:
  assumes t: "table_at m ass db" and ix: "unat (hash key) < 1000" and found: "storage_get n db key = Inr (Some v)"
  shows "\<exists>k a c. k \<le> length (ass ! unat (hash key)) + 1
    \<and> find (\<lambda>a. take n (key_at (sh_heap m) a) = take n key) (ass ! unat (hash key)) = Some a \<and> a \<in> set (ass ! unat (hash key)) \<and> sh_heap m a = Some c
    \<and> v = cstr (node_value (cell_node c)) \<and> alone n al k (Begin (Op_Get key), m) (Read_Value key a [], m)"
proof -
  let ?i = "unat (hash key)"
  have chain: "chain_at (sh_heap m) (sh_heads m ! ?i) (ass ! ?i)" using t ix by (simp add: table_at_def)
  have "get_in_chain n (nodes_at (sh_heap m) (ass ! ?i)) key = Some v"
    using found table_at_bucket [OF t ix] table_at_length [OF t] ix by (simp add: storage_get_def bucket_at_def)
  then obtain k a c where a: "k \<le> length (ass ! ?i)"
    "find (\<lambda>a. take n (key_at (sh_heap m) a) = take n key) (ass ! ?i) = Some a" "a \<in> set (ass ! ?i)" "sh_heap m a = Some c"
    "v = cstr (node_value (cell_node c))" "alone n al k (Walk (Op_Get key) (sh_heads m ! ?i), m) (Read_Value key a [], m)"
    using alone_walk_get [OF chain, where n = n and key = key and al = al] by auto
  then have "Suc k \<le> length (ass ! ?i) + 1 \<and> find (\<lambda>a. take n (key_at (sh_heap m) a) = take n key) (ass ! ?i) = Some a
      \<and> a \<in> set (ass ! ?i) \<and> sh_heap m a = Some c
      \<and> v = cstr (node_value (cell_node c)) \<and> alone n al (Suc k) (Begin (Op_Get key), m) (Read_Value key a [], m)"
    using alone_begin [OF t _ ix a(6)] by simp
  then show ?thesis by blast
qed

lemma alone_get:
  assumes t: "table_at m ass db" and arrays: "value_arrays db" and ix: "unat (hash key) < 1000"
  shows "\<exists>k r. alone n al k (Begin (Op_Get key), m) (Done (Get_Result r), m) \<and> k \<le> length (ass ! unat (hash key)) + 257
    \<and> storage_get n db key = Inr r"
proof -
  let ?i = "unat (hash key)"
  have chain: "chain_at (sh_heap m) (sh_heads m ! ?i) (ass ! ?i)" using t ix by (simp add: table_at_def)
  have get: "storage_get n db key = Inr (get_in_chain n (nodes_at (sh_heap m) (ass ! ?i)) key)"
    using table_at_bucket [OF t ix] table_at_length [OF t] ix by (simp add: storage_get_def bucket_at_def)
  show ?thesis
  proof (cases "get_in_chain n (nodes_at (sh_heap m) (ass ! ?i)) key")
    case None
    then have "alone n al (Suc (length (ass ! ?i))) (Walk (Op_Get key) (sh_heads m ! ?i), m) (Done (Get_Result None), m)"
      using alone_walk_get [OF chain, where n = n and key = key and al = al] by simp
    from alone_begin [OF t _ ix this] show ?thesis using get None
      by (intro exI [of _ "Suc (Suc (length (ass ! ?i)))"] exI [of _ None]) simp
  next
    case (Some v)
    from alone_get_found [OF t ix get [unfolded Some], of al] obtain k a c where a: "k \<le> length (ass ! ?i) + 1"
      "a \<in> set (ass ! ?i)" "sh_heap m a = Some c" "v = cstr (node_value (cell_node c))"
      "alone n al k (Begin (Op_Get key), m) (Read_Value key a [], m)"
      by blast
    note array = table_node_array [OF t arrays ix a(2,3)]
    from alone_trans [OF a(5) alone_read [OF a(3) array]] cstr_array [OF array] show ?thesis
      using get Some a(1,4) by (intro exI [of _ "k + (length v + 1)"] exI [of _ "Some v"]) simp
  qed
qed

text \<open>C23:
  A thread that runs by itself refines the operations on the table of lists: from a memory that holds a table,
  with any outcome of \<^verbatim>\<open>calloc\<close>, it ends after a number of steps bounded by the nodes of the table, with the result
  of the operation and a memory that holds the next table, or, when the operation faults, with the same fault
  and the memory unchanged.
\<close>

theorem store_alone_refines:
  assumes "represents m db" and "fresh_address al m"
  shows "\<exists>k pc m'. alone n al k (Begin op, m) (pc, m') \<and> k \<le> 2 * node_count db + 3003
    \<and> (case op_result n (al \<noteq> None) db op of
         Inr (r, db') \<Rightarrow> pc = Done r \<and> represents m' db'
       | Inl (Bucket_Index_Out_Of_Range i) \<Rightarrow> pc = Broken (Index_Fault i) \<and> m' = m)"
proof -
  obtain ass where t: "table_at m ass db" and arrays: "value_arrays db" using assms(1) by (auto simp: represents_def)
  have short: "length (ass ! i) + 257 \<le> 2 * node_count db + 3003" if "i < 1000" for i
    using table_at_nodes [OF t] that by fastforce
  have broken: ?thesis if "op_key op = Some key" "\<not> unat (hash key) < 1000" for key
  proof -
    have "alone n al 1 (Begin op, m) (Broken (Index_Fault (unat (hash key))), m)"
      by (rule alone_one) (use that begin_at_bucket [OF t that(1)] in simp_all)
    moreover have "op_result n (al \<noteq> None) db op = Inl (Bucket_Index_Out_Of_Range (unat (hash key)))"
      using that table_at_length [OF t]
      by (cases op) (simp_all add: storage_set_def storage_get_def bucket_at_def Let_def)
    ultimately show ?thesis by (intro exI [of _ 1]) auto
  qed
  show ?thesis
  proof (cases op)
    case (Op_Set key val)
    show ?thesis
    proof (cases "unat (hash key) < 1000")
      case True
      from alone_set [OF t arrays assms(2) True, of n val] short [OF True] show ?thesis
        unfolding Op_Set by fastforce
    qed (use broken Op_Set in simp)
  next
    case (Op_Get key)
    show ?thesis
    proof (cases "unat (hash key) < 1000")
      case True
      from alone_get [OF t arrays True, of n al] short [OF True] assms(1) show ?thesis
        unfolding Op_Get by fastforce
    qed (use broken Op_Get in simp)
  next
    case Op_Flush
    have "value_arrays (flush_buckets db)"
      using table_at_length [OF t] by (simp add: flush_buckets_init value_arrays_init)
    with alone_flush [OF t, of n al] table_at_nodes(1) [OF t] show ?thesis
      unfolding Op_Flush by (auto simp: represents_def)
  qed
qed

theorem store_alone_refines_witness:
  "\<exists>k pc m'. alone 64 (Some 7) k (Begin (Op_Set ''a'' ''1''), start_memory) (pc, m') \<and> k \<le> 3003
    \<and> pc = Done (Set_Result True) \<and> (\<exists>db. represents m' db)"
proof -
  have "represents start_memory g_storage" by (rule start_memory_represents)
  moreover have "fresh_address (Some 7) start_memory" by (simp add: fresh_address_def start_memory_def)
  ultimately show ?thesis
    using store_alone_refines [of start_memory g_storage "Some 7" 64 "Op_Set ''a'' ''1''"]
    by (simp add: node_count_def g_storage_def sum_list_replicate storage_set_def bucket_at_def hash_eval Let_def)
      (auto split: option.splits)
qed

end
