(* ===== verification/Storage_Races.thy ===== *)
theory Storage_Races
  imports Storage_Refine
begin

text \<open>
  Several threads on the table of \<^verbatim>\<open>commands.c\<close>, without a lock. The only fault of sets and gets alone is
  the missing bucket 1000 of some keys; the others never touch memory that is not theirs, always end, and every byte a get returns was stored at its
  place by some set of the key; but the bytes may come from different sets (\<open>Storage_Anomalies\<close>), sets lose
  each other's keys and count them twice, and a flush frees what others still read.
\<close>

section \<open>The invariant of sets and gets\<close>

text \<open>A pointer into the nodes \<open>A\<close> of bucket \<open>i\<close>, where \<open>b\<close> gives each published node its bucket.\<close>

definition points :: "(nat \<Rightarrow> nat) \<Rightarrow> nat \<Rightarrow> nat set \<Rightarrow> nat option \<Rightarrow> bool" where
  "points b i A p = (case p of None \<Rightarrow> True | Some a \<Rightarrow> a \<in> A \<and> b a = i)"

text \<open>Which byte may stand at which index of the value of which key.\<close>

type_synonym byte_writes = "(string \<times> nat \<times> char) set"

definition cell_holds :: "byte_writes \<Rightarrow> cell \<Rightarrow> bool" where
  "cell_holds W c \<longleftrightarrow> node_wf (cell_node c) \<and> value_array (node_value (cell_node c))
     \<and> (\<forall>j < 256. (cstr (node_key (cell_node c)), j, node_value (cell_node c) ! j) \<in> W)"

text \<open>The published nodes, newest first: each is linked to an older one of its bucket.\<close>

fun published :: "byte_writes \<Rightarrow> (nat \<Rightarrow> cell option) \<Rightarrow> (nat \<Rightarrow> nat) \<Rightarrow> nat list \<Rightarrow> bool" where
  "published W h b [] = True"
| "published W h b (a # as) = ((\<exists>c. h a = Some c \<and> cell_holds W c \<and> points b (b a) (set as) (cell_next c))
     \<and> a \<notin> set as \<and> published W h b as)"

definition memory_ok :: "byte_writes \<Rightarrow> shared \<Rightarrow> nat list \<Rightarrow> (nat \<Rightarrow> nat) \<Rightarrow> bool" where
  "memory_ok W m ps b \<longleftrightarrow> length (sh_heads m) = 1000
     \<and> (\<forall>i < 1000. points b i (set ps) (sh_heads m ! i)) \<and> published W (sh_heap m) b ps"

text \<open>A set or get, with all it writes in \<open>W\<close>.\<close>

fun op_ok :: "byte_writes \<Rightarrow> table_op \<Rightarrow> bool" where
  "op_ok W (Op_Set key val) = (is_cstr key \<and> is_cstr val 
     \<and> (\<forall>j < 256. (take 63 key, j, value_byte val j) \<in> W))"
| "op_ok W (Op_Get key) = True"
| "op_ok W Op_Flush = False"

text \<open>A string whose bytes, and the NUL behind them, each stood at their index under the key.\<close>

definition stored_value :: "byte_writes \<Rightarrow> string \<Rightarrow> string \<Rightarrow> bool" where
  "stored_value W key v \<longleftrightarrow> is_cstr v \<and> length v \<le> 255
     \<and> (\<forall>j < length v. (key, j, v ! j) \<in> W) \<and> (key, length v, NUL) \<in> W"

fun result_ok :: "byte_writes \<Rightarrow> table_op \<Rightarrow> store_result \<Rightarrow> bool" where
  "result_ok W (Op_Get key) (Get_Result (Some v)) = stored_value W key v"
| "result_ok W (Op_Get key) (Get_Result None) = True"
| "result_ok W (Op_Set key val) (Set_Result stored) = True"
| "result_ok W op r = False"

fun thread_ok :: "byte_writes \<Rightarrow> (nat \<Rightarrow> cell option) \<Rightarrow> nat list \<Rightarrow> (nat \<Rightarrow> nat) \<Rightarrow> table_op \<Rightarrow> store_pc \<Rightarrow> bool" where
  "thread_ok W h ps b op (Begin op') = (op' = op)"
| "thread_ok W h ps b op (Walk op' p) = (op' = op
     \<and> (\<exists>key. op_key op = Some key \<and> unat (hash key) < 1000 \<and> points b (unat (hash key)) (set ps) p))"
| "thread_ok W h ps b op (Write_Value val a i) = (a \<in> set ps \<and> i < 256
     \<and> (\<exists>key c. op = Op_Set key val \<and> h a = Some c \<and> cstr (node_key (cell_node c)) = key))"
| "thread_ok W h ps b op (Link key val a) = (op = Op_Set key val \<and> unat (hash key) < 1000 \<and> a \<notin> set ps
     \<and> h a = Some \<lparr>cell_node = fill_node key val, cell_next = None\<rparr>)"
| "thread_ok W h ps b op (Publish key val a) = (op = Op_Set key val \<and> unat (hash key) < 1000 \<and> a \<notin> set ps
     \<and> (\<exists>p. h a = Some \<lparr>cell_node = fill_node key val, cell_next = p\<rparr> \<and> points b (unat (hash key)) (set ps) p))"
| "thread_ok W h ps b op Read_Size = (\<exists>key val. op = Op_Set key val)"
| "thread_ok W h ps b op (Write_Size s) = (\<exists>key val. op = Op_Set key val)"
| "thread_ok W h ps b op (Read_Value key a got) = (op = Op_Get key \<and> a \<in> set ps
     \<and> length got < 256 \<and> is_cstr got \<and> (\<forall>j < length got. (key, j, got ! j) \<in> W)
     \<and> (\<exists>c. h a = Some c \<and> cstr (node_key (cell_node c)) = key))"
| "thread_ok W h ps b op (Done r) = result_ok W op r"
| "thread_ok W h ps b op (Broken f) = (f = Index_Fault 1000 \<and> (\<exists>key. op_key op = Some key \<and> unat (hash key) = 1000))"
| "thread_ok W h ps b op pc = False"

fun own_node :: "store_pc \<Rightarrow> nat option" where
  "own_node (Link key val a) = Some a"
| "own_node (Publish key val a) = Some a"
| "own_node pc = None"

text \<open>How many steps a thread has left when at most \<open>N\<close> nodes are published, and whether it may still publish one.\<close>

fun nodes_from :: "nat list \<Rightarrow> nat \<Rightarrow> nat" where
  "nodes_from [] a = 0"
| "nodes_from (x # xs) a = (if x = a then Suc (length xs) else nodes_from xs a)"

fun moves_left :: "nat \<Rightarrow> nat list \<Rightarrow> store_pc \<Rightarrow> nat" where
  "moves_left N ps (Begin op) = N + 257"
| "moves_left N ps (Walk op p) = (case p of None \<Rightarrow> 5 | Some a \<Rightarrow> nodes_from ps a + 256)"
| "moves_left N ps (Write_Value val a i) = 256 - i"
| "moves_left N ps (Link key val a) = 4"
| "moves_left N ps (Publish key val a) = 3"
| "moves_left N ps Read_Size = 2"
| "moves_left N ps (Write_Size s) = 1"
| "moves_left N ps (Read_Value key a got) = 256 - length got"
| "moves_left N ps pc = 0"

fun halted :: "store_pc \<Rightarrow> bool" where
  "halted (Done r) = True"
| "halted (Broken f) = True"
| "halted pc = False"

lemma halted_step: "halted pc \<Longrightarrow> store_step n al pc m = (pc, m)"
  by (cases pc) simp_all

fun may_publish :: "store_pc \<Rightarrow> bool" where
  "may_publish (Begin op) = True"
| "may_publish (Walk op p) = True"
| "may_publish (Link key val a) = True"
| "may_publish (Publish key val a) = True"
| "may_publish pc = False"

section \<open>Published nodes\<close>

lemma points_mono: "points b i A p \<Longrightarrow> A \<subseteq> A' \<Longrightarrow> (\<And>a. a \<in> A \<Longrightarrow> b' a = b a) \<Longrightarrow> points b' i A' p"
  by (auto simp: points_def split: option.splits)

lemma published_cell:
  "published W h b ps \<Longrightarrow> a \<in> set ps \<Longrightarrow> \<exists>c. h a = Some c \<and> cell_holds W c \<and> points b (b a) (set ps) (cell_next c)
     \<and> (\<forall>a'. cell_next c = Some a' \<longrightarrow> nodes_from ps a' < nodes_from ps a)"
proof (induction ps)
  case (Cons x xs)
  have le: "nodes_from xs y \<le> length xs" for y by (induction xs) auto
  show ?case
  proof (cases "a = x")
    case True
    then obtain c where c: "h a = Some c" "cell_holds W c" "points b (b a) (set xs) (cell_next c)"
      using Cons.prems by auto
    moreover have "points b (b a) (set (x # xs)) (cell_next c)" by (rule points_mono [OF c(3)]) auto
    moreover have "nodes_from (x # xs) a' < nodes_from (x # xs) a" if "cell_next c = Some a'" for a'
      using that c(3) True le [of a'] Cons.prems(1) by (auto simp: points_def)
    ultimately show ?thesis by blast
  next
    case False
    then obtain c where c: "h a = Some c" "cell_holds W c" "points b (b a) (set xs) (cell_next c)"
      "\<And>a'. cell_next c = Some a' \<Longrightarrow> nodes_from xs a' < nodes_from xs a"
      using Cons by auto
    moreover have "points b (b a) (set (x # xs)) (cell_next c)" by (rule points_mono [OF c(3)]) auto
    moreover have "nodes_from (x # xs) a' < nodes_from (x # xs) a" if "cell_next c = Some a'" for a'
      using that c(3,4) False Cons.prems(1) by (auto simp: points_def)
    ultimately show ?thesis by blast
  qed
qed simp

lemma published_frame:
  "published W h b ps \<Longrightarrow> (\<And>a. a \<in> set ps \<Longrightarrow> h' a = h a \<and> b' a = b a) \<Longrightarrow> published W h' b' ps"
proof (induction ps)
  case (Cons x xs)
  then obtain c where c: "h x = Some c" "cell_holds W c" "points b (b x) (set xs) (cell_next c)" by auto
  have "points b' (b x) (set xs) (cell_next c)" by (rule points_mono [OF c(3)]) (use Cons.prems(2) in auto)
  with Cons c show ?case by auto
qed simp

lemma published_content:
  "published W h b ps \<Longrightarrow> h a = Some c \<Longrightarrow> cell_next c' = cell_next c \<Longrightarrow> cell_holds W c' \<Longrightarrow>
    published W (h(a \<mapsto> c')) b ps"
  by (induction ps) auto

lemma nodes_from_le: "nodes_from ps a \<le> length ps"
  by (induction ps) auto

lemma nodes_from_pos: "a \<in> set ps \<Longrightarrow> 0 < nodes_from ps a"
  by (induction ps) auto

section \<open>One step of one thread\<close>

text \<open>What a step may change: the published nodes grow by at most the node of the thread, keep their keys and
  links, and the nodes other threads own stay as they are.\<close>

definition step_effect ::
    "byte_writes \<Rightarrow> nat \<Rightarrow> table_op \<Rightarrow> shared \<Rightarrow> nat list \<Rightarrow> (nat \<Rightarrow> nat) \<Rightarrow> store_pc \<Rightarrow>
      shared \<Rightarrow> nat list \<Rightarrow> (nat \<Rightarrow> nat) \<Rightarrow> store_pc \<Rightarrow> bool" where
  "step_effect W N op m ps b pc m' ps' b' pc' \<longleftrightarrow> memory_ok W m' ps' b' \<and> thread_ok W (sh_heap m') ps' b' op pc'
     \<and> (ps' = ps \<or> (\<exists>a. ps' = a # ps \<and> a \<notin> set ps \<and> own_node pc = Some a \<and> own_node pc' = None))
     \<and> (\<forall>a \<in> set ps. b' a = b a)
     \<and> (\<forall>a \<in> set ps. \<forall>c. sh_heap m a = Some c \<longrightarrow>
          (\<exists>c'. sh_heap m' a = Some c' \<and> node_key (cell_node c') = node_key (cell_node c)))
     \<and> (\<forall>a. a \<notin> set ps \<and> own_node pc \<noteq> Some a \<and> own_node pc' \<noteq> Some a \<longrightarrow> sh_heap m' a = sh_heap m a)
     \<and> (\<forall>a. own_node pc' = Some a \<longrightarrow> own_node pc = Some a \<or> sh_heap m a = None)
     \<and> length ps' + of_bool (may_publish pc') \<le> length ps + of_bool (may_publish pc)
     \<and> (moves_left N ps' pc' < moves_left N ps pc \<or> halted pc')"

lemma effect_local:
  assumes "memory_ok W m ps b" and "sh_heads m' = sh_heads m" and "sh_heap m' = sh_heap m"
    and "thread_ok W (sh_heap m) ps b op pc'" and "own_node pc' = None"
    and "may_publish pc' \<longrightarrow> may_publish pc" and "moves_left N ps pc' < moves_left N ps pc \<or> halted pc'"
  shows "step_effect W N op m ps b pc m' ps b pc'"
  using assms by (auto simp: step_effect_def memory_ok_def)

lemma head_points: "memory_ok W m ps b \<Longrightarrow> i < 1000 \<Longrightarrow> points b i (set ps) (sh_heads m ! i)"
  by (simp add: memory_ok_def)

lemma moves_left_walk: "length ps \<le> N \<Longrightarrow> moves_left N ps (Walk op p) < N + 257"
  using nodes_from_le [of ps "the p"] by (cases p) simp_all

lemma effect_begin:
  assumes "memory_ok W m ps b" and "op_ok W op" and "length ps \<le> N" and "store_step n al (Begin op) m = (pc', m')"
  shows "step_effect W N op m ps b (Begin op) m' ps b pc'"
proof -
  from assms(2) obtain key where key: "op_key op = Some key" by (cases op) auto
  have "store_step n al (Begin op) m = (if unat (hash key) < 1000 then Walk op (sh_heads m ! unat (hash key))
      else Broken (Index_Fault (unat (hash key))), m)"
    using assms(1) key by (cases op) (auto simp: at_bucket_def memory_ok_def Let_def)
  moreover have "step_effect W N op m ps b (Begin op) m ps b (Walk op (sh_heads m ! unat (hash key)))"
    if "unat (hash key) < 1000"
    by (rule effect_local) (use assms key that head_points moves_left_walk in auto)
  moreover have "step_effect W N op m ps b (Begin op) m ps b (Broken (Index_Fault (unat (hash key))))"
    if "\<not> unat (hash key) < 1000"
    by (rule effect_local) (use assms key that hash_range [of key] in auto)
  ultimately show ?thesis using assms(4) by (auto split: if_splits)
qed

lemma effect_walk_on:
  assumes "memory_ok W m ps b" and "thread_ok W (sh_heap m) ps b op (Walk op (Some a))" and "sh_heap m a = Some c"
  shows "step_effect W N op m ps b (Walk op (Some a)) m ps b (Walk op (cell_next c))"
proof -
  obtain key where key: "op_key op = Some key" "unat (hash key) < 1000" "a \<in> set ps" "b a = unat (hash key)"
    using assms(2) by (auto simp: points_def)
  obtain d where "sh_heap m a = Some d" "points b (b a) (set ps) (cell_next d)"
    "\<And>a'. cell_next d = Some a' \<Longrightarrow> nodes_from ps a' < nodes_from ps a"
    using published_cell [of W "sh_heap m" b ps a] assms(1) key(3) by (auto simp: memory_ok_def)
  moreover have "0 < nodes_from ps a" using key(3) by (rule nodes_from_pos)
  ultimately show ?thesis
    using assms key by (intro effect_local) (auto split: option.splits)
qed

text \<open>A byte of a value overwritten and a byte read: the invariant of the value, index by index.\<close>

lemma node_wf_put:
  assumes "node_wf (cell_node c)" and "value_array (node_value (cell_node c))" and "i = 255 \<Longrightarrow> ch = NUL"
  shows "node_wf (cell_node (put_byte c i ch))" and "value_array (node_value (cell_node (put_byte c i ch)))"
proof -
  show array: "value_array (node_value (cell_node (put_byte c i ch)))"
    using assms(2,3) by (cases "i = 255") (simp_all add: value_array_def put_byte_value)
  then show "node_wf (cell_node (put_byte c i ch))"
    using assms(1) cstr_array [OF array] by (simp add: node_wf_def put_byte_value)
qed

lemma cell_holds_put:
  assumes "cell_holds W c" and "i < 256" and "\<And>j. j < 256 \<Longrightarrow> (cstr (node_key (cell_node c)), j, value_byte val j) \<in> W"
  shows "cell_holds W (put_byte c i (value_byte val i))"
proof -
  have "i = 255 \<Longrightarrow> value_byte val i = NUL" by (simp add: value_byte_def)
  note wf = node_wf_put [OF _ _ this]
  have "length (node_value (cell_node c)) = 256" using assms(1) by (simp add: cell_holds_def value_array_def)
  then show ?thesis
    using assms wf by (simp add: cell_holds_def) (auto simp: put_byte_value nth_list_update)
qed

lemma effect_found:
  assumes "memory_ok W m ps b" and "a \<in> set ps" and "sh_heap m a = Some c" and "op = Op_Set key val"
    and "cstr (node_key (cell_node c)) = key"
  shows "step_effect W N op m ps b (Walk op (Some a)) m ps b (Write_Value val a 0)"
  by (rule effect_local) (use assms nodes_from_pos [of a ps] in auto)

lemma effect_write:
  assumes mem: "memory_ok W m ps b" and pc: "thread_ok W (sh_heap m) ps b op (Write_Value val a i)" and "op_ok W op"
    and a: "sh_heap m a = Some c"
  shows "step_effect W N op m ps b (Write_Value val a i) (m\<lparr>sh_heap := (sh_heap m)(a \<mapsto> put_byte c i (value_byte val i))\<rparr>)
    ps b (if i < 255 then Write_Value val a (i + 1) else Done (Set_Result True))"
proof -
  obtain key where key: "op = Op_Set key val" "cstr (node_key (cell_node c)) = key" "a \<in> set ps" "i < 256"
    using pc a by auto
  have c: "cell_holds W c" using published_cell [of W "sh_heap m" b ps a] mem key(3) a by (auto simp: memory_ok_def)
  have "length key \<le> 63" using c key(2) by (auto simp: cell_holds_def node_wf_def)
  then have "cell_holds W (put_byte c i (value_byte val i))"
    using assms(3) key by (intro cell_holds_put [OF c]) auto
  then have "published W ((sh_heap m)(a \<mapsto> put_byte c i (value_byte val i))) b ps"
    using mem a by (intro published_content) (auto simp: memory_ok_def put_byte_def)
  then show ?thesis using assms key by (auto simp: step_effect_def memory_ok_def put_byte_def)
qed

lemma effect_read:
  assumes mem: "memory_ok W m ps b" and pc: "thread_ok W (sh_heap m) ps b op (Read_Value key a got)"
    and "store_step n al (Read_Value key a got) m = (pc', m')"
  shows "step_effect W N op m ps b (Read_Value key a got) m' ps b pc'"
proof -
  obtain c where c: "sh_heap m a = Some c" "cstr (node_key (cell_node c)) = key" "op = Op_Get key" "a \<in> set ps"
    "length got < 256" "is_cstr got" "\<And>j. j < length got \<Longrightarrow> (key, j, got ! j) \<in> W"
    using pc by auto
  let ?v = "node_value (cell_node c)"
  have holds: "cell_holds W c" using published_cell [of W "sh_heap m" b ps a] mem c by (auto simp: memory_ok_def)
  then have v: "length ?v = 256" "?v ! 255 = NUL" "(key, length got, ?v ! length got) \<in> W"
    using c by (auto simp: cell_holds_def value_array_def)
  have byte: "(key, j, (got @ [?v ! length got]) ! j) \<in> W" if "j < length got + 1" for j
    using that c(7) [of j] v(3) by (cases "j = length got") (auto simp: nth_append)
  show ?thesis
  proof (cases "?v ! length got = NUL")
    case True
    then have "step_effect W N op m ps b (Read_Value key a got) m ps b (Done (Get_Result (Some got)))"
      using c v by (intro effect_local) (use mem in \<open>auto simp: stored_value_def\<close>)
    then show ?thesis using assms(3) True c(1,5) v(1) by (simp add: with_cell_def Let_def)
  next
    case False
    then have "length got \<noteq> 255" using v(2) by auto
    then have "step_effect W N op m ps b (Read_Value key a got) m ps b (Read_Value key a (got @ [?v ! length got]))"
      using c False byte by (intro effect_local) (use mem in auto)
    then show ?thesis using assms(3) False c(1,5) v(1) by (simp add: with_cell_def Let_def)
  qed
qed

lemma effect_new_node:
  assumes "memory_ok W m ps b" and "sh_heap m a = None" and "op = Op_Set key val"
    and "unat (hash key) < 1000"
  shows "step_effect W N op m ps b (Walk op None) (m\<lparr>sh_heap := (sh_heap m)(a \<mapsto>
      \<lparr>cell_node = fill_node key val, cell_next = None\<rparr>)\<rparr>) ps b (Link key val a)"
proof -
  have free: "a \<notin> set ps" using published_cell [of W "sh_heap m" b ps a] assms(1,2) by (auto simp: memory_ok_def)
  have "published W ((sh_heap m)(a \<mapsto> \<lparr>cell_node = fill_node key val, cell_next = None\<rparr>)) b ps"
    by (rule published_frame [of W "sh_heap m" b]) (use assms(1) free in \<open>auto simp: memory_ok_def\<close>)
  then show ?thesis using assms free by (auto simp: step_effect_def memory_ok_def)
qed

lemma effect_link:
  assumes "memory_ok W m ps b" and "thread_ok W (sh_heap m) ps b op (Link key val a)" and "op_ok W op"
  shows "step_effect W N op m ps b (Link key val a) (m\<lparr>sh_heap := (sh_heap m)(a \<mapsto>
      \<lparr>cell_node = fill_node key val, cell_next = sh_heads m ! unat (hash key)\<rparr>)\<rparr>) ps b (Publish key val a)"
proof -
  have free: "a \<notin> set ps" and ix: "unat (hash key) < 1000" using assms(2) by auto
  have "published W ((sh_heap m)(a \<mapsto> \<lparr>cell_node = fill_node key val, cell_next = sh_heads m ! unat (hash key)\<rparr>)) b ps"
    by (rule published_frame [of W "sh_heap m" b]) (use assms(1) free in \<open>auto simp: memory_ok_def\<close>)
  then show ?thesis
    using assms free head_points [OF assms(1) ix] by (auto simp: step_effect_def memory_ok_def)
qed

lemma effect_publish:
  assumes "memory_ok W m ps b" and "thread_ok W (sh_heap m) ps b op (Publish key val a)" and "op_ok W op"
  shows "step_effect W N op m ps b (Publish key val a) (m\<lparr>sh_heads := (sh_heads m)[unat (hash key) := Some a]\<rparr>)
      (a # ps) (b(a := unat (hash key))) Read_Size"
proof -
  let ?b = "b(a := unat (hash key))"
  obtain p where p: "a \<notin> set ps" "sh_heap m a = Some \<lparr>cell_node = fill_node key val, cell_next = p\<rparr>"
    "points b (unat (hash key)) (set ps) p" "op = Op_Set key val"
    using assms(2) by auto
  then have key: "is_cstr key" "is_cstr val" "\<And>j. j < 256 \<Longrightarrow> (take 63 key, j, value_byte val j) \<in> W" "unat (hash key) < 1000"
    using assms(2,3) by auto
  have "published W (sh_heap m) ?b ps"
    by (rule published_frame [of W "sh_heap m" b]) (use assms(1) p(1) in \<open>auto simp: memory_ok_def\<close>)
  moreover have "points ?b (unat (hash key)) (set ps) p" by (rule points_mono [OF p(3)]) (use p(1) in auto)
  moreover have "cell_holds W \<lparr>cell_node = fill_node key val, cell_next = p\<rparr>"
    using key fill_node_array [of key val] by (simp add: cell_holds_def node_wf_fill_node fill_node_byte)
  ultimately have pub: "published W (sh_heap m) ?b (a # ps)" using p(1,2) by simp
  have "points ?b i (set (a # ps)) ((sh_heads m)[unat (hash key) := Some a] ! i)" if "i < 1000" for i
  proof (cases "i = unat (hash key)")
    case True
    then show ?thesis using assms(1) that by (simp add: memory_ok_def points_def)
  next
    case False
    have "points ?b i (set (a # ps)) (sh_heads m ! i)"
      by (rule points_mono [OF head_points [OF assms(1) that]]) (use p(1) in auto)
    then show ?thesis using False by simp
  qed
  then have "memory_ok W (m\<lparr>sh_heads := (sh_heads m)[unat (hash key) := Some a]\<rparr>) (a # ps) ?b"
    using assms(1) pub by (simp add: memory_ok_def)
  then show ?thesis using p by (auto simp: step_effect_def)
qed

lemma thread_step_effect:
  assumes mem: "memory_ok W m ps b" and pc: "thread_ok W (sh_heap m) ps b op pc" and op: "op_ok W op"
    and al: "calloc_ok al pc m" and n: "64 \<le> n" and N: "length ps \<le> N" and "store_step n al pc m = (pc', m')"
  shows "\<exists>ps' b'. step_effect W N op m ps b pc m' ps' b' pc'"
  using pc al assms(7)
proof (cases pc)
  case (Begin op')
  then show ?thesis using pc effect_begin [OF mem op N, of n al pc' m'] assms(7) by auto
next
  case (Walk op' p)
  then have op': "op' = op" using pc by simp
  show ?thesis
  proof (cases p)
    case None
    show ?thesis
    proof (cases op)
      case (Op_Set key val)
      show ?thesis
      proof (cases al)
        case al_None: None
        have "step_effect W N op m ps b (Walk op None) m ps b (Done (Set_Result False))"
          by (rule effect_local) (use mem Op_Set in auto)
        then show ?thesis using assms(7) Walk op' None Op_Set al_None by auto
      next
        case (Some a)
        then have "sh_heap m a = None" using al Walk op' None Op_Set by simp
        from effect_new_node [OF mem this Op_Set, of N] show ?thesis
          using pc assms(7) Walk op' None Op_Set Some by auto
      qed
    next
      case (Op_Get key)
      have "step_effect W N op m ps b (Walk op None) m ps b (Done (Get_Result None))"
        by (rule effect_local) (use mem Op_Get in auto)
      then show ?thesis using assms(7) Walk op' None Op_Get by auto
    qed (use op in simp)
  next
    case (Some a)
    have a: "a \<in> set ps" using pc Walk Some by (auto simp: points_def)
    then obtain c where c: "sh_heap m a = Some c" "cell_holds W c"
      using published_cell [of W "sh_heap m" b ps a] mem by (auto simp: memory_ok_def)
    have on: "step_effect W N op m ps b (Walk op (Some a)) m ps b (Walk op (cell_next c))"
      by (rule effect_walk_on [OF mem _ c(1)]) (use pc Walk op' Some in simp)
    show ?thesis
    proof (cases op)
      case (Op_Set key val)
      then show ?thesis
        using on effect_found [OF mem a c(1) Op_Set, of N] assms(7) Walk op' Some c(1)
        by (auto simp: with_cell_def split: if_splits)
    next
      case (Op_Get key)
      have "step_effect W N op m ps b (Walk op (Some a)) m ps b (Read_Value key a [])"
        if "take n (cstr (node_key (cell_node c))) = take n key"
      proof (rule effect_local)
        have "cstr (node_key (cell_node c)) = key"
          using key_match [OF _ n] c(2) that by (auto simp: cell_holds_def)
        then show "thread_ok W (sh_heap m) ps b op (Read_Value key a [])" using a c(1) Op_Get by simp
        show "moves_left N ps (Read_Value key a []) < moves_left N ps (Walk op (Some a)) \<or> halted (Read_Value key a [])"
          using nodes_from_pos [OF a] by simp
      qed (use mem in auto)
      then show ?thesis
        using on assms(7) Walk op' Some c(1) Op_Get by (auto simp: with_cell_def split: if_splits)
    qed (use op in simp)
  qed
next
  case (Link key val a)
  then show ?thesis
    using pc effect_link [OF mem _ op, of key val a N] assms(7) by (auto simp: with_cell_def)
next
  case (Publish key val a)
  then show ?thesis using pc effect_publish [OF mem _ op, of key val a N] assms(7) by auto
next
  case Read_Size
  have "step_effect W N op m ps b Read_Size m ps b (Write_Size (sh_size m))"
    by (rule effect_local) (use mem pc Read_Size in auto)
  then show ?thesis using assms(7) Read_Size by auto
next
  case (Write_Size s)
  have "step_effect W N op m ps b (Write_Size s) (m\<lparr>sh_size := s + 1\<rparr>) ps b (Done (Set_Result True))"
    by (rule effect_local) (use mem pc Write_Size in auto)
  then show ?thesis using assms(7) Write_Size by auto
next
  case (Write_Value val a i)
  then obtain c where "sh_heap m a = Some c" using pc by auto
  with effect_write [OF mem _ op, of val a i c N] show ?thesis
    using assms(7) pc Write_Value by (auto simp: with_cell_def)
next
  case (Read_Value key a got)
  then show ?thesis using effect_read [OF mem, of op key a got n al pc' m' N] pc assms(7) by auto
next
  case (Done r)
  have "step_effect W N op m ps b (Done r) m ps b (Done r)"
    by (rule effect_local) (use mem pc Done in auto)
  then show ?thesis using assms(7) Done by auto
next
  case (Broken f)
  have "step_effect W N op m ps b (Broken f) m ps b (Broken f)"
    by (rule effect_local) (use mem pc Broken in auto)
  then show ?thesis using assms(7) Broken by auto
qed (use pc in auto)

section \<open>All threads\<close>

definition race_inv ::
    "byte_writes \<Rightarrow> nat \<Rightarrow> table_op list \<Rightarrow> nat list \<Rightarrow> store_pc list \<Rightarrow> shared \<Rightarrow> nat list \<Rightarrow> (nat \<Rightarrow> nat) \<Rightarrow> bool"
  where
  "race_inv W N ops is ts m ps b \<longleftrightarrow> memory_ok W m ps b \<and> length ts = length ops
     \<and> (\<forall>i < length ops. thread_ok W (sh_heap m) ps b (ops ! i) (ts ! i)
          \<and> (halted (ts ! i) \<or> count_list is i + moves_left N ps (ts ! i) \<le> N + 257))
     \<and> (\<forall>i < length ops. \<forall>j < length ops. i \<noteq> j \<longrightarrow> own_node (ts ! i) \<noteq> None \<longrightarrow> own_node (ts ! i) \<noteq> own_node (ts ! j))
     \<and> length ps + length (filter may_publish ts) \<le> N"

text \<open>A step of one thread keeps what holds of another.\<close>

lemma effect_other:
  assumes "step_effect W N op m ps b pc m' ps' b' pc'" and "thread_ok W (sh_heap m) ps b op2 t"
    and "own_node t \<noteq> None \<Longrightarrow> own_node t \<noteq> own_node pc" and "memory_ok W m ps b"
  shows "thread_ok W (sh_heap m') ps' b' op2 t" and "moves_left N ps' t = moves_left N ps t"
    and "own_node t \<noteq> None \<Longrightarrow> own_node t \<noteq> own_node pc'"
proof -
  have sub: "set ps \<subseteq> set ps'" and b: "\<And>a. a \<in> set ps \<Longrightarrow> b' a = b a" using assms(1) by (auto simp: step_effect_def)
  have own: "a \<notin> set ps \<and> own_node pc \<noteq> Some a \<and> sh_heap m a \<noteq> None" if "own_node t = Some a" for a
    using that assms(2,3) by (cases t) auto
  then have own': "own_node pc' \<noteq> Some a" if "own_node t = Some a" for a
    using that assms(1) by (auto simp: step_effect_def)
  then show "own_node t \<noteq> None \<Longrightarrow> own_node t \<noteq> own_node pc'" by fastforce
  have heap: "sh_heap m' a = sh_heap m a \<and> a \<notin> set ps'" if "own_node t = Some a" for a
    using own [OF that] own' [OF that] assms(1) by (auto simp: step_effect_def)
  show "thread_ok W (sh_heap m') ps' b' op2 t"
  proof (cases t)
    case (Walk op' p)
    then show ?thesis using assms(2) points_mono [OF _ sub b] by auto
  next
    case (Publish key val a)
    then show ?thesis using assms(2) heap points_mono [OF _ sub b] by fastforce
  next
    case (Read_Value key a got)
    then show ?thesis using assms(1,2) sub by (fastforce simp: step_effect_def)
  next
    case (Write_Value val a i)
    then show ?thesis using assms(1,2) sub by (fastforce simp: step_effect_def)
  qed (use assms(2) heap in auto)
  have "nodes_from ps' a = nodes_from ps a" if "a \<in> set ps" for a
    using that assms(1) by (auto simp: step_effect_def)
  then show "moves_left N ps' t = moves_left N ps t"
    using assms(2) by (cases t) (auto simp: points_def split: option.splits)
qed

lemma length_filter_update:
  "i < length xs \<Longrightarrow> length (filter P (xs[i := y])) + of_bool (P (xs ! i)) = length (filter P xs) + of_bool (P y)"
proof (induction xs arbitrary: i)
  case (Cons x xs)
  then show ?case
  proof (cases i)
    case (Suc k)
    then show ?thesis using Cons.IH [of k] Cons.prems by simp
  qed simp
qed simp

lemma race_inv_step:
  assumes inv: "race_inv W N ops is ts m ps b" and i: "i < length ts" and al: "calloc_ok al (ts ! i) m"
    and step: "store_step n al (ts ! i) m = (t, m')" and n: "64 \<le> n" and ops: "list_all (op_ok W) ops"
  shows "\<exists>ps' b'. race_inv W N ops (is @ [i]) (ts[i := t]) m' ps' b'"
proof -
  have len: "length ts = length ops" and mem: "memory_ok W m ps b" and N: "length ps + length (filter may_publish ts) \<le> N"
    using inv by (simp_all add: race_inv_def)
  have thr: "thread_ok W (sh_heap m) ps b (ops ! j) (ts ! j)"
    and left: "halted (ts ! j) \<or> count_list is j + moves_left N ps (ts ! j) \<le> N + 257" if "j < length ops" for j
    using inv that by (simp_all add: race_inv_def)
  have own: "own_node (ts ! j) \<noteq> None \<Longrightarrow> own_node (ts ! j) \<noteq> own_node (ts ! k)"
    if "j < length ops" "k < length ops" "j \<noteq> k" for j k
    using inv that by (simp add: race_inv_def)
  have ii: "i < length ops" and short: "length ps \<le> N" using i len N by simp_all
  have "op_ok W (ops ! i)" using ops ii by (simp add: list_all_length)
  from thread_step_effect [OF mem thr [OF ii] this al n short step]
  obtain ps' b' where eff: "step_effect W N (ops ! i) m ps b (ts ! i) m' ps' b' t" by blast
  have other: "thread_ok W (sh_heap m') ps' b' (ops ! j) (ts ! j)" "moves_left N ps' (ts ! j) = moves_left N ps (ts ! j)"
    "own_node (ts ! j) \<noteq> None \<Longrightarrow> own_node (ts ! j) \<noteq> own_node t" if "j < length ops" "j \<noteq> i" for j
    using effect_other [OF eff thr [OF that(1)] own [OF that(1) ii that(2)] mem] by blast+
  have "length (filter may_publish (ts[i := t])) + of_bool (may_publish (ts ! i))
      = length (filter may_publish ts) + of_bool (may_publish t)"
    using i by (rule length_filter_update)
  moreover have "length ps' + of_bool (may_publish t) \<le> length ps + of_bool (may_publish (ts ! i))"
    using eff by (simp add: step_effect_def)
  ultimately have "length ps' + length (filter may_publish (ts[i := t])) \<le> N" using N by linarith
  moreover have "halted (ts[i := t] ! j) \<or> count_list (is @ [i]) j + moves_left N ps' (ts[i := t] ! j) \<le> N + 257"
    if j: "j < length ops" for j
  proof (cases "j = i")
    case True
    have "halted t" if "halted (ts ! i)" using that step halted_step [OF that, of n al m] by simp
    then show ?thesis using True eff left [OF j] i by (auto simp: step_effect_def)
  next
    case False
    then show ?thesis using other(2) [of j] left [OF j] j i len by auto
  qed
  moreover have "thread_ok W (sh_heap m') ps' b' (ops ! j) (ts[i := t] ! j)" if "j < length ops" for j
    using eff other(1) [of j] that i len by (cases "j = i") (auto simp: step_effect_def)
  moreover have "own_node (ts[i := t] ! j) \<noteq> own_node (ts[i := t] ! k)"
    if "j < length ops" "k < length ops" "j \<noteq> k" "own_node (ts[i := t] ! j) \<noteq> None" for j k
  proof (cases "j = i")
    case True
    then show ?thesis using that other(3) [of k] i len by (cases "own_node (ts ! k)") auto
  next
    case False
    then show ?thesis using that other(3) [of j] own [of j k] i len by (cases "k = i") auto
  qed
  moreover have "memory_ok W m' ps' b'" using eff by (simp add: step_effect_def)
  ultimately show ?thesis using len unfolding race_inv_def by (intro exI [of _ ps'] exI [of _ b']) simp
qed

lemma race_inv_run:
  assumes "race n (map Begin ops, m) is (ts, m')" and "race_inv W N ops [] (map Begin ops) m ps b" and "64 \<le> n"
    and "list_all (op_ok W) ops"
  shows "\<exists>ps' b'. race_inv W N ops is ts m' ps' b'"
  using assms
proof (induction "is" "(ts, m')" arbitrary: ts m' rule: race.induct)
  case race_start
  then show ?case by blast
next
  case (race_step "is" ts m1 i al t m2)
  then obtain ps1 b1 where "race_inv W N ops is ts m1 ps1 b1" by blast
  from race_inv_step [OF this race_step.hyps(3-5) race_step.prems(2,3)] show ?case .
qed

section \<open>From tables to the invariant and back\<close>

text \<open>The bytes sets may store on top of a table: keys cut to 63 bytes, values to 255 and padded with NULs.\<close>

definition written :: "table_op list \<Rightarrow> storage_db \<Rightarrow> byte_writes" where
  "written ops db = {(take 63 key, j, value_byte val j) | key val j. Op_Set key val \<in> set ops \<and> j < 256}
     \<union> {(cstr (node_key nd), j, node_value nd ! j) | nd j. (\<exists>chain \<in> set (buckets db). nd \<in> set chain) \<and> j < 256}"

fun set_or_get :: "table_op \<Rightarrow> bool" where
  "set_or_get (Op_Set key val) = (is_cstr key \<and> is_cstr val)"
| "set_or_get (Op_Get key) = True"
| "set_or_get Op_Flush = False"

text \<open>The same for keys that have a bucket.\<close>

fun race_op :: "table_op \<Rightarrow> bool" where
  "race_op (Op_Set key val) = (is_cstr key \<and> is_cstr val \<and> unat (hash key) < 1000)"
| "race_op (Op_Get key) = (unat (hash key) < 1000)"
| "race_op Op_Flush = False"

lemma race_op_set_or_get: "race_op op \<Longrightarrow> set_or_get op"
  by (cases op) auto

lemma race_ops_ok: "list_all set_or_get ops \<Longrightarrow> list_all (op_ok (written ops db)) ops"
proof -
  have "set_or_get op \<Longrightarrow> op \<in> set ops \<Longrightarrow> op_ok (written ops db) op" for op
    by (cases op) (auto simp: written_def)
  then show "list_all set_or_get ops \<Longrightarrow> list_all (op_ok (written ops db)) ops" by (auto simp: list_all_iff)
qed

lemma published_chain:
  assumes "chain_at h p as" and "\<And>a. a \<in> set as \<Longrightarrow> b a = i \<and> (\<exists>c. h a = Some c \<and> cell_holds W c)"
    and "distinct (as @ rest)" and "published W h b rest"
  shows "published W h b (as @ rest) \<and> points b i (set (as @ rest)) p"
  using assms
proof (induction as arbitrary: p)
  case (Cons a as)
  obtain c where c: "p = Some a" "h a = Some c" "chain_at h (cell_next c) as" using Cons.prems(1) by auto
  then have holds: "cell_holds W c" "b a = i" using Cons.prems(2) [of a] by auto
  have "published W h b (as @ rest) \<and> points b i (set (as @ rest)) (cell_next c)"
    by (rule Cons.IH [OF c(3)]) (use Cons.prems in auto)
  then show ?case using c holds Cons.prems(3) by (auto simp: points_def)
qed (simp add: points_def)

lemma distinct_concat_nth:
  "(\<And>i. i < length xss \<Longrightarrow> distinct (xss ! i)) \<Longrightarrow>
   (\<And>i j. i < length xss \<Longrightarrow> j < length xss \<Longrightarrow> i \<noteq> j \<Longrightarrow> set (xss ! i) \<inter> set (xss ! j) = {}) \<Longrightarrow> distinct (concat xss)"
proof (induction xss)
  case (Cons xs xss)
  have "distinct (concat xss)"
    by (rule Cons.IH) (use Cons.prems(1) [of "Suc _"] Cons.prems(2) [of "Suc _" "Suc _"] in auto)
  moreover have "set xs \<inter> set ys = {}" if "ys \<in> set xss" for ys
    using that Cons.prems(2) [of 0 "Suc _"] by (fastforce simp: in_set_conv_nth)
  ultimately show ?case using Cons.prems(1) [of 0] by auto
qed simp

lemma published_buckets:
  assumes "\<And>as. as \<in> set ass \<Longrightarrow> \<exists>p i. chain_at h p as \<and> (\<forall>a \<in> set as. b a = i \<and> (\<exists>c. h a = Some c \<and> cell_holds W c))"
    and "distinct (concat ass)"
  shows "published W h b (concat ass)"
  using assms
proof (induction ass)
  case (Cons as ass)
  obtain p i where "chain_at h p as" "\<And>a. a \<in> set as \<Longrightarrow> b a = i \<and> (\<exists>c. h a = Some c \<and> cell_holds W c)"
    using Cons.prems(1) [of as] by auto
  then show ?case
    using published_chain [of h p as b i W "concat ass"] Cons by auto
qed simp

lemma chain_points: "chain_at h p as \<Longrightarrow> (\<And>a. a \<in> set as \<Longrightarrow> a \<in> A \<and> b a = i) \<Longrightarrow> points b i A p"
  by (cases as) (auto simp: points_def)

lemma table_memory_ok:
  assumes t: "table_at m ass db" and "db_wf db" and "value_arrays db"
  shows "\<exists>b. memory_ok (written ops db) m (concat ass) b"
proof -
  define b where "b a = (THE i. i < 1000 \<and> a \<in> set (ass ! i))" for a
  have len: "length ass = 1000" using t by (simp add: table_at_def)
  have b: "b a = i" if "i < 1000" "a \<in> set (ass ! i)" for a i
  proof -
    have uniq: "j = i" if "j < 1000" "a \<in> set (ass ! j)" for j
    proof (rule ccontr)
      assume "j \<noteq> i"
      then have "set (ass ! j) \<inter> set (ass ! i) = {}" using t that(1) \<open>i < 1000\<close> by (simp add: table_at_def)
      then show False using that(2) \<open>a \<in> set (ass ! i)\<close> by blast
    qed
    show ?thesis unfolding b_def by (rule the_equality) (use that uniq in blast)+
  qed
  have chain: "chain_at (sh_heap m) (sh_heads m ! i) (ass ! i)" if "i < 1000" for i
    using t that by (simp add: table_at_def)
  have holds: "\<exists>c. sh_heap m a = Some c \<and> cell_holds (written ops db) c" if "i < 1000" "a \<in> set (ass ! i)" for a i
  proof -
    have "sh_heap m a \<noteq> None" by (rule chain_allocated [OF chain [OF that(1)] that(2)])
    then obtain c where c: "sh_heap m a = Some c" by blast
    have "cell_node c \<in> set (nodes_at (sh_heap m) (ass ! i))"
      using c that(2) by (force simp: nodes_at_def)
    then have nd: "cell_node c \<in> set (buckets db ! i)" using table_at_bucket [OF t that(1)] by simp
    have "buckets db ! i \<in> set (buckets db)" using table_at_length [OF t] that(1) by simp
    then have "cell_holds (written ops db) c"
      using nd assms(2,3) unfolding cell_holds_def written_def db_wf_def value_arrays_def by blast
    then show ?thesis using c by blast
  qed
  have "distinct (concat ass)"
    by (rule distinct_concat_nth) (use t len in \<open>auto simp: table_at_def\<close>)
  moreover have "\<exists>p i. chain_at (sh_heap m) p as \<and> (\<forall>a \<in> set as. b a = i
      \<and> (\<exists>c. sh_heap m a = Some c \<and> cell_holds (written ops db) c))" if as: "as \<in> set ass" for as
  proof -
    obtain i where "i < 1000" "as = ass ! i" using as len by (auto simp: in_set_conv_nth)
    then show ?thesis using chain b holds by blast
  qed
  ultimately have "published (written ops db) (sh_heap m) b (concat ass)" by (intro published_buckets) auto
  moreover have "points b i (set (concat ass)) (sh_heads m ! i)" if "i < 1000" for i
    by (rule chain_points [OF chain [OF that]]) (use that len b in auto)
  ultimately show ?thesis using t by (auto simp: memory_ok_def table_at_def)
qed

lemma chain_unique: "chain_at h p as \<Longrightarrow> chain_at h p bs \<Longrightarrow> as = bs"
proof (induction as arbitrary: p bs)
  case Nil
  then show ?case by (cases bs) auto
next
  case (Cons a as)
  then show ?case by (cases bs) auto
qed

lemma chain_append: "chain_at h p (xs @ ys) \<Longrightarrow> \<exists>q. chain_at h q ys"
  by (induction xs arbitrary: p) auto

lemma chain_distinct: "chain_at h p as \<Longrightarrow> distinct as"
proof (induction as arbitrary: p)
  case (Cons a as)
  obtain c where c: "p = Some a" "h a = Some c" "chain_at h (cell_next c) as" using Cons.prems by auto
  have "a \<notin> set as"
  proof
    assume "a \<in> set as"
    then obtain xs ys where as: "as = xs @ a # ys" by (auto simp: in_set_conv_decomp)
    then obtain q where "chain_at h q (a # ys)" using chain_append [of h _ xs] c(3) by blast
    then have "chain_at h p (a # ys)" using c(1) by simp
    with Cons.prems have "a # as = a # ys" by (rule chain_unique)
    then show False using as by simp
  qed
  then show ?case using Cons.IH [OF c(3)] by simp
qed simp

lemma points_chain:
  assumes "published W h b ps"
  shows "points b i (set ps) p \<Longrightarrow> \<exists>as. chain_at h p as \<and> (\<forall>a \<in> set as. a \<in> set ps \<and> b a = i)"
proof (induction "case p of None \<Rightarrow> 0 | Some a \<Rightarrow> nodes_from ps a" arbitrary: p rule: less_induct)
  case less
  show ?case
  proof (cases p)
    case None
    then show ?thesis by (intro exI [of _ "[]"]) simp
  next
    case (Some a)
    then have a: "a \<in> set ps" "b a = i" using less.prems by (auto simp: points_def)
    from published_cell [OF assms a(1)] obtain c where c: "h a = Some c" "points b (b a) (set ps) (cell_next c)"
      "\<And>a'. cell_next c = Some a' \<Longrightarrow> nodes_from ps a' < nodes_from ps a"
      by blast
    have "(case cell_next c of None \<Rightarrow> 0 | Some a \<Rightarrow> nodes_from ps a) < (case p of None \<Rightarrow> 0 | Some a \<Rightarrow> nodes_from ps a)"
      using c(3) nodes_from_pos [OF a(1)] Some by (auto split: option.splits)
    from less.hyps [OF this] c(2) a(2) obtain as where "chain_at h (cell_next c) as" "\<forall>a \<in> set as. a \<in> set ps \<and> b a = i"
      by blast
    then show ?thesis using Some a c(1) by (intro exI [of _ "a # as"]) auto
  qed
qed

text \<open>Any memory that satisfies the invariant holds a well-formed table.\<close>

lemma memory_ok_table:
  assumes "memory_ok W m ps b"
  shows "\<exists>db. represents (m\<lparr>sh_size := db_size db\<rparr>) db \<and> db_wf db
    \<and> (\<forall>chain \<in> set (buckets db). \<forall>nd \<in> set chain. \<forall>j < 256. (cstr (node_key nd), j, node_value nd ! j) \<in> W)"
proof -
  have pub: "published W (sh_heap m) b ps" using assms by (simp add: memory_ok_def)
  have "\<forall>i. \<exists>as. i < 1000 \<longrightarrow> chain_at (sh_heap m) (sh_heads m ! i) as \<and> (\<forall>a \<in> set as. a \<in> set ps \<and> b a = i)"
    using points_chain [OF pub head_points [OF assms]] by blast
  then obtain f where f: "\<And>i. i < 1000 \<Longrightarrow> chain_at (sh_heap m) (sh_heads m ! i) (f i)
      \<and> (\<forall>a \<in> set (f i). a \<in> set ps \<and> b a = i)" by metis
  define ass where "ass = map f [0..<1000]"
  define bs where "bs = map (nodes_at (sh_heap m)) ass"
  define db where "db = \<lparr>buckets = bs, db_size = of_nat (sum_list (map length bs))\<rparr>"
  have nth: "ass ! i = f i" if "i < 1000" for i using that by (simp add: ass_def)
  have "table_at (m\<lparr>sh_size := db_size db\<rparr>) ass db"
    unfolding table_at_def
  proof (intro conjI allI impI)
    show "length (sh_heads (m\<lparr>sh_size := db_size db\<rparr>)) = 1000" using assms by (simp add: memory_ok_def)
    show "length ass = 1000" by (simp add: ass_def)
    show "buckets db = map (nodes_at (sh_heap (m\<lparr>sh_size := db_size db\<rparr>))) ass" by (simp add: db_def bs_def)
    fix i :: nat assume i: "i < 1000"
    show "chain_at (sh_heap (m\<lparr>sh_size := db_size db\<rparr>)) (sh_heads (m\<lparr>sh_size := db_size db\<rparr>) ! i) (ass ! i)"
      using f [OF i] by (simp add: nth [OF i])
    then show "distinct (ass ! i)" by (rule chain_distinct)
    fix j :: nat assume "j < 1000" "i \<noteq> j"
    then show "set (ass ! i) \<inter> set (ass ! j) = {}" using f [OF i] f [of j] by (auto simp: nth i)
  qed simp
  note table = this
  have cells: "node_wf nd \<and> value_array (node_value nd) \<and> (\<forall>j < 256. (cstr (node_key nd), j, node_value nd ! j) \<in> W)"
    if "chain \<in> set (buckets db)" "nd \<in> set chain" for chain nd
  proof -
    note nd = that(2)
    have "chain \<in> (\<lambda>i. nodes_at (sh_heap m) (f i)) ` {0..<1000}"
      using that(1) by (simp add: db_def bs_def ass_def image_image)
    then obtain i where i: "i < 1000" "chain = nodes_at (sh_heap m) (f i)" by auto
    then obtain a where "a \<in> set ps" "nd = cell_node (the (sh_heap m a))"
      using nd f [OF i(1)] by (auto simp: nodes_at_def)
    then show ?thesis using published_cell [OF pub] by (fastforce simp: cell_holds_def)
  qed
  then have "represents (m\<lparr>sh_size := db_size db\<rparr>) db" using table by (auto simp: represents_def value_arrays_def)
  moreover have "db_wf db" using cells by (simp add: db_wf_def node_count_def) (simp add: db_def bs_def ass_def)
  ultimately show ?thesis using cells by blast
qed

lemma race_start_inv:
  assumes "represents m db" and "db_wf db" and "64 \<le> n" and "list_all set_or_get ops"
    and "race n (map Begin ops, m) is (ts, m')"
  shows "\<exists>ps b. race_inv (written ops db) (node_count db + length ops) ops is ts m' ps b"
proof -
  obtain ass where t: "table_at m ass db" "value_arrays db" using assms(1) by (auto simp: represents_def)
  obtain b where "memory_ok (written ops db) m (concat ass) b" using table_memory_ok [OF t(1) assms(2) t(2)] by blast
  moreover have "length (filter may_publish (map Begin ops)) = length ops" by (induction ops) simp_all
  ultimately have "race_inv (written ops db) (node_count db + length ops) ops [] (map Begin ops) m (concat ass) b"
    using table_at_nodes(1) [OF t(1)] by (auto simp: race_inv_def)
  then show ?thesis using race_inv_run [OF assms(5) _ assms(3) race_ops_ok [OF assms(4)]] by blast
qed

text \<open>C19:
  Any number of sets and gets on one table, their memory accesses interleaved in any order, values byte by byte:
  the only fault is the one a thread alone has too, the read of bucket 1000 by a thread whose key hashes there;
  in particular none ever touches memory that is not allocated or reads past a value. A get that finds its key
  returns at most 255 bytes, each of them and the terminating NUL stored at its index, under this key, by one of
  the sets or in the table at the start (the bytes may come from different sets), and at every moment the memory
  holds a well-formed table with nothing else in it (its size field apart). The 63-byte prefix counts as the key
  a longer one is stored under; \<open>n\<close> is the third argument of \<open>strncmp\<close> that the source leaves out, at least 64.
\<close>

theorem store_race_safe:
  assumes "represents m db" and "db_wf db" and "64 \<le> n" and "list_all set_or_get ops"
    and "race n (map Begin ops, m) is (ts, m')" and "i < length ops"
  shows "(case ts ! i of
         Broken f \<Rightarrow> f = Index_Fault 1000 \<and> (\<exists>key. op_key (ops ! i) = Some key \<and> unat (hash key) = 1000)
       | Done (Get_Result (Some v)) \<Rightarrow> (\<exists>key. ops ! i = Op_Get key \<and> stored_value (written ops db) key v)
       | _ \<Rightarrow> True)
    \<and> (\<exists>db'. represents (m'\<lparr>sh_size := db_size db'\<rparr>) db' \<and> db_wf db'
         \<and> (\<forall>chain \<in> set (buckets db'). \<forall>nd \<in> set chain. \<forall>j < 256.
              (cstr (node_key nd), j, node_value nd ! j) \<in> written ops db))"
proof -
  obtain ps b where inv: "race_inv (written ops db) (node_count db + length ops) ops is ts m' ps b"
    using race_start_inv [OF assms(1-5)] by blast
  then have "thread_ok (written ops db) (sh_heap m') ps b (ops ! i) (ts ! i)" using assms(6) by (simp add: race_inv_def)
  then have "case ts ! i of
         Broken f \<Rightarrow> f = Index_Fault 1000 \<and> (\<exists>key. op_key (ops ! i) = Some key \<and> unat (hash key) = 1000)
       | Done (Get_Result (Some v)) \<Rightarrow> (\<exists>key. ops ! i = Op_Get key \<and> stored_value (written ops db) key v)
       | _ \<Rightarrow> True"
    by (cases "ops ! i") (auto split: store_pc.splits store_result.splits option.splits)
  moreover have "memory_ok (written ops db) m' ps b" using inv by (simp add: race_inv_def)
  ultimately show ?thesis using memory_ok_table by blast
qed

text \<open>One thread that sets a key of the empty table, on its own.\<close>

lemma count_replicate: "count_list (replicate k x) x = k"
  by (induction k) simp_all

lemma sample_race:
  "\<exists>is m'. race 64 (map Begin [Op_Set ''a'' ''1''], start_memory) is ([Done (Set_Result True)], m') \<and> count_list is 0 = 258"
proof -
  let ?m1 = "start_memory\<lparr>sh_heap := (sh_heap start_memory)(3 \<mapsto>
     \<lparr>cell_node = fill_node ''a'' ''1'', cell_next = sh_heads start_memory ! unat (hash ''a'')\<rparr>)\<rparr>"
  let ?m2 = "?m1\<lparr>sh_heads := (sh_heads ?m1)[unat (hash ''a'') := Some 3], sh_size := sh_size ?m1 + 1\<rparr>"
  have "alone 64 (Some 3) (length (replicate 1000 [] ! unat (hash ''a'') :: nat list) + 3) (Begin (Op_Set ''a'' ''1''), start_memory)
      (Publish ''a'' ''1'' 3, ?m1)"
    by (rule alone_publish [OF start_memory_table]) (simp_all add: hash_eval start_memory_def g_storage_def)
  from alone_trans [OF this alone_published] have "alone 64 (Some 3) 6 (Begin (Op_Set ''a'' ''1''), start_memory) (Done (Set_Result True), ?m2)"
    by (simp add: hash_eval)
  then have "alone 64 (Some 3) 6 (map Begin [Op_Set ''a'' ''1''] ! 0, start_memory) (Done (Set_Result True), ?m2)" by simp
  from race_solo [OF this race_start] have six: "race 64 (map Begin [Op_Set ''a'' ''1''], start_memory) (replicate 6 0)
      ([Done (Set_Result True)], ?m2)" by simp
  have "alone n al k (Done r, m) (Done r, m)" for n al k r m
    by (induction k) (auto intro: alone.intros)
  from race_solo [OF _ six, of "Some 3" 252 0 "Done (Set_Result True)" ?m2] this
  have "race 64 (map Begin [Op_Set ''a'' ''1''], start_memory) (replicate 6 0 @ replicate 252 0)
      ([Done (Set_Result True)][0 := Done (Set_Result True)], ?m2)" by simp
  then show ?thesis by (intro exI [of _ "replicate 6 0 @ replicate 252 0"] exI [of _ ?m2])
      (simp add: count_replicate)
qed

lemma sample_facts: "represents start_memory g_storage" "list_all race_op [Op_Set ''a'' ''1'']" "node_count g_storage = 0"
  using start_memory_represents
  by (auto simp: is_cstr_def hash_eval node_count_def g_storage_def sum_list_replicate)

theorem store_race_safe_witness:
  "\<exists>is m'. race 64 (map Begin [Op_Set ''a'' ''1''], start_memory) is ([Done (Set_Result True)], m')
    \<and> (\<exists>db'. represents (m'\<lparr>sh_size := db_size db'\<rparr>) db' \<and> db_wf db')"
proof -
  obtain "is" m' where r: "race 64 (map Begin [Op_Set ''a'' ''1''], start_memory) is ([Done (Set_Result True)], m')"
    using sample_race by blast
  have "list_all set_or_get [Op_Set ''a'' ''1'']" by simp
  from store_race_safe [OF sample_facts(1) db_wf_init order_refl this r, of 0] r show ?thesis by auto
qed

text \<open>C37:
  Sets and gets of keys that have a bucket are wait-free: a thread has ended after as many of its own steps as
  there are nodes and threads, and 257, whatever the others do; 256 of them are the accesses to the bytes of a value.
\<close>

theorem store_race_wait_free:
  assumes "represents m db" and "db_wf db" and "64 \<le> n" and "list_all race_op ops"
    and "race n (map Begin ops, m) is (ts, m')" and "i < length ops"
    and "node_count db + length ops + 257 \<le> count_list is i"
  shows "\<exists>r. ts ! i = Done r"
proof -
  have ops: "list_all set_or_get ops" using assms(4) race_op_set_or_get by (auto simp: list_all_iff)
  obtain ps b where inv: "race_inv (written ops db) (node_count db + length ops) ops is ts m' ps b"
    using race_start_inv [OF assms(1-3) ops assms(5)] by blast
  then have thr: "thread_ok (written ops db) (sh_heap m') ps b (ops ! i) (ts ! i)"
    and left: "halted (ts ! i) \<or> count_list is i + moves_left (node_count db + length ops) ps (ts ! i)
        \<le> node_count db + length ops + 257"
    using assms(6) by (simp_all add: race_inv_def)
  have "race_op (ops ! i)" using assms(4,6) by (simp add: list_all_length)
  then have no_fault: "ts ! i \<noteq> Broken f" for f using thr by (cases "ops ! i") auto
  have "0 < moves_left (node_count db + length ops) ps (ts ! i) \<or> halted (ts ! i)"
    using thr by (cases "ts ! i") (auto split: option.splits)
  then show ?thesis using left assms(7) no_fault by (cases "ts ! i") auto
qed

theorem store_race_wait_free_witness:
  "\<exists>is m'. race 64 (map Begin [Op_Set ''a'' ''1''], start_memory) is ([Done (Set_Result True)], m') \<and> count_list is 0 = 258
    \<and> (\<exists>r. [Done (Set_Result True)] ! 0 = Done r)"
proof -
  obtain "is" m' where r: "race 64 (map Begin [Op_Set ''a'' ''1''], start_memory) is ([Done (Set_Result True)], m')"
    "count_list is 0 = 258"
    using sample_race by blast
  have "node_count g_storage + length [Op_Set ''a'' ''1''] + 257 \<le> count_list is 0" using r(2) sample_facts(3) by simp
  from store_race_wait_free [OF sample_facts(1) db_wf_init order_refl sample_facts(2) r(1) _ this] r show ?thesis by auto
qed

end
