(* ===== verification/Storage_Anomalies.thy ===== *)
theory Storage_Anomalies
  imports Storage_Races
begin

text \<open>
  What goes wrong when threads share the table without a lock: schedules that exist for every table. The
  theorems of \<open>Storage_Races\<close> say what cannot go wrong.
\<close>

text \<open>One more thread runs alone for a while.\<close>

lemma race_extend:
  assumes "\<exists>is. race n c0 is (ts, m)" and "alone n al k (ts ! i, m) (t, m')" and "i < length ts" and "ts' = ts[i := t]"
  shows "\<exists>is. race n c0 is (ts', m')"
  using assms race_solo by blast

lemma race_begin: "\<exists>is. race n (map Begin ops, m) is (map Begin ops, m)"
  using race_start by blast

text \<open>A private node is not in the table.\<close>

lemma table_at_private:
  assumes "table_at m ass db" and "sh_heap m a = None"
  shows "table_at (m\<lparr>sh_heap := (sh_heap m)(a \<mapsto> c)\<rparr>) ass db"
proof -
  have free: "a \<notin> set as" if "as \<in> set ass" for as
  proof -
    note mem = that
    have "length ass = 1000" using assms(1) by (simp add: table_at_def)
    then obtain i where "i < 1000" "as = ass ! i" using mem unfolding in_set_conv_nth by auto
    then have "chain_at (sh_heap m) (sh_heads m ! i) as" using assms(1) by (simp add: table_at_def)
    then show ?thesis using chain_allocated assms(2) by fastforce
  qed
  have "nodes_at ((sh_heap m)(a \<mapsto> c)) as = nodes_at (sh_heap m) as" if "as \<in> set ass" for as
    by (rule nodes_at_frame) (use free [OF that] in auto)
  then have "map (nodes_at ((sh_heap m)(a \<mapsto> c))) ass = map (nodes_at (sh_heap m)) ass" by simp
  moreover have "chain_at ((sh_heap m)(a \<mapsto> c)) (sh_heads m ! i) (ass ! i)" if "i < 1000" for i
  proof -
    have c: "chain_at (sh_heap m) (sh_heads m ! i) (ass ! i)" and "ass ! i \<in> set ass"
      using assms(1) that by (simp_all add: table_at_def)
    then have "a \<notin> set (ass ! i)" using free by blast
    then show ?thesis by (intro chain_at_frame [OF c]) auto
  qed
  ultimately show ?thesis using assms(1) by (simp add: table_at_def)
qed

section \<open>Lost keys\<close>

lemma lookup_size [simp]: "storage_lookup (db\<lparr>db_size := s\<rparr>) = storage_lookup db"
  by (auto simp: storage_lookup_eq fun_eq_iff)

lemma absent_in_chain:
  assumes "db_fits db" and "unat (hash key) < 1000" and "storage_lookup db key = None"
  shows "set_in_chain (buckets db ! unat (hash key)) key val = None"
proof -
  have "length (buckets db) = 1000" using assms(1) by (simp add: db_fits_def db_wf_def)
  moreover from this have "\<forall>nd \<in> set (buckets db ! unat (hash key)). node_wf nd"
    using bucket_nodes_wf [OF db_fits_wf [OF assms(1)]] assms(2) by simp
  ultimately show ?thesis
    using assms(2,3) by (auto simp: storage_lookup_eq get_in_chain_None_iff set_in_chain_None_iff)
qed

text \<open>The table after a set of a new key.\<close>

lemma lookup_insert:
  assumes "db_fits db" and "fits_key key" and "is_cstr val" and "unat (hash key) < 1000" and "storage_lookup db key = None"
  shows "storage_lookup (db\<lparr>buckets := (buckets db)[unat (hash key) := fill_node key val # buckets db ! unat (hash key)],
    db_size := s\<rparr>) = (storage_lookup db)(key \<mapsto> take 255 val)"
proof -
  let ?db = "db\<lparr>buckets := (buckets db)[unat (hash key) := fill_node key val # buckets db ! unat (hash key)],
    db_size := db_size db + 1\<rparr>"
  have len: "length (buckets db) = 1000" using assms(1) by (simp add: db_fits_def db_wf_def)
  have "storage_set True db key val = Inr (True, ?db)"
    using absent_in_chain [OF assms(1,4,5)] assms(4) len by (simp add: storage_set_def bucket_at_def Let_def)
  from storage_set_lookup [OF db_fits_wf [OF assms(1)] _ assms(3) this] assms(2)
  have "storage_lookup ?db = (storage_lookup db)(key \<mapsto> take 255 val)"
    by (auto simp: fits_key_def fun_eq_iff)
  then show ?thesis using lookup_size [where db = ?db and s = s] by simp
qed

text \<open>C35:
  Lost update: for every table and any two new keys of one bucket there is an order in which two threads set one
  key each, both report success and \<^verbatim>\<open>size\<close> counts both, but the memory ends up with the table that the first
  alone would leave: the other key is gone.
\<close>

theorem store_race_loses:
  assumes "represents m db" and "db_fits db" and "sh_heap m a = None" and "sh_heap m a' = None" and "a \<noteq> a'"
    and "fits_key key" and "fits_key key'" and "is_cstr val" and "is_cstr val'"
    and "unat (hash key) < 1000" and "unat (hash key') = unat (hash key)"
    and "storage_lookup db key = None" and "storage_lookup db key' = None"
  shows "\<exists>is m' db'. race n (map Begin [Op_Set key val, Op_Set key' val'], m) is
      ([Done (Set_Result True), Done (Set_Result True)], m')
    \<and> represents m' db' \<and> storage_lookup db' = (storage_lookup db)(key \<mapsto> take 255 val)
    \<and> db_size db' = db_size db + 2"
proof -
  obtain ass where t: "table_at m ass db" and arrays: "value_arrays db" using assms(1) by (auto simp: represents_def)
  let ?i = "unat (hash key)"
  let ?c = "\<lparr>cell_node = fill_node key val, cell_next = sh_heads m ! ?i\<rparr>"
  let ?c' = "\<lparr>cell_node = fill_node key' val', cell_next = sh_heads m ! ?i\<rparr>"
  let ?m1 = "m\<lparr>sh_heap := (sh_heap m)(a \<mapsto> ?c)\<rparr>"
  let ?m2 = "m\<lparr>sh_heap := (sh_heap m)(a \<mapsto> ?c, a' \<mapsto> ?c'), sh_heads := (sh_heads m)[?i := Some a'], sh_size := sh_size m + 1\<rparr>"
  let ?m3 = "m\<lparr>sh_heap := (sh_heap m)(a \<mapsto> ?c, a' \<mapsto> ?c'), sh_heads := (sh_heads m)[?i := Some a], sh_size := sh_size m + 2\<rparr>"
  have first: "alone n (Some a) (length (ass ! ?i) + 3) (Begin (Op_Set key val), m) (Publish key val a, ?m1)"
    by (rule alone_publish [OF t assms(10,3)]) (rule absent_in_chain [OF assms(2,10,12)])
  have t1: "table_at ?m1 ass db" by (rule table_at_private [OF t assms(3)])
  have "alone n (Some a') (length (ass ! ?i) + 3) (Begin (Op_Set key' val'), ?m1)
      (Publish key' val' a', ?m1\<lparr>sh_heap := (sh_heap ?m1)(a' \<mapsto> ?c')\<rparr>)"
    using alone_publish [OF t1, of key' a' val' n] absent_in_chain [OF assms(2) _ assms(13), of val'] assms(4,5,10,11)
    by simp
  from alone_trans [OF this alone_published]
  have second: "alone n (Some a') (length (ass ! ?i) + 3 + 3) (Begin (Op_Set key' val'), ?m1) (Done (Set_Result True), ?m2)"
    using assms(11) by simp
  have last: "alone n (Some a) 3 (Publish key val a, ?m2) (Done (Set_Result True), ?m3)"
    using alone_published [of n "Some a" key val a ?m2] by (simp add: add.assoc)
  let ?ts = "map Begin [Op_Set key val, Op_Set key' val']"
  have "\<exists>is. race n (?ts, m) is ([Publish key val a, Begin (Op_Set key' val')], ?m1)"
    by (rule race_extend [OF race_begin, where i = 0]) (use first in simp_all)
  then have "\<exists>is. race n (?ts, m) is ([Publish key val a, Done (Set_Result True)], ?m2)"
    by (rule race_extend [where i = 1]) (use second in simp_all)
  then have run: "\<exists>is. race n (?ts, m) is ([Done (Set_Result True), Done (Set_Result True)], ?m3)"
    by (rule race_extend [where i = 0]) (use last in simp_all)
  let ?db = "db\<lparr>buckets := (buckets db)[?i := fill_node key val # buckets db ! ?i], db_size := sh_size m + 2\<rparr>"
  let ?m0 = "m\<lparr>sh_heap := (sh_heap m)(a' \<mapsto> ?c')\<rparr>"
  have "table_at (?m0\<lparr>sh_heap := (sh_heap ?m0)(a \<mapsto> \<lparr>cell_node = fill_node key val, cell_next = sh_heads ?m0 ! ?i\<rparr>),
      sh_heads := (sh_heads ?m0)[?i := Some a], sh_size := sh_size m + 2\<rparr>) (ass[?i := a # ass ! ?i]) ?db"
    by (rule table_at_insert [OF table_at_private [OF t assms(4)] assms(10)]) (use assms(3,5) in simp)
  moreover have "(sh_heap m)(a' \<mapsto> ?c', a \<mapsto> ?c) = (sh_heap m)(a \<mapsto> ?c, a' \<mapsto> ?c')"
    using assms(5) by (intro fun_upd_twist) simp
  ultimately have "\<exists>ass. table_at ?m3 ass ?db" by (intro exI) simp
  moreover have "value_arrays ?db"
  proof -
    have "buckets db ! ?i \<in> set (buckets db)" using table_at_length [OF t] assms(10) by simp
    then have "\<forall>nd \<in> set (buckets db ! ?i). value_array (node_value nd)" using arrays unfolding value_arrays_def by blast
    then show ?thesis
      using arrays fill_node_array by (auto simp: value_arrays_def dest!: subsetD [OF set_update_subset_insert])
  qed
  ultimately have "represents ?m3 ?db" by (simp add: represents_def)
  moreover have "storage_lookup ?db = (storage_lookup db)(key \<mapsto> take 255 val)"
    by (rule lookup_insert [OF assms(2,6,8,10,12)])
  moreover have "db_size ?db = db_size db + 2" using t by (simp add: table_at_def)
  ultimately show ?thesis using run by blast
qed

lemma empty_size: "db_size g_storage = 0"
  by (simp add: g_storage_def)

theorem store_race_loses_witness:
  "\<exists>is m' db'. race 64 (map Begin [Op_Set ''a'' ''1'', Op_Set ''b'' ''2''], start_memory) is
      ([Done (Set_Result True), Done (Set_Result True)], m')
    \<and> represents m' db' \<and> storage_lookup db' = [''a'' \<mapsto> ''1''] \<and> db_size db' = 2"
proof -
  have "represents start_memory g_storage" by (rule start_memory_represents)
  then show ?thesis
    using store_race_loses [of start_memory g_storage 0 1 "''a''" "''b''" "''1''" "''2''" 64, OF _ db_fits_init]
    by (simp add: start_memory_def fits_key_def is_cstr_def hash_eval empty_size)
qed

section \<open>Torn values\<close>

lemma overwritten_prefix:
  assumes "value_array old" and "k \<le> length (cstr old)" and "k \<le> length val" and "is_cstr val"
  shows "value_array (overwritten val k old)" and "cstr (overwritten val k old) = take k val @ drop k (cstr old)"
proof -
  have k: "k \<le> 255" and len: "length old = 256" using assms(1,2) cstr_array [OF assms(1)] by (simp_all add: value_array_def)
  have front: "map (value_byte val) [0..<k] = take k val"
    using assms(3) k by (intro nth_equalityI) (simp_all add: value_byte_def)
  show "value_array (overwritten val k old)"
    using assms(1) k len by (auto simp: value_array_def overwritten_def nth_append)
  have "cstr (s @ t) = s @ cstr t" if "is_cstr s" for s t
    using that by (induction s) (simp_all add: cstr_Cons)
  moreover have "cstr (drop k s) = drop k (cstr s)" if "k \<le> length (cstr s)" for s
    using that
  proof (induction s arbitrary: k)
    case (Cons x s)
    then show ?case by (cases k) (auto simp: cstr_Cons split: if_splits)
  qed simp
  ultimately show "cstr (overwritten val k old) = take k val @ drop k (cstr old)"
    using assms(2,4) by (simp add: overwritten_def front)
qed

text \<open>A set and a get of a key in the table find the same node.\<close>

lemma set_and_get_meet:
  assumes t: "table_at m ass db" and wf: "db_wf db" and n: "64 \<le> n" and found: "storage_get n db key = Inr (Some v)"
  shows "\<exists>i j a c chain. unat (hash key) < 1000 \<and> a \<in> set (ass ! unat (hash key)) \<and> sh_heap m a = Some c
    \<and> v = cstr (node_value (cell_node c))
    \<and> alone n None i (Begin (Op_Get key), m) (Read_Value key a [], m)
    \<and> alone n None j (Begin (Op_Set key val), m) (Write_Value val a 0, m)
    \<and> set_in_chain (buckets db ! unat (hash key)) key val = Some chain
    \<and> chain = nodes_at ((sh_heap m)(a \<mapsto> with_value c (copy_field 256 (node_value (cell_node c)) val))) (ass ! unat (hash key))"
proof -
  let ?i = "unat (hash key)"
  have ix: "?i < 1000" using found table_at_length [OF t] by (auto simp: storage_get_def bucket_at_def split: if_splits)
  have chain: "chain_at (sh_heap m) (sh_heads m ! ?i) (ass ! ?i)" "distinct (ass ! ?i)"
    using t ix by (simp_all add: table_at_def)
  have nodes: "\<forall>nd \<in> set (nodes_at (sh_heap m) (ass ! ?i)). node_wf nd"
    using bucket_nodes_wf [OF wf] table_at_length [OF t] table_at_bucket [OF t ix] ix by simp
  have same: "take n (key_at (sh_heap m) b) = take n key \<longleftrightarrow> key_at (sh_heap m) b = key" if "b \<in> set (ass ! ?i)" for b
    using that nodes key_match [OF _ n] by (simp add: nodes_at_def)
  from alone_get_found [OF t ix found, of None] obtain i a c where g:
    "find (\<lambda>a. take n (key_at (sh_heap m) a) = take n key) (ass ! ?i) = Some a" "a \<in> set (ass ! ?i)" "sh_heap m a = Some c"
    "v = cstr (node_value (cell_node c))" "alone n None i (Begin (Op_Get key), m) (Read_Value key a [], m)"
    by blast
  have first: "find (\<lambda>a. key_at (sh_heap m) a = key) (ass ! ?i) = Some a"
    using g(1) same find_cong [of "ass ! ?i" "ass ! ?i" "\<lambda>a. take n (key_at (sh_heap m) a) = take n key" "\<lambda>a. key_at (sh_heap m) a = key"] by simp
  then have "key_at (sh_heap m) a = key" by (auto simp: find_Some_iff)
  then have "set_in_chain (nodes_at (sh_heap m) (ass ! ?i)) key val \<noteq> None"
    using g(2) by (auto simp: set_in_chain_None_iff nodes_at_def)
  then obtain chain' where "set_in_chain (nodes_at (sh_heap m) (ass ! ?i)) key val = Some chain'" by blast
  note new = this
  from alone_walk_set_Some [OF chain(1) new chain(2), of n None] first obtain j where
    j: "alone n None j (Walk (Op_Set key val) (sh_heads m ! ?i), m) (Write_Value val a 0, m)"
    "nodes_at ((sh_heap m)(a \<mapsto> with_value c (copy_field 256 (node_value (cell_node c)) val))) (ass ! ?i) = chain'"
    using g(3) by auto
  have "alone n None (Suc j) (Begin (Op_Set key val), m) (Write_Value val a 0, m)"
    using alone_begin [OF t _ ix j(1)] by simp
  then show ?thesis
    using ix g(2-5) new j(2) table_at_bucket [OF t ix] by (intro exI conjI) (assumption | simp)+
qed

text \<open>C26:
  Torn value: for every table, every key it holds and every new value there is an order of one SET and one GET of the
  key in which both succeed and the table ends up with the new value, but the GET returns the first \<open>k\<close> bytes of
  the new value followed by the rest of the old one, for any \<open>k\<close> up to the length of both; with \<^verbatim>\<open>strncpy\<close>
  writing from the front, byte by byte.
\<close>

theorem store_race_tears:
  assumes "represents m db" and "db_wf db" and "64 \<le> n" and "storage_get n db key = Inr (Some v)"
    and "is_cstr val" and "k \<le> length v" and "k \<le> length val"
  shows "\<exists>is m' db'. race n (map Begin [Op_Set key val, Op_Get key], m) is
      ([Done (Set_Result True), Done (Get_Result (Some (take k val @ drop k v)))], m')
    \<and> represents m' db' \<and> storage_get n db' key = Inr (Some (take 255 val))"
proof -
  obtain ass where t: "table_at m ass db" and arrays: "value_arrays db" using assms(1) by (auto simp: represents_def)
  let ?i = "unat (hash key)"
  from set_and_get_meet [OF t assms(2-4), of val] obtain i j a c chain where ix: "?i < 1000"
    and a: "a \<in> set (ass ! ?i)" "sh_heap m a = Some c" "v = cstr (node_value (cell_node c))"
    and get: "alone n None i (Begin (Op_Get key), m) (Read_Value key a [], m)"
    and set: "alone n None j (Begin (Op_Set key val), m) (Write_Value val a 0, m)"
    and chain: "set_in_chain (buckets db ! ?i) key val = Some chain"
      "chain = nodes_at ((sh_heap m)(a \<mapsto> with_value c (copy_field 256 (node_value (cell_node c)) val))) (ass ! ?i)"
    by blast
  let ?old = "node_value (cell_node c)"
  let ?m = "\<lambda>k. m\<lparr>sh_heap := (sh_heap m)(a \<mapsto> with_value c (overwritten val k ?old))\<rparr>"
  have array: "value_array ?old" by (rule table_node_array [OF t arrays ix a(1,2)])
  then have len: "length ?old = 256" and k: "k < 256" using cstr_array [OF array] assms(6) a(3) by (auto simp: value_array_def)
  note prefix = overwritten_prefix [OF array assms(6) [unfolded a(3)] assms(7,5)]
  have "alone n None k (Write_Value val a 0, m) (Write_Value val a k, ?m k)"
    using alone_write [OF a(2) len, of k n None val] k by (simp del: fun_upd_apply)
  from alone_trans [OF set this] have start: "alone n None (j + k) (Begin (Op_Set key val), m) (Write_Value val a k, ?m k)" .
  have tear: "alone n None (length (cstr (overwritten val k ?old)) + 1) (Read_Value key a [], ?m k)
      (Done (Get_Result (Some (take k val @ drop k v))), ?m k)"
    using alone_read [of "?m k" a "with_value c (overwritten val k ?old)" n None key] prefix a(3) by simp
  have finish: "alone n None (256 - k) (Write_Value val a k, ?m k) (Done (Set_Result True), ?m 256)"
    using alone_write_from [OF a(2) len, of k "256 - k" n None val] k by (simp del: fun_upd_apply)
  let ?ts = "map Begin [Op_Set key val, Op_Get key]"
  have "\<exists>is. race n (?ts, m) is ([Begin (Op_Set key val), Read_Value key a []], m)"
    by (rule race_extend [OF race_begin, where i = 1]) (use get in simp_all)
  then have "\<exists>is. race n (?ts, m) is ([Write_Value val a k, Read_Value key a []], ?m k)"
    by (rule race_extend [where i = 0]) (use start in simp_all)
  then have "\<exists>is. race n (?ts, m) is ([Write_Value val a k, Done (Get_Result (Some (take k val @ drop k v)))], ?m k)"
    by (rule race_extend [where i = 1]) (use tear in simp_all)
  then have run: "\<exists>is. race n (?ts, m) is ([Done (Set_Result True), Done (Get_Result (Some (take k val @ drop k v)))], ?m 256)"
    by (rule race_extend [where i = 0]) (use finish in simp_all)
  let ?db = "db\<lparr>buckets := (buckets db)[?i := chain]\<rparr>"
  have stored: "storage_set True db key val = Inr (True, ?db)"
    using chain(1) ix table_at_length [OF t] by (simp add: storage_set_def bucket_at_def Let_def)
  have "table_at (?m 256) ass ?db"
    using table_at_overwrite [OF t ix a(1,2), of "copy_field 256 ?old val"] chain(2) by (simp only: overwritten_all [OF len])
  then have "represents (?m 256) ?db" using storage_set_arrays [OF stored arrays] by (auto simp: represents_def)
  moreover have "storage_get n ?db key = Inr (Some (take 255 val))"
    using get_set_in_chain [OF chain(1) _ assms(3,5), of key] bucket_nodes_wf [OF assms(2)] ix table_at_length [OF t]
    by (simp add: storage_get_def bucket_at_def)
  ultimately show ?thesis using run by blast
qed

text \<open>A table of one key.\<close>

lemma one_key_table:
  "\<exists>db. represents (start_memory\<lparr>sh_heads := (replicate 1000 None)[96 := Some 0], sh_size := 1,
       sh_heap := [0 \<mapsto> \<lparr>cell_node = fill_node ''a'' ''1'', cell_next = None\<rparr>]\<rparr>) db \<and> db_wf db
     \<and> storage_get 64 db ''a'' = Inr (Some ''1'')"
proof -
  let ?m = "start_memory\<lparr>sh_heap := (sh_heap start_memory)(0 \<mapsto> \<lparr>cell_node = fill_node ''a'' ''1'', cell_next = sh_heads start_memory ! 96\<rparr>),
     sh_heads := (sh_heads start_memory)[96 := Some 0], sh_size := 1\<rparr>"
  let ?db = "g_storage\<lparr>buckets := (buckets g_storage)[96 := fill_node ''a'' ''1'' # buckets g_storage ! 96], db_size := 1\<rparr>"
  have "table_at ?m ((replicate 1000 [])[96 := 0 # (replicate 1000 []) ! 96]) ?db"
    by (rule table_at_insert [OF start_memory_table]) (simp_all add: start_memory_def)
  moreover have set: "storage_set True g_storage ''a'' ''1'' = Inr (True, ?db)"
    by (simp add: storage_set_def bucket_at_def hash_eval g_storage_def Let_def)
  ultimately have "represents ?m ?db"
    using storage_set_arrays [OF set value_arrays_init] by (auto simp: represents_def)
  moreover have "db_wf ?db" by (rule storage_set_wf [OF db_wf_init set]) simp_all
  moreover have "storage_get 64 ?db ''a'' = Inr (Some ''1'')"
    by (simp add: storage_get_def bucket_at_def hash_eval g_storage_def)
  ultimately show ?thesis by (intro exI [of _ ?db]) (simp add: start_memory_def)
qed

theorem store_race_tears_witness:
  "\<exists>is m' db'. race 64 (map Begin [Op_Set ''a'' ''23'', Op_Get ''a''], start_memory\<lparr>sh_heads := (replicate 1000 None)[96 := Some 0],
       sh_size := 1, sh_heap := [0 \<mapsto> \<lparr>cell_node = fill_node ''a'' ''1'', cell_next = None\<rparr>]\<rparr>) is
      ([Done (Set_Result True), Done (Get_Result (Some ''2''))], m')
    \<and> represents m' db' \<and> storage_get 64 db' ''a'' = Inr (Some ''23'')"
proof -
  obtain db where "represents (start_memory\<lparr>sh_heads := (replicate 1000 None)[96 := Some 0], sh_size := 1,
       sh_heap := [0 \<mapsto> \<lparr>cell_node = fill_node ''a'' ''1'', cell_next = None\<rparr>]\<rparr>) db" "db_wf db"
     "storage_get 64 db ''a'' = Inr (Some ''1'')" using one_key_table by blast
  from store_race_tears [OF this(1,2) order_refl this(3), of "''23''" 1] show ?thesis by simp
qed

section \<open>Freed nodes\<close>

text \<open>C38:
  FLUSH frees the nodes that other threads read: for every table and every key it holds there is an order in which
  a GET of the key finds the node, FLUSH runs and answers, and the GET then reads the value from freed memory.
\<close>

theorem store_flush_race:
  assumes "represents m db" and "storage_get n db key = Inr (Some v)"
  shows "\<exists>is a m'. race n (map Begin [Op_Get key, Op_Flush], m) is ([Broken (Freed_Node a), Done Flush_Result], m')"
proof -
  obtain ass where t: "table_at m ass db" using assms(1) by (auto simp: represents_def)
  have ix: "unat (hash key) < 1000"
    using assms(2) table_at_length [OF t] by (auto simp: storage_get_def bucket_at_def split: if_splits)
  from alone_get_found [OF t ix assms(2), of None] obtain k a where a: "a \<in> set (ass ! unat (hash key))"
    "alone n None k (Begin (Op_Get key), m) (Read_Value key a [], m)"
    by blast
  from alone_flush [OF t, of n None] obtain j m' where f: "alone n None j (Begin Op_Flush, m) (Done Flush_Result, m')"
    "sh_heap m' = free_all (concat ass) (sh_heap m)"
    by blast
  have "ass ! unat (hash key) \<in> set ass" using t ix by (simp add: table_at_def)
  then have "sh_heap m' a = None" using a(1) f(2) by (auto simp: free_all_def)
  then have r: "alone n None 1 (Read_Value key a [], m') (Broken (Freed_Node a), m')"
    by (intro alone_one) (simp_all add: with_cell_def)
  let ?ts = "map Begin [Op_Get key, Op_Flush]"
  have "\<exists>is. race n (?ts, m) is ([Read_Value key a [], Begin Op_Flush], m)"
    by (rule race_extend [OF race_begin, where i = 0]) (use a(2) in simp_all)
  then have "\<exists>is. race n (?ts, m) is ([Read_Value key a [], Done Flush_Result], m')"
    by (rule race_extend [where i = 1]) (use f(1) in simp_all)
  then have "\<exists>is. race n (?ts, m) is ([Broken (Freed_Node a), Done Flush_Result], m')"
    by (rule race_extend [where i = 0]) (use r in simp_all)
  then show ?thesis by blast
qed

theorem store_flush_race_witness:
  "\<exists>is a m'. race 64 (map Begin [Op_Get ''a'', Op_Flush], start_memory\<lparr>sh_heads := (replicate 1000 None)[96 := Some 0],
       sh_size := 1, sh_heap := [0 \<mapsto> \<lparr>cell_node = fill_node ''a'' ''1'', cell_next = None\<rparr>]\<rparr>) is
      ([Broken (Freed_Node a), Done Flush_Result], m')"
  using one_key_table store_flush_race by blast

end
