(* ===== verification/Server_Races.thy ===== *)
theory Server_Races
  imports Server_Threads Storage_Anomalies
begin

text \<open>
  Where the races of \<open>Storage_Races\<close> and \<open>Storage_Anomalies\<close> come from: a server that is stopped and started again
  has two acceptor threads in their loop, and each request they serve is one of the operations that race.
\<close>

section \<open>Requests as table operations\<close>

text \<open>
  The table operation a command line leads to, by the tests of the handler; the others leave the table alone.
  EXISTS walks the bucket as GET does but reads no value: its steps are those of the lookup without the reads
  of the value that \<open>Op_Get\<close> ends with, and its answer is whether the walk found a node.
\<close>

definition command_op :: "string \<Rightarrow> table_op option" where
  "command_op command =
     (if strncmp command ''PING'' 5 = 0 then None
      else if strncmp command ''FLUSH'' 5 = 0 then Some Op_Flush
      else if strncmp command ''SET '' 4 = 0 then
        map_option (\<lambda>(key, val). Op_Set key val) (strchr_split (CHR '' '') (drop 4 command))
      else if strncmp command ''GET '' 4 = 0 then Some (Op_Get (drop 4 command))
      else if strncmp command ''DELETE '' 7 = 0 then None
      else if strncmp command ''EXISTS '' 7 = 0 then Some (Op_Get (drop 7 command))
      else None)"

lemma command_op_effect:
  "case command_op command of
     None \<Rightarrow> \<exists>line. run_command n alloc_ok db command = Inr (line, db)
   | Some op \<Rightarrow> (case op_result n alloc_ok db op of
        Inl f \<Rightarrow> run_command n alloc_ok db command = Inl f
      | Inr (r, db') \<Rightarrow> \<exists>line. run_command n alloc_ok db command = Inr (line, db'))"
  by (simp add: command_op_def run_command_def bindR_def split: option.splits sum.splits prod.splits)

section \<open>Two acceptor threads\<close>

lemma restart_two_threads:
  assumes "server_init env (Some cfg) = (Some s, es)"
  shows "\<exists>w. server_run n [Start good_start, Thread_Step 0 Would_Block, Stop clock timeout, Start good_start,
      Thread_Step 1 Would_Block] (new_world s es) = Some (Inr w) \<and> threads w = [In_Accept, In_Accept]
    \<and> (\<exists>s'. inst w = Some s' \<and> srv_status s' = SERVER_STATUS_RUNNING)"
proof -
  have s: "client_count s = 0" using server_init_ok [OF assms] by (simp add: server_ok_def)
  have stopped: "srv_status s = SERVER_STATUS_STOPPED"
    using assms by (auto simp: server_init_def get_initial_server_status_def split: if_splits)
  have "Thread_Create \<notin> set (shutdown_listener s')" for s' by (simp add: shutdown_listener_def)
  then show ?thesis
    using s stopped by (simp add: new_world_def with_server_def log_events_def server_start_def good_start_def server_constants
        acceptor_step_def server_stop_idle Let_def)
qed

end
