(* ===== verification/LSM_Tree.thy ===== *)
theory LSM_Tree
  imports Prelude
begin

text \<open>
  The log-structured merge tree of \<^verbatim>\<open>kryolsm/lsm-drive\<close> (\<^verbatim>\<open>code.h\<close>, \<^verbatim>\<open>code.c\<close>): its
  data, its byte format on disk and every operation.

  \<^item> A \<^verbatim>\<open>char\<close> array field is a \<open>string\<close> as long as the array. A heap block of pairs is the
    list of the pairs written to it so far; an access past them, or past an array of the
    tree, is the fault \<open>Out_Of_Bounds\<close>. Fields of type \<^verbatim>\<open>int\<close> are \<open>int\<close>; the one sum that
    could exceed \<^verbatim>\<open>INT_MAX\<close> is checked (\<open>Int_Overflow\<close>).
  \<^item> \<^verbatim>\<open>exit(EXIT_FAILURE)\<close> is \<open>Exit_Failure\<close>. The code ignores what \<^verbatim>\<open>fread\<close> returns: at the
    end of the file an \<^verbatim>\<open>int\<close> keeps the value it had, and the code goes on with it; after a
    part of an \<^verbatim>\<open>int\<close>, or with pairs missing, it would go on with indeterminate data, which
    is the fault \<open>Short_Read\<close>. A file name array without terminator handed to \<^verbatim>\<open>fopen\<close> is
    \<open>Unterminated\<close>.
  \<^item> The outside world is the record \<open>lsm_env\<close>: which allocations and which \<^verbatim>\<open>fopen\<close>
    calls succeed, and \<^verbatim>\<open>qsort\<close>, whose order of equal keys the C standard leaves open.
    Files are a map from names to bytes.
\<close>

section \<open>Data\<close>

record KeyValuePair =
  kv_key :: string
  kv_value :: string

record MemTable =
  mt_pairs :: "KeyValuePair list"
  mt_size :: int
  mt_capacity :: int

record SSTable =
  ss_pairs :: "KeyValuePair list"
  ss_size :: int
  ss_filename :: string

record LSMTree =
  memtable :: MemTable
  sstables :: "SSTable list"
  sstable_count :: int

abbreviation (input) MEMTABLE_SIZE :: int where "MEMTABLE_SIZE \<equiv> 1"
abbreviation (input) MAX_SSTABLES :: int where "MAX_SSTABLES \<equiv> 10"
abbreviation (input) KEY_SIZE :: nat where "KEY_SIZE \<equiv> 50"
abbreviation (input) VALUE_SIZE :: nat where "VALUE_SIZE \<equiv> 100"
abbreviation (input) PAIR_SIZE :: nat where "PAIR_SIZE \<equiv> 150"
abbreviation (input) DATA_FILE :: string where "DATA_FILE \<equiv> ''lsm_data.bin''"

record lsm_env =
  malloc_ok :: "nat \<Rightarrow> bool"
  fopen_ok :: "string \<Rightarrow> bool"
  qsort :: "KeyValuePair list \<Rightarrow> KeyValuePair list"

type_synonym disk = "string \<rightharpoonup> string"

datatype lsm_fault =
    Exit_Failure string
  | Out_Of_Bounds int
  | Int_Overflow
  | Short_Read
  | Unterminated

definition pair_key :: "KeyValuePair \<Rightarrow> string" where
  "pair_key p = cstr (kv_key p)"

definition pair_value :: "KeyValuePair \<Rightarrow> string" where
  "pair_value p = cstr (kv_value p)"

definition compare_keys :: "KeyValuePair \<Rightarrow> KeyValuePair \<Rightarrow> int" where
  "compare_keys a b = strcmp (cstr (kv_key a)) (cstr (kv_key b))"

section \<open>Bytes on disk\<close>

text \<open>\<^verbatim>\<open>fwrite\<close> and \<^verbatim>\<open>fread\<close> of an \<^verbatim>\<open>int\<close>: four bytes, least significant first.\<close>

fun le_bytes :: "nat \<Rightarrow> nat \<Rightarrow> string" where
  "le_bytes 0 v = []"
| "le_bytes (Suc k) v = char_of (v mod 256) # le_bytes k (v div 256)"

fun le_value :: "string \<Rightarrow> nat" where
  "le_value [] = 0"
| "le_value (b # bs) = of_char b + 256 * le_value bs"

definition int_bytes :: "int \<Rightarrow> string" where
  "int_bytes i = le_bytes 4 (nat (i mod 2 ^ 32))"

definition read_int :: "string \<Rightarrow> (int \<times> string) option" where
  "read_int bs =
     (if length bs < 4 then None
      else let v = int (le_value (take 4 bs))
           in Some (if v < 2 ^ 31 then v else v - 2 ^ 32, drop 4 bs))"

text \<open>
  \<^verbatim>\<open>fread(&x, sizeof(int), 1, file)\<close> into a variable that holds \<open>old\<close>, its result ignored. A
  part of an \<^verbatim>\<open>int\<close> leaves the variable indeterminate.
\<close>

definition fread_int :: "int \<Rightarrow> string \<Rightarrow> (int \<times> string) option" where
  "fread_int old bs = (if bs = [] then Some (old, []) else read_int bs)"

definition pair_bytes :: "KeyValuePair \<Rightarrow> string" where
  "pair_bytes p = kv_key p @ kv_value p"

definition pairs_bytes :: "KeyValuePair list \<Rightarrow> string" where
  "pairs_bytes ps = concat (map pair_bytes ps)"

fun read_pairs :: "nat \<Rightarrow> string \<Rightarrow> (KeyValuePair list \<times> string) option" where
  "read_pairs 0 bs = Some ([], bs)"
| "read_pairs (Suc n) bs =
     (if length bs < PAIR_SIZE then None
      else case read_pairs n (drop PAIR_SIZE bs) of
             None \<Rightarrow> None
           | Some (ps, rest) \<Rightarrow>
               Some (\<lparr>kv_key = take KEY_SIZE bs,
                      kv_value = take VALUE_SIZE (drop KEY_SIZE bs)\<rparr> # ps, rest))"

section \<open>Saving and loading\<close>

definition table_bytes :: "SSTable \<Rightarrow> string" where
  "table_bytes t = int_bytes (ss_size t) @ pairs_bytes (take (nat (ss_size t)) (ss_pairs t))"

definition save_sstable_to_disk :: "lsm_env \<Rightarrow> SSTable \<Rightarrow> disk \<Rightarrow> lsm_fault + disk" where
  "save_sstable_to_disk env t d =
     bindR (guardR (NUL \<in> set (ss_filename t)) Unterminated) (\<lambda>_.
     bindR (guardR (fopen_ok env (cstr (ss_filename t)))
              (Exit_Failure ''Failed to open SSTable file for writing'')) (\<lambda>_.
     Inr (d(cstr (ss_filename t) \<mapsto> table_bytes t))))"

definition save_all_data_to_file :: "lsm_env \<Rightarrow> LSMTree \<Rightarrow> disk \<Rightarrow> lsm_fault + disk" where
  "save_all_data_to_file env tree d =
     bindR (guardR (fopen_ok env DATA_FILE)
              (Exit_Failure ''Failed to open data file for writing'')) (\<lambda>_.
     Inr (d(DATA_FILE \<mapsto> int_bytes (sstable_count tree) @
              concat (map table_bytes (take (nat (sstable_count tree)) (sstables tree))))))"

text \<open>The byte count \<^verbatim>\<open>size * sizeof(KeyValuePair)\<close>, computed in \<^verbatim>\<open>size_t\<close>.\<close>

definition pairs_alloc :: "int \<Rightarrow> nat" where
  "pairs_alloc k = nat ((k * int PAIR_SIZE) mod 2 ^ 64)"

text \<open>\<^verbatim>\<open>"sstable%d.txt"\<close> in the 32-byte file name array.\<close>

definition sstable_filename :: "string \<Rightarrow> nat \<Rightarrow> string" where
  "sstable_filename old i =
     (let s = snprintf 32 (''sstable'' @ dec_digits i @ ''.txt'')
      in s @ NUL # drop (length s + 1) old)"

text \<open>Reading one table into slot \<open>i\<close>, then the loop over the slots.\<close>

definition load_table ::
  "lsm_env \<Rightarrow> nat \<Rightarrow> SSTable list \<Rightarrow> string \<Rightarrow> lsm_fault + SSTable list \<times> string" where
  "load_table env i tables bytes =
     bindR (guardR (i < length tables) (Out_Of_Bounds (int i))) (\<lambda>_.
     case fread_int (ss_size (tables ! i)) bytes of
       None \<Rightarrow> Inl Short_Read
     | Some (k, bytes1) \<Rightarrow>
         bindR (guardR (malloc_ok env (pairs_alloc k))
                  (Exit_Failure ''Failed to allocate SSTable'')) (\<lambda>_.
         bindR (guardR (0 \<le> k) (Out_Of_Bounds k)) (\<lambda>_.
         case read_pairs (nat k) bytes1 of
           None \<Rightarrow> Inl Short_Read
         | Some (ps, bytes2) \<Rightarrow>
             Inr (tables[i := \<lparr>ss_pairs = ps, ss_size = k,
                    ss_filename = sstable_filename (ss_filename (tables ! i)) i\<rparr>], bytes2))))"

fun load_tables ::
  "lsm_env \<Rightarrow> nat \<Rightarrow> nat \<Rightarrow> SSTable list \<Rightarrow> string \<Rightarrow> lsm_fault + SSTable list" where
  "load_tables env i 0 tables bytes = Inr tables"
| "load_tables env i (Suc todo) tables bytes =
     bindR (load_table env i tables bytes) (\<lambda>(tables', bytes').
       load_tables env (Suc i) todo tables' bytes')"

definition load_data_from_file :: "lsm_env \<Rightarrow> LSMTree \<Rightarrow> disk \<Rightarrow> lsm_fault + LSMTree" where
  "load_data_from_file env tree d =
     (if \<not> fopen_ok env DATA_FILE then Inr tree
      else case d DATA_FILE of
        None \<Rightarrow> Inr tree
      | Some bytes \<Rightarrow>
          (case fread_int (sstable_count tree) bytes of
             None \<Rightarrow> Inl Short_Read
           | Some (n_tables, rest) \<Rightarrow>
               bindR (load_tables env 0 (nat n_tables) (sstables tree) rest) (\<lambda>tables.
                 Inr (tree\<lparr>sstables := tables, sstable_count := n_tables\<rparr>))))"

text \<open>
  Reading one table file back. The file name is copied with one byte less than the array
  has, so the array's last byte stays as it was.
\<close>

definition load_sstable_from_disk ::
  "lsm_env \<Rightarrow> SSTable \<Rightarrow> string \<Rightarrow> disk \<Rightarrow> lsm_fault + SSTable" where
  "load_sstable_from_disk env t filename d =
     (case (if fopen_ok env filename then d filename else None) of
        None \<Rightarrow> Inl (Exit_Failure ''Failed to open SSTable file for reading'')
      | Some bytes \<Rightarrow>
          (case fread_int (ss_size t) bytes of
             None \<Rightarrow> Inl Short_Read
           | Some (k, bytes1) \<Rightarrow>
               bindR (guardR (malloc_ok env (pairs_alloc k))
                        (Exit_Failure ''Failed to allocate SSTable'')) (\<lambda>_.
               bindR (guardR (0 \<le> k) (Out_Of_Bounds k)) (\<lambda>_.
               case read_pairs (nat k) bytes1 of
                 None \<Rightarrow> Inl Short_Read
               | Some (ps, _) \<Rightarrow>
                   Inr \<lparr>ss_pairs = ps, ss_size = k,
                        ss_filename = strncpy (ss_filename t) filename 31\<rparr>))))"

text \<open>The tree starts as whatever its stack slot held (\<open>stack\<close>).\<close>

definition init_lsm_tree :: "lsm_env \<Rightarrow> LSMTree \<Rightarrow> disk \<Rightarrow> lsm_fault + LSMTree" where
  "init_lsm_tree env stack d =
     bindR (guardR (malloc_ok env (pairs_alloc MEMTABLE_SIZE))
              (Exit_Failure ''Failed to allocate memtable'')) (\<lambda>_.
     load_data_from_file env
       (stack\<lparr>memtable := \<lparr>mt_pairs = [], mt_size = 0, mt_capacity = MEMTABLE_SIZE\<rparr>,
              sstable_count := 0\<rparr>) d)"

section \<open>Compaction\<close>

text \<open>One iteration of the in-place duplicate removal: \<open>i\<close> reads, \<open>unique_count\<close> writes.\<close>

definition dedup_step ::
  "nat \<Rightarrow> KeyValuePair list \<times> nat \<Rightarrow> KeyValuePair list \<times> nat" where
  "dedup_step i = (\<lambda>(all_pairs, unique_count).
     if i = 0 \<or> strcmp (cstr (kv_key (all_pairs ! i))) (cstr (kv_key (all_pairs ! (i - 1)))) \<noteq> 0
     then (all_pairs[unique_count := all_pairs ! i], unique_count + 1)
     else (all_pairs, unique_count))"

definition dedup_in_place :: "KeyValuePair list \<Rightarrow> KeyValuePair list \<times> nat" where
  "dedup_in_place all_pairs = fold dedup_step [0..<length all_pairs] (all_pairs, 0)"

definition collect_pairs :: "SSTable list \<Rightarrow> KeyValuePair list" where
  "collect_pairs tables = concat (map (\<lambda>t. take (nat (ss_size t)) (ss_pairs t)) tables)"

definition compact_sstables :: "lsm_env \<Rightarrow> LSMTree \<Rightarrow> disk \<Rightarrow> lsm_fault + LSMTree \<times> disk" where
  "compact_sstables env tree d =
     (if sstable_count tree < 2 then Inr (tree, d)
      else
        let n_tables = nat (sstable_count tree);
            live = take n_tables (sstables tree);
            total_pairs = sum_list (map ss_size live)
        in bindR (guardR (total_pairs < 2 ^ 31) Int_Overflow) (\<lambda>_.
           bindR (guardR (malloc_ok env (pairs_alloc total_pairs))
                    (Exit_Failure ''Failed to allocate memory for compaction'')) (\<lambda>_.
           let (all_pairs, unique_count) = dedup_in_place (qsort env (collect_pairs live));
               freed = map (\<lambda>t. t\<lparr>ss_pairs := [], ss_size := 0\<rparr>) live @ drop n_tables (sstables tree)
           in bindR (guardR (malloc_ok env (pairs_alloc (int unique_count)))
                       (Exit_Failure ''Failed to allocate memory for compacted SSTable'')) (\<lambda>_.
              let merged = (freed ! 0)\<lparr>ss_pairs := take unique_count all_pairs,
                                       ss_size := int unique_count\<rparr>
              in bindR (save_sstable_to_disk env merged d) (\<lambda>d'.
                 Inr (tree\<lparr>sstables := freed[0 := merged], sstable_count := 1\<rparr>, d'))))))"

section \<open>Writing\<close>

text \<open>
  \<^verbatim>\<open>strncpy\<close> of a pair into a fresh block, with the whole array size as bound; what the
  block held before is overwritten.
\<close>

definition copy_pair :: "KeyValuePair \<Rightarrow> KeyValuePair" where
  "copy_pair p =
     \<lparr>kv_key = strncpy (replicate KEY_SIZE NUL) (cstr (kv_key p)) KEY_SIZE,
      kv_value = strncpy (replicate VALUE_SIZE NUL) (cstr (kv_value p)) VALUE_SIZE\<rparr>"

definition flush_memtable_to_sstable ::
  "lsm_env \<Rightarrow> LSMTree \<Rightarrow> disk \<Rightarrow> lsm_fault + LSMTree \<times> disk" where
  "flush_memtable_to_sstable env tree d =
     (if mt_size (memtable tree) = 0 then Inr (tree, d)
      else
        bindR (if sstable_count tree \<ge> MAX_SSTABLES then compact_sstables env tree d
               else Inr (tree, d)) (\<lambda>(tree, d).
        let sz = nat (mt_size (memtable tree));
            sorted = qsort env (take sz (mt_pairs (memtable tree)));
            slot = sstable_count tree
        in bindR (guardR (0 \<le> slot \<and> slot < int (length (sstables tree))) (Out_Of_Bounds slot)) (\<lambda>_.
           bindR (guardR (malloc_ok env (pairs_alloc (mt_size (memtable tree))))
                    (Exit_Failure ''Failed to allocate SSTable'')) (\<lambda>_.
           let new_sstable = (sstables tree ! nat slot)
                 \<lparr>ss_pairs := map copy_pair sorted, ss_size := mt_size (memtable tree)\<rparr>
           in bindR (save_sstable_to_disk env new_sstable d) (\<lambda>d'.
              Inr (tree\<lparr>memtable := (memtable tree)
                          \<lparr>mt_pairs := sorted @ drop sz (mt_pairs (memtable tree)), mt_size := 0\<rparr>,
                        sstables := (sstables tree)[nat slot := new_sstable],
                        sstable_count := slot + 1\<rparr>, d'))))))"

text \<open>A stack pair filled by the \<^verbatim>\<open>strncpy\<close> idiom: no byte of the old contents is left.\<close>

definition new_pair :: "string \<Rightarrow> string \<Rightarrow> KeyValuePair" where
  "new_pair key val =
     \<lparr>kv_key = copy_field KEY_SIZE (replicate KEY_SIZE NUL) key,
      kv_value = copy_field VALUE_SIZE (replicate VALUE_SIZE NUL) val\<rparr>"

text \<open>Writing slot \<open>i\<close> of the memtable's block, whose first \<open>length xs\<close> slots are written.\<close>

definition array_store :: "'a list \<Rightarrow> int \<Rightarrow> int \<Rightarrow> 'a \<Rightarrow> lsm_fault + 'a list" where
  "array_store xs cap i x =
     (if 0 \<le> i \<and> i < cap \<and> nat i \<le> length xs
      then Inr (if nat i < length xs then xs[nat i := x] else xs @ [x])
      else Inl (Out_Of_Bounds i))"

definition lsm_put ::
  "lsm_env \<Rightarrow> LSMTree \<Rightarrow> disk \<Rightarrow> string \<Rightarrow> string \<Rightarrow> lsm_fault + LSMTree \<times> disk" where
  "lsm_put env tree d key val =
     bindR (if mt_size (memtable tree) \<ge> mt_capacity (memtable tree)
            then flush_memtable_to_sstable env tree d else Inr (tree, d)) (\<lambda>(tree, d).
     let m = memtable tree
     in bindR (array_store (mt_pairs m) (mt_capacity m) (mt_size m) (new_pair key val)) (\<lambda>pairs.
        Inr (tree\<lparr>memtable := m\<lparr>mt_pairs := pairs, mt_size := mt_size m + 1\<rparr>\<rparr>, d)))"

text \<open>What is left after \<^verbatim>\<open>free_lsm_tree\<close> is the disk.\<close>

definition free_lsm_tree :: "lsm_env \<Rightarrow> LSMTree \<Rightarrow> disk \<Rightarrow> lsm_fault + disk" where
  "free_lsm_tree env tree d =
     (if mt_size (memtable tree) > 0
      then bindR (flush_memtable_to_sstable env tree d) (\<lambda>(tree', d').
             save_all_data_to_file env tree' d')
      else Inr d)"

section \<open>Reading\<close>

definition pair_at :: "KeyValuePair list \<Rightarrow> int \<Rightarrow> lsm_fault + KeyValuePair" where
  "pair_at ps i = (if 0 \<le> i \<and> i < int (length ps) then Inr (ps ! nat i) else Inl (Out_Of_Bounds i))"

text \<open>The scan of the memtable from its last entry down; \<open>k\<close> entries are still to be read.\<close>

fun memtable_scan :: "KeyValuePair list \<Rightarrow> nat \<Rightarrow> string \<Rightarrow> lsm_fault + KeyValuePair option" where
  "memtable_scan ps 0 key = Inr None"
| "memtable_scan ps (Suc k) key =
     bindR (pair_at ps (int k)) (\<lambda>p.
       if strcmp (cstr (kv_key p)) key = 0 then Inr (Some p) else memtable_scan ps k key)"

function sstable_search ::
  "KeyValuePair list \<Rightarrow> string \<Rightarrow> int \<Rightarrow> int \<Rightarrow> lsm_fault + KeyValuePair option" where
  "sstable_search ps key left right =
     (if left \<le> right then
        let mid = left + (right - left) div 2
        in bindR (pair_at ps mid) (\<lambda>p.
             let cmp = strcmp (cstr (kv_key p)) key
             in if cmp = 0 then Inr (Some p)
                else if cmp < 0 then sstable_search ps key (mid + 1) right
                else sstable_search ps key left (mid - 1))
      else Inr None)"
  by pat_completeness auto
termination
  by (relation "measure (\<lambda>(ps, key, left, right). nat (right - left + 1))") auto

declare sstable_search.simps [simp del]

fun sstables_scan :: "SSTable list \<Rightarrow> nat \<Rightarrow> string \<Rightarrow> lsm_fault + KeyValuePair option" where
  "sstables_scan tables 0 key = Inr None"
| "sstables_scan tables (Suc k) key =
     bindR (guardR (k < length tables) (Out_Of_Bounds (int k))) (\<lambda>_.
     bindR (sstable_search (ss_pairs (tables ! k)) key 0 (ss_size (tables ! k) - 1)) (\<lambda>r.
       case r of Some p \<Rightarrow> Inr (Some p) | None \<Rightarrow> sstables_scan tables k key))"

text \<open>\<^verbatim>\<open>strdup\<close> returns NULL when its allocation fails.\<close>

definition strdup :: "lsm_env \<Rightarrow> string \<Rightarrow> string option" where
  "strdup env s = (if malloc_ok env (length s + 1) then Some s else None)"

definition lsm_get :: "lsm_env \<Rightarrow> LSMTree \<Rightarrow> string \<Rightarrow> lsm_fault + string option" where
  "lsm_get env tree key =
     bindR (memtable_scan (mt_pairs (memtable tree)) (nat (mt_size (memtable tree))) key) (\<lambda>r.
       case r of
         Some p \<Rightarrow> Inr (strdup env (cstr (kv_value p)))
       | None \<Rightarrow>
           bindR (sstables_scan (sstables tree) (nat (sstable_count tree)) key) (\<lambda>r.
             case r of
               Some p \<Rightarrow> Inr (strdup env (cstr (kv_value p)))
             | None \<Rightarrow> Inr None))"

text \<open>The program's \<^verbatim>\<open>main\<close>: open, one put, one get (whose result is only printed), close.\<close>

definition lsm_main :: "lsm_env \<Rightarrow> LSMTree \<Rightarrow> disk \<Rightarrow> lsm_fault + disk" where
  "lsm_main env stack d =
     bindR (init_lsm_tree env stack d) (\<lambda>tree.
     bindR (lsm_put env tree d ''hobby'' ''Hiking'') (\<lambda>(tree, d).
     bindR (lsm_get env tree ''name'') (\<lambda>_.
     free_lsm_tree env tree d)))"

end
