(* ===== verification/LSM_Search.thy ===== *)
theory LSM_Search
  imports LSM_Tree
begin

text \<open>
  Reading the tree: the binary search of a table finds exactly what a linear search would,
  in bounds and for every key, and \<open>lsm_get\<close> on a well-formed tree is the lookup in the
  tree's entries listed newest first (\<open>lsm_lookup\<close>, the abstraction of the tree).
\<close>

section \<open>Tables ordered by key\<close>

definition skey :: "KeyValuePair \<Rightarrow> cstring" where
  "skey p = CStr (pair_key p)"

definition key_ordered :: "KeyValuePair list \<Rightarrow> bool" where
  "key_ordered ps \<longleftrightarrow> sorted_wrt (<) (map skey ps)"

lemma key_ordered_distinct: "key_ordered ps \<Longrightarrow> distinct (map pair_key ps)"
  by (induction ps) (auto simp: key_ordered_def skey_def)

lemma key_ordered_nth:
  "key_ordered ps \<Longrightarrow> i < j \<Longrightarrow> j < length ps \<Longrightarrow> skey (ps ! i) < skey (ps ! j)"
  using sorted_wrt_nth_less [of "(<)" "map skey ps" i j] by (simp add: key_ordered_def)

lemma key_ordered_single [simp]: "key_ordered [p]"
  by (simp add: key_ordered_def)

lemma key_ordered_Nil [simp]: "key_ordered []"
  by (simp add: key_ordered_def)

text \<open>\<open>lookup_pair\<close> is the linear search the optimised routines are compared with.\<close>

definition lookup_pair :: "KeyValuePair list \<Rightarrow> string \<Rightarrow> KeyValuePair option" where
  "lookup_pair ps key = find (\<lambda>p. pair_key p = key) ps"

lemma lookup_pair_simps [simp]:
  "lookup_pair [] key = None"
  "lookup_pair (p # ps) key = (if pair_key p = key then Some p else lookup_pair ps key)"
  by (simp_all add: lookup_pair_def)

lemma lookup_pair_append:
  "lookup_pair (ps @ qs) key =
     (case lookup_pair ps key of Some p \<Rightarrow> Some p | None \<Rightarrow> lookup_pair qs key)"
  by (induction ps) auto

lemma lookup_pair_None_iff: "lookup_pair ps key = None \<longleftrightarrow> key \<notin> pair_key ` set ps"
  by (induction ps) auto

lemma lookup_pair_SomeD: "lookup_pair ps key = Some p \<Longrightarrow> p \<in> set ps \<and> pair_key p = key"
  by (induction ps) (auto split: if_splits)

lemma lookup_pair_unique:
  "distinct (map pair_key ps) \<Longrightarrow> p \<in> set ps \<Longrightarrow> lookup_pair ps (pair_key p) = Some p"
  by (induction ps) (auto simp: image_iff)

section \<open>Binary search\<close>

lemma strcmp_pair_key:
  "strcmp (cstr (kv_key p)) key = 0 \<longleftrightarrow> pair_key p = key"
  "strcmp (cstr (kv_key p)) key < 0 \<longleftrightarrow> skey p < CStr key"
  by (simp_all add: pair_key_def skey_def strcmp_less_0_iff)

text \<open>
  What the loop keeps: \<open>left\<close> and \<open>right\<close> stay in the table, all entries before \<open>left\<close>
  are smaller than the key and all after \<open>right\<close> greater.
\<close>

definition search_inv :: "KeyValuePair list \<Rightarrow> string \<Rightarrow> int \<Rightarrow> int \<Rightarrow> bool" where
  "search_inv ps key left right \<longleftrightarrow> 0 \<le> left \<and> right < int (length ps)
     \<and> (\<forall>i < length ps. int i < left \<longrightarrow> skey (ps ! i) < CStr key)
     \<and> (\<forall>i < length ps. right < int i \<longrightarrow> CStr key < skey (ps ! i))"

lemma search_inv_right:
  assumes "search_inv ps key left right" and "key_ordered ps" and "left \<le> mid" and "mid \<le> right"
    and "skey (ps ! nat mid) < CStr key"
  shows "search_inv ps key (mid + 1) right"
proof -
  have "skey (ps ! i) < CStr key" if "i < length ps" "int i < mid + 1" for i
  proof (cases "i = nat mid")
    case False
    with that assms have "i < nat mid" "nat mid < length ps" by (auto simp: search_inv_def)
    then have "skey (ps ! i) < skey (ps ! nat mid)" using assms(2) by (intro key_ordered_nth)
    with assms(5) show ?thesis by (rule less_trans [rotated])
  qed (use assms in simp)
  with assms show ?thesis by (auto simp: search_inv_def)
qed

lemma search_inv_left:
  assumes "search_inv ps key left right" and "key_ordered ps" and "left \<le> mid" and "mid \<le> right"
    and "CStr key < skey (ps ! nat mid)"
  shows "search_inv ps key left (mid - 1)"
proof -
  have "CStr key < skey (ps ! i)" if "i < length ps" "mid - 1 < int i" for i
  proof (cases "i = nat mid")
    case False
    with that have "nat mid < i" by linarith
    then have "skey (ps ! nat mid) < skey (ps ! i)" using assms(2) that by (intro key_ordered_nth)
    with assms(5) show ?thesis by (rule less_trans)
  qed (use assms in simp)
  with assms show ?thesis by (auto simp: search_inv_def)
qed

lemma search_inv_empty:
  assumes "search_inv ps key left right" and "right < left"
  shows "lookup_pair ps key = None"
proof -
  have "pair_key (ps ! i) \<noteq> key" if "i < length ps" for i
  proof (cases "int i < left")
    case True
    with assms that have "skey (ps ! i) < CStr key" by (simp add: search_inv_def)
    then show ?thesis by (auto simp: skey_def)
  next
    case False
    with assms that have "CStr key < skey (ps ! i)" by (simp add: search_inv_def)
    then show ?thesis by (auto simp: skey_def)
  qed
  then show ?thesis by (metis imageE in_set_conv_nth lookup_pair_None_iff)
qed

lemma sstable_search_correct:
  "key_ordered ps \<Longrightarrow> search_inv ps key left right \<Longrightarrow>
    sstable_search ps key left right = Inr (lookup_pair ps key)"
proof (induction ps key left right rule: sstable_search.induct)
  case (1 ps key left right)
  show ?case
  proof (cases "left \<le> right")
    case False
    with 1(4) show ?thesis by (simp add: sstable_search.simps search_inv_empty)
  next
    case True
    define mid where "mid = left + (right - left) div 2"
    have mid: "left \<le> mid" "mid \<le> right" using True by (auto simp: mid_def)
    with 1(4) have pa: "pair_at ps mid = Inr (ps ! nat mid)" by (simp add: pair_at_def search_inv_def)
    have step: "sstable_search ps key left right =
        (let cmp = strcmp (cstr (kv_key (ps ! nat mid))) key
         in if cmp = 0 then Inr (Some (ps ! nat mid))
            else if cmp < 0 then sstable_search ps key (mid + 1) right
            else sstable_search ps key left (mid - 1))"
      using True pa by (simp add: sstable_search.simps [of ps key left right] mid_def Let_def)
    consider (eq) "skey (ps ! nat mid) = CStr key" | (lt) "skey (ps ! nat mid) < CStr key"
      | (gt) "CStr key < skey (ps ! nat mid)" by (rule linorder_cases)
    then show ?thesis
    proof cases
      case eq
      have "nat mid < length ps" using mid 1(4) by (auto simp: search_inv_def)
      then have "ps ! nat mid \<in> set ps" by simp
      then have "lookup_pair ps key = Some (ps ! nat mid)"
        using eq lookup_pair_unique [OF key_ordered_distinct [OF 1(3)], of "ps ! nat mid"]
        by (auto simp: skey_def)
      with eq show ?thesis by (simp add: step skey_def pair_key_def Let_def)
    next
      case lt
      then have "strcmp (cstr (kv_key (ps ! nat mid))) key < 0"
        "strcmp (cstr (kv_key (ps ! nat mid))) key \<noteq> 0"
        by (auto simp: strcmp_pair_key simp del: strcmp_eq_0_iff simp: skey_def pair_key_def)
      moreover have "search_inv ps key (mid + 1) right"
        using 1(4,3) mid lt by (rule search_inv_right)
      ultimately show ?thesis using 1(1) [OF True mid_def refl, of "ps ! nat mid"] 1(3)
        by (simp add: step Let_def)
    next
      case gt
      then have "\<not> strcmp (cstr (kv_key (ps ! nat mid))) key < 0"
        "strcmp (cstr (kv_key (ps ! nat mid))) key \<noteq> 0"
        by (auto simp: strcmp_pair_key simp del: strcmp_eq_0_iff simp: skey_def pair_key_def)
      moreover have "search_inv ps key left (mid - 1)"
        using 1(4,3) mid gt by (rule search_inv_left)
      ultimately show ?thesis using 1(2) [OF True mid_def refl, of "ps ! nat mid"] 1(3)
        by (simp add: step Let_def)
    qed
  qed
qed


section \<open>Well-formed trees and their contents\<close>

definition pair_wf :: "KeyValuePair \<Rightarrow> bool" where
  "pair_wf p \<longleftrightarrow> length (kv_key p) = KEY_SIZE \<and> NUL \<in> set (kv_key p)
     \<and> length (kv_value p) = VALUE_SIZE \<and> NUL \<in> set (kv_value p)"

definition table_wf :: "SSTable \<Rightarrow> bool" where
  "table_wf t \<longleftrightarrow> ss_size t = int (length (ss_pairs t)) \<and> key_ordered (ss_pairs t)
     \<and> (\<forall>p \<in> set (ss_pairs t). pair_wf p)"

definition memtable_wf :: "MemTable \<Rightarrow> bool" where
  "memtable_wf m \<longleftrightarrow> mt_capacity m = MEMTABLE_SIZE \<and> 0 \<le> mt_size m
     \<and> mt_size m \<le> mt_capacity m \<and> mt_size m \<le> int (length (mt_pairs m))
     \<and> (\<forall>p \<in> set (take (nat (mt_size m)) (mt_pairs m)). pair_wf p)"

definition live_tables :: "LSMTree \<Rightarrow> SSTable list" where
  "live_tables tree = take (nat (sstable_count tree)) (sstables tree)"

definition name_wf :: "SSTable \<Rightarrow> bool" where
  "name_wf t \<longleftrightarrow> length (ss_filename t) = 32 \<and> NUL \<in> set (ss_filename t)"

definition lsm_wf :: "LSMTree \<Rightarrow> bool" where
  "lsm_wf tree \<longleftrightarrow> memtable_wf (memtable tree)
     \<and> length (sstables tree) = nat MAX_SSTABLES
     \<and> 0 \<le> sstable_count tree \<and> sstable_count tree \<le> MAX_SSTABLES
     \<and> (\<forall>t \<in> set (live_tables tree). table_wf t)
     \<and> (\<forall>t \<in> set (sstables tree). name_wf t)"

text \<open>All entries of the tree, newest first, and the map they stand for.\<close>

definition mem_entries :: "MemTable \<Rightarrow> KeyValuePair list" where
  "mem_entries m = rev (take (nat (mt_size m)) (mt_pairs m))"

definition table_entries :: "SSTable list \<Rightarrow> KeyValuePair list" where
  "table_entries tables = concat (map ss_pairs (rev tables))"

definition lsm_lookup :: "LSMTree \<Rightarrow> string \<Rightarrow> string option" where
  "lsm_lookup tree key = map_option pair_value
     (lookup_pair (mem_entries (memtable tree) @ table_entries (live_tables tree)) key)"

lemma table_entries_simps [simp]:
  "table_entries [] = []"
  "table_entries [t] = ss_pairs t"
  "table_entries (tables @ [t]) = ss_pairs t @ table_entries tables"
  by (simp_all add: table_entries_def)

lemma memtable_scan_correct:
  "k \<le> length ps \<Longrightarrow> memtable_scan ps k key = Inr (lookup_pair (rev (take k ps)) key)"
  by (induction k) (auto simp: pair_at_def take_Suc_conv_app_nth pair_key_def)

lemma search_inv_start: "search_inv ps key 0 (int (length ps) - 1)"
  by (simp add: search_inv_def)

lemma sstables_scan_correct:
  "k \<le> length tables \<Longrightarrow> \<forall>t \<in> set (take k tables). table_wf t \<Longrightarrow>
    sstables_scan tables k key = Inr (lookup_pair (table_entries (take k tables)) key)"
proof (induction k)
  case (Suc k)
  then have k: "k < length tables" and wf: "table_wf (tables ! k)"
    and rest: "\<forall>t \<in> set (take k tables). table_wf t"
    by (auto simp: take_Suc_conv_app_nth)
  have "sstable_search (ss_pairs (tables ! k)) key 0 (ss_size (tables ! k) - 1)
      = Inr (lookup_pair (ss_pairs (tables ! k)) key)"
    using wf by (simp add: table_wf_def sstable_search_correct search_inv_start)
  with k rest Suc.IH show ?case
    by (auto simp: take_Suc_conv_app_nth lookup_pair_append split: option.split)
qed simp

lemma memtable_wf_scan:
  "memtable_wf m \<Longrightarrow>
    memtable_scan (mt_pairs m) (nat (mt_size m)) key = Inr (lookup_pair (mem_entries m) key)"
  by (simp add: memtable_wf_def memtable_scan_correct mem_entries_def nat_le_iff)

text \<open>C5:
  On a well-formed tree a read never leaves an array: it returns a copy of the newest value
  stored under the key, in the memtable before the tables and in younger tables before older
  ones, and NULL exactly if there is none or the copy cannot be allocated.
\<close>

theorem lsm_get_correct:
  assumes "lsm_wf tree"
  shows "lsm_get env tree key =
    Inr (case lsm_lookup tree key of None \<Rightarrow> None | Some v \<Rightarrow> strdup env v)"
proof -
  have "sstables_scan (sstables tree) (nat (sstable_count tree)) key
      = Inr (lookup_pair (table_entries (live_tables tree)) key)"
    unfolding live_tables_def using assms
    by (intro sstables_scan_correct) (auto simp: lsm_wf_def live_tables_def)
  moreover have "memtable_wf (memtable tree)" using assms by (simp add: lsm_wf_def)
  ultimately show ?thesis
    by (simp add: lsm_get_def memtable_wf_scan lsm_lookup_def lookup_pair_append pair_value_def
        split: option.split)
qed

end
