(* ===== verification/LSM_Write.thy ===== *)
theory LSM_Write
  imports LSM_Search KV_Interface
begin

text \<open>
  Writing the tree: \<open>flush_memtable_to_sstable\<close>, \<open>compact_sstables\<close> and \<open>lsm_put\<close> keep the
  tree well formed, and what each does to the map the tree stands for. \<^verbatim>\<open>qsort\<close> is only
  assumed to return a permutation in the order of its comparison function (\<open>qsort_ok\<close>);
  where the outcome depends on how it orders equal keys, \<open>qsort_stable\<close> names the extra fact.
\<close>

section \<open>The world\<close>

definition qsort_ok :: "lsm_env \<Rightarrow> bool" where
  "qsort_ok env \<longleftrightarrow> (\<forall>ps. mset (qsort env ps) = mset ps
     \<and> sorted_wrt (\<lambda>a b. compare_keys a b \<le> 0) (qsort env ps))"

definition qsort_stable :: "lsm_env \<Rightarrow> bool" where
  "qsort_stable env \<longleftrightarrow> (\<forall>ps. qsort env ps = sort_key skey ps)"

text \<open>
  Allocation succeeds, and \<^verbatim>\<open>fopen\<close> does for the data file (\<open>memory_ok\<close>) and for the names
  that the tree's ten slots hold (\<open>resources_ok\<close>); for no other name anything is assumed. The
  code never names the slots of a new tree, so this is a real condition on what they hold.
\<close>

definition memory_ok :: "lsm_env \<Rightarrow> bool" where
  "memory_ok env \<longleftrightarrow> (\<forall>n. malloc_ok env n) \<and> fopen_ok env DATA_FILE"

definition slot_names :: "LSMTree \<Rightarrow> string list" where
  "slot_names tree = map ss_filename (sstables tree)"

definition resources_ok :: "lsm_env \<Rightarrow> LSMTree \<Rightarrow> bool" where
  "resources_ok env tree \<longleftrightarrow> memory_ok env \<and> (\<forall>name \<in> set (slot_names tree). fopen_ok env (cstr name))"

lemma resources_ok_slot:
  "resources_ok env tree \<Longrightarrow> t \<in> set (sstables tree) \<Longrightarrow> fopen_ok env (cstr (ss_filename t))"
  by (simp add: resources_ok_def slot_names_def)

lemma resources_ok_names:
  "resources_ok env tree \<Longrightarrow> slot_names tree' = slot_names tree \<Longrightarrow> resources_ok env tree'"
  by (simp add: resources_ok_def)

lemma resources_ok_memory:
  "resources_ok env tree \<Longrightarrow> malloc_ok env n" "resources_ok env tree \<Longrightarrow> memory_ok env"
  by (simp_all add: resources_ok_def memory_ok_def)

text \<open>
  A world with a stable \<^verbatim>\<open>qsort\<close> in which allocation succeeds and every plain file name can be
  opened, for the witnesses.
\<close>

definition good_env :: lsm_env where
  "good_env = \<lparr>malloc_ok = (\<lambda>_. True), fopen_ok = (\<lambda>f. f \<noteq> [] \<and> CHR ''/'' \<notin> set f),
     qsort = sort_key skey\<rparr>"

lemma compare_keys_order:
  "sorted_wrt (\<lambda>a b. compare_keys a b \<le> 0) ps \<longleftrightarrow> sorted (map skey ps)"
  by (simp add: sorted_map compare_keys_def strcmp_le_0_iff skey_def pair_key_def)

lemma qsort_stable_ok: "qsort_stable env \<Longrightarrow> qsort_ok env"
  by (simp add: qsort_stable_def qsort_ok_def compare_keys_order)

lemma good_env_ok [simp]:
  "memory_ok good_env" "qsort_stable good_env" "qsort_ok good_env"
  using qsort_stable_ok [of good_env]
  by (simp_all add: memory_ok_def qsort_stable_def good_env_def)

lemma qsort_ok_facts:
  assumes "qsort_ok env"
  shows "mset (qsort env ps) = mset ps" and "sorted (map skey (qsort env ps))"
    and "set (qsort env ps) = set ps" and "length (qsort env ps) = length ps"
proof -
  show m: "mset (qsort env ps) = mset ps" and "sorted (map skey (qsort env ps))"
    using assms by (auto simp only: qsort_ok_def compare_keys_order)
  from m show "set (qsort env ps) = set ps" by (rule mset_eq_setD)
  from m show "length (qsort env ps) = length ps" by (rule mset_eq_length)
qed

lemma qsort_single: "qsort_ok env \<Longrightarrow> qsort env [p] = [p]"
  using qsort_ok_facts(1) [of env "[p]"] by simp

lemma qsort_Nil: "qsort_ok env \<Longrightarrow> qsort env [] = []"
  using qsort_ok_facts(4) [of env "[]"] by simp

lemma lookup_pair_filter:
  "lookup_pair ps key = (case filter (\<lambda>p. skey p = CStr key) ps of [] \<Rightarrow> None | p # _ \<Rightarrow> Some p)"
  by (induction ps) (auto simp: skey_def)

lemma lookup_pair_stable: "qsort_stable env \<Longrightarrow> lookup_pair (qsort env ps) key = lookup_pair ps key"
  by (simp add: lookup_pair_filter qsort_stable_def sort_key_stable)

lemma lookup_pair_qsort_None:
  "qsort_ok env \<Longrightarrow> lookup_pair (qsort env ps) key = None \<longleftrightarrow> lookup_pair ps key = None"
  by (simp add: lookup_pair_None_iff qsort_ok_facts)

section \<open>Removing duplicates\<close>

text \<open>What the in-place loop computes: of every run of equal keys, its first pair.\<close>

fun first_of_runs :: "KeyValuePair list \<Rightarrow> KeyValuePair list" where
  "first_of_runs [] = []"
| "first_of_runs [p] = [p]"
| "first_of_runs (p # q # ps) =
     (if pair_key q = pair_key p then first_of_runs (p # ps) else p # first_of_runs (q # ps))"

lemma first_of_runs_snoc:
  "first_of_runs (ps @ [p, q]) =
     first_of_runs (ps @ [p]) @ (if pair_key q = pair_key p then [] else [q])"
proof (induction ps arbitrary: p q rule: first_of_runs.induct)
  case (2 r)
  then show ?case by auto
qed auto

lemma first_of_runs_take_Suc:
  assumes "i < length ps"
  shows "first_of_runs (take (Suc i) ps) = first_of_runs (take i ps) @
    (if i = 0 \<or> pair_key (ps ! i) \<noteq> pair_key (ps ! (i - 1)) then [ps ! i] else [])"
proof (cases i)
  case 0
  with assms show ?thesis by (simp add: take_Suc_conv_app_nth)
next
  case (Suc j)
  with assms have "take (Suc i) ps = take j ps @ [ps ! j, ps ! i]"
    and "take i ps = take j ps @ [ps ! j]"
    by (simp_all add: take_Suc_conv_app_nth)
  with Suc show ?thesis by (simp add: first_of_runs_snoc)
qed

lemma length_first_of_runs: "length (first_of_runs ps) \<le> length ps"
  by (induction ps rule: first_of_runs.induct) auto

text \<open>
  The loop invariant: the reader is never behind the writer, so what it still compares
  (from the previous index on) is untouched, and the writer has the runs read so far.
\<close>

definition dedup_inv ::
  "KeyValuePair list \<Rightarrow> nat \<Rightarrow> KeyValuePair list \<times> nat \<Rightarrow> bool" where
  "dedup_inv ps i = (\<lambda>(arr, u). length arr = length ps \<and> u \<le> i
     \<and> (\<forall>j < length ps. i \<le> Suc j \<longrightarrow> arr ! j = ps ! j)
     \<and> take u arr = first_of_runs (take i ps))"

lemma dedup_step_inv:
  assumes "dedup_inv ps i s" and "i < length ps"
  shows "dedup_inv ps (Suc i) (dedup_step i s)"
proof -
  obtain arr u where s: "s = (arr, u)" by fastforce
  with assms have len: "length arr = length ps" and u: "u \<le> i"
    and same: "\<And>j. j < length ps \<Longrightarrow> i \<le> Suc j \<Longrightarrow> arr ! j = ps ! j"
    and runs: "take u arr = first_of_runs (take i ps)"
    by (auto simp: dedup_inv_def)
  have eqi: "arr ! i = ps ! i" and eqp: "arr ! (i - 1) = ps ! (i - 1)"
    using same assms(2) by auto
  have "take (Suc u) (arr[u := ps ! i]) = take u arr @ [ps ! i]"
    using u len assms(2) by (simp add: take_Suc_conv_app_nth)
  moreover have "take (Suc i) ps \<noteq> []" using assms(2) by auto
  ultimately show ?thesis
    using len u same runs assms(2)
    by (auto simp: s dedup_inv_def dedup_step_def eqi eqp first_of_runs_take_Suc pair_key_def
        nth_list_update)
qed

lemma dedup_inv_fold:
  "i \<le> length ps \<Longrightarrow> dedup_inv ps i (fold dedup_step [0..<i] (ps, 0))"
proof (induction i)
  case 0
  then show ?case by (simp add: dedup_inv_def)
next
  case (Suc i)
  then show ?case by (simp add: dedup_step_inv)
qed

lemma dedup_in_place_runs:
  "dedup_in_place ps = (arr, u) \<Longrightarrow> take u arr = first_of_runs ps \<and> u = length (first_of_runs ps)"
proof -
  assume "dedup_in_place ps = (arr, u)"
  then have "dedup_inv ps (length ps) (arr, u)"
    using dedup_inv_fold [of "length ps" ps] by (simp add: dedup_in_place_def)
  then have "take u arr = first_of_runs ps" "u \<le> length arr" by (auto simp: dedup_inv_def)
  then show ?thesis by (metis length_take min.absorb2)
qed

lemma lookup_first_of_runs [simp]: "lookup_pair (first_of_runs ps) key = lookup_pair ps key"
  by (induction ps rule: first_of_runs.induct) auto

lemma set_first_of_runs: "set (first_of_runs ps) \<subseteq> set ps"
  by (induction ps rule: first_of_runs.induct) (auto split: if_splits)

lemma key_ordered_runs: "sorted (map skey ps) \<Longrightarrow> key_ordered (first_of_runs ps)"
proof (induction ps rule: first_of_runs.induct)
  case (3 p q ps)
  show ?case
  proof (cases "pair_key q = pair_key p")
    case True
    with 3 show ?thesis by simp
  next
    case False
    with 3 have "key_ordered (first_of_runs (q # ps))" by simp
    moreover have "skey p < skey q" using 3(3) False by (auto simp: skey_def order_less_le)
    then have "\<forall>r \<in> set (first_of_runs (q # ps)). skey p < skey r"
      using 3(3) set_first_of_runs [of "q # ps"] by fastforce
    ultimately show ?thesis using False by (simp add: key_ordered_def)
  qed
qed simp_all

section \<open>Compaction\<close>

lemma collect_pairs_wf:
  "\<forall>t \<in> set tables. table_wf t \<Longrightarrow> collect_pairs tables = concat (map ss_pairs tables)"
  by (induction tables) (auto simp: collect_pairs_def table_wf_def)

lemma lsm_wf_live: "lsm_wf tree \<Longrightarrow> t \<in> set (live_tables tree) \<Longrightarrow> table_wf t"
  by (simp add: lsm_wf_def)

definition oldest_first :: "LSMTree \<Rightarrow> KeyValuePair list" where
  "oldest_first tree = concat (map ss_pairs (live_tables tree))"

lemma set_oldest_first: "set (oldest_first tree) = set (table_entries (live_tables tree))"
  by (simp add: oldest_first_def table_entries_def)

text \<open>The outcome of a compaction that does something, in one place.\<close>

lemma compact_outcome:
  assumes "lsm_wf tree" and "2 \<le> sstable_count tree" and "qsort_ok env"
    and "compact_sstables env tree d = Inr (tree', d')"
  obtains merged where "live_tables tree' = [merged]" and "sstable_count tree' = 1"
    and "ss_pairs merged = first_of_runs (qsort env (oldest_first tree))"
    and "memtable tree' = memtable tree" and "lsm_wf tree'"
proof -
  define live where "live = live_tables tree"
  define runs where "runs = first_of_runs (qsort env (oldest_first tree))"
  define freed where "freed = map (\<lambda>t. t\<lparr>ss_pairs := [], ss_size := 0\<rparr>) live
    @ drop (nat (sstable_count tree)) (sstables tree)"
  define merged where "merged = (freed ! 0)\<lparr>ss_pairs := runs, ss_size := int (length runs)\<rparr>"
  have live_wf: "\<forall>t \<in> set live. table_wf t" using assms(1) by (simp add: live_def lsm_wf_live)
  have coll: "collect_pairs live = oldest_first tree"
    using live_wf by (simp add: collect_pairs_wf oldest_first_def live_def)
  obtain arr u where dd: "dedup_in_place (qsort env (oldest_first tree)) = (arr, u)" by fastforce
  have arr: "take u arr = runs" "u = length runs"
    using dedup_in_place_runs [OF dd] by (auto simp: runs_def)
  have tree': "tree' = tree\<lparr>sstables := freed[0 := merged], sstable_count := 1\<rparr>"
    using assms(2,4) arr dd
    by (auto simp: compact_sstables_def Let_def bindR_Inr_iff coll [unfolded live_def live_tables_def]
        merged_def freed_def live_def live_tables_def)
  have len: "length freed = 10" using assms(1) by (simp add: freed_def live_def lsm_wf_def live_tables_def)
  have names: "\<forall>t \<in> set freed. name_wf t"
    using assms(1) by (auto simp: freed_def live_def lsm_wf_def live_tables_def name_wf_def
        dest: in_set_takeD in_set_dropD)
  have "freed \<noteq> []" using len by auto
  then have "name_wf merged" using names by (simp add: merged_def name_wf_def)
  with names have names': "\<forall>t \<in> set (freed[0 := merged]). name_wf t"
    by (metis insert_iff set_update_subset_insert subsetD)
  have runs_wf: "\<forall>p \<in> set runs. pair_wf p"
    using assms(1,3) set_first_of_runs lsm_wf_live
    by (fastforce simp: runs_def qsort_ok_facts oldest_first_def table_wf_def)
  have "key_ordered runs" using assms(3) by (simp add: runs_def key_ordered_runs qsort_ok_facts)
  with runs_wf have "table_wf merged" by (simp add: table_wf_def merged_def)
  moreover have lv: "live_tables tree' = [merged]"
    using len by (cases freed) (auto simp: tree' live_tables_def)
  moreover note names' len
  ultimately have "lsm_wf tree'" using assms(1) by (simp add: tree' lsm_wf_def)
  with lv show thesis using that by (simp add: tree' merged_def runs_def)
qed

section \<open>Flushing\<close>

lemma strncpy_cstr:
  assumes "length buf = n" and "NUL \<in> set buf" and "length dst = n"
  shows "cstr (strncpy dst (cstr buf) n) = cstr buf"
    and "NUL \<in> set (strncpy dst (cstr buf) n)"
    and "length (strncpy dst (cstr buf) n) = n"
proof -
  have len: "length (cstr buf) < n" using assms length_cstr_terminated by blast
  then obtain m where "n - length (cstr buf) = Suc m" by (metis Suc_diff_Suc)
  then have eq: "strncpy dst (cstr buf) n = cstr buf @ NUL # replicate m NUL"
    using len assms by (simp add: strncpy_def)
  show "cstr (strncpy dst (cstr buf) n) = cstr buf" "NUL \<in> set (strncpy dst (cstr buf) n)"
    by (simp_all add: eq)
  show "length (strncpy dst (cstr buf) n) = n" using assms by simp
qed

lemma copy_pair_wf:
  assumes "pair_wf p"
  shows "pair_wf (copy_pair p)" and "pair_key (copy_pair p) = pair_key p"
    and "pair_value (copy_pair p) = pair_value p"
  using assms strncpy_cstr [of "kv_key p" 50 "replicate 50 NUL"]
    strncpy_cstr [of "kv_value p" 100 "replicate 100 NUL"]
  by (auto simp: pair_wf_def copy_pair_def pair_key_def pair_value_def)

lemma mem_entries_full:
  assumes "memtable_wf m" and "mt_size m \<noteq> 0"
  obtains p where "take (nat (mt_size m)) (mt_pairs m) = [p]" and "mem_entries m = [p]"
    and "mt_size m = 1" and "pair_wf p" and "mt_pairs m = p # drop 1 (mt_pairs m)"
proof -
  have s: "mt_size m = 1" and l: "1 \<le> length (mt_pairs m)"
    using assms by (auto simp: memtable_wf_def)
  from l obtain p ps where ps: "mt_pairs m = p # ps" by (cases "mt_pairs m") auto
  with s that [of p] assms show thesis by (auto simp: mem_entries_def memtable_wf_def)
qed

lemma flush_outcome_plain:
  assumes wf: "lsm_wf tree" and q: "qsort_ok env" and "mt_size (memtable tree) \<noteq> 0"
    and room: "sstable_count tree < MAX_SSTABLES"
    and run: "flush_memtable_to_sstable env tree d = Inr (tree', d')"
  obtains p new where "mem_entries (memtable tree) = [p]"
    and "live_tables tree' = live_tables tree @ [new]" and "ss_pairs new = [copy_pair p]"
    and "sstable_count tree' = sstable_count tree + 1"
    and "mt_size (memtable tree') = 0" and "lsm_wf tree'"
proof -
  have "memtable_wf (memtable tree)" using wf by (simp add: lsm_wf_def)
  then obtain p where p: "take (nat (mt_size (memtable tree))) (mt_pairs (memtable tree)) = [p]"
    "mem_entries (memtable tree) = [p]" "mt_size (memtable tree) = 1" "pair_wf p"
    "mt_pairs (memtable tree) = p # drop 1 (mt_pairs (memtable tree))"
    using assms(3) by (rule mem_entries_full)
  define slot where "slot = nat (sstable_count tree)"
  define new where "new = (sstables tree ! slot)\<lparr>ss_pairs := [copy_pair p], ss_size := 1\<rparr>"
  have slot: "slot < length (sstables tree)" using wf room by (simp add: lsm_wf_def slot_def)
  have tree': "tree' = tree\<lparr>memtable := (memtable tree)\<lparr>mt_size := 0\<rparr>,
      sstables := (sstables tree)[slot := new], sstable_count := sstable_count tree + 1\<rparr>"
    using run room p(1,3) p(5) [symmetric] q
    by (auto simp: flush_memtable_to_sstable_def Let_def bindR_Inr_iff qsort_single new_def slot_def)
  have suc: "nat (sstable_count tree + 1) = Suc slot"
    using wf by (auto simp: slot_def lsm_wf_def)
  have live: "live_tables tree' = live_tables tree @ [new]"
    using slot by (simp add: live_tables_def tree' suc take_Suc_conv_app_nth slot_def [symmetric])
  have name: "name_wf new"
    using wf slot by (simp add: new_def name_wf_def lsm_wf_def)
  have names: "\<forall>t \<in> set ((sstables tree)[slot := new]). name_wf t"
    using wf name by (metis insert_iff lsm_wf_def set_update_subset_insert subsetD)
  have "table_wf new" using p(4) by (simp add: new_def table_wf_def copy_pair_wf)
  then have "lsm_wf tree'"
    using wf room names live by (auto simp: tree' lsm_wf_def memtable_wf_def)
  with p live show thesis using that [of p new] by (simp add: tree' new_def)
qed

lemma flush_after_compaction:
  assumes "mt_size (memtable tree) \<noteq> 0" and "MAX_SSTABLES \<le> sstable_count tree"
    and "compact_sstables env tree d = Inr (t0, d0)"
    and "memtable t0 = memtable tree" and "sstable_count t0 < MAX_SSTABLES"
  shows "flush_memtable_to_sstable env tree d = flush_memtable_to_sstable env t0 d0"
  using assms by (simp add: flush_memtable_to_sstable_def)

text \<open>
  A flush of a full memtable, whether or not it compacts: \<open>t0\<close> is the tree the new table is
  added to.
\<close>

lemma flush_outcome:
  assumes wf: "lsm_wf tree" and q: "qsort_ok env" and mt: "mt_size (memtable tree) \<noteq> 0"
    and run: "flush_memtable_to_sstable env tree d = Inr (tree', d')"
  obtains t0 d0 p new where "lsm_wf t0" and "memtable t0 = memtable tree"
    and "if MAX_SSTABLES \<le> sstable_count tree then compact_sstables env tree d = Inr (t0, d0)
         else t0 = tree"
    and "mem_entries (memtable tree) = [p]"
    and "live_tables tree' = live_tables t0 @ [new]" and "ss_pairs new = [copy_pair p]"
    and "sstable_count tree' = sstable_count t0 + 1"
    and "mt_size (memtable tree') = 0" and "lsm_wf tree'" and "pair_wf p"
proof -
  have mwf: "memtable_wf (memtable tree)" using wf by (simp add: lsm_wf_def)
  obtain t0 d0 where t0: "lsm_wf t0" "memtable t0 = memtable tree" "sstable_count t0 < MAX_SSTABLES"
    and how: "if MAX_SSTABLES \<le> sstable_count tree then compact_sstables env tree d = Inr (t0, d0)
         else t0 = tree"
    and run0: "flush_memtable_to_sstable env t0 d0 = Inr (tree', d')"
  proof (cases "MAX_SSTABLES \<le> sstable_count tree")
    case True
    then obtain t0 d0 where c: "compact_sstables env tree d = Inr (t0, d0)"
      using run mt by (auto simp: flush_memtable_to_sstable_def bindR_Inr_iff)
    with wf True q obtain merged where m: "sstable_count t0 = 1" "memtable t0 = memtable tree" "lsm_wf t0"
      by (auto elim: compact_outcome)
    with c True mt run show thesis using that [of t0 d0] by (simp add: flush_after_compaction)
  qed (use wf run that [of tree d] in simp)
  have "mt_size (memtable t0) \<noteq> 0" using mt t0 by simp
  with t0 q run0 obtain p new where "mem_entries (memtable t0) = [p]"
    "live_tables tree' = live_tables t0 @ [new]" "ss_pairs new = [copy_pair p]"
    "sstable_count tree' = sstable_count t0 + 1" "mt_size (memtable tree') = 0" "lsm_wf tree'"
    by (auto elim: flush_outcome_plain)
  moreover from this(1) t0(2) mwf mt have "pair_wf p" by (auto elim!: mem_entries_full)
  ultimately show thesis using that [OF t0(1,2) how] t0(2) by simp
qed

section \<open>The slots keep their names\<close>

lemma update_keeps_name:
  "i < length ts \<Longrightarrow> ss_filename t = ss_filename (ts ! i) \<Longrightarrow>
    map ss_filename (ts[i := t]) = map ss_filename ts"
  by (simp add: map_update) (metis length_map list_update_id nth_map)

lemma compact_names:
  assumes "compact_sstables env tree d = Inr (tree', d')"
  shows "slot_names tree' = slot_names tree"
proof (cases "sstable_count tree < 2")
  case True
  with assms show ?thesis by (simp add: compact_sstables_def)
next
  case False
  define n where "n = nat (sstable_count tree)"
  define freed where "freed = map (\<lambda>t. t\<lparr>ss_pairs := [], ss_size := 0\<rparr>) (take n (sstables tree))
    @ drop n (sstables tree)"
  obtain ps k where "sstables tree' = freed[0 := (freed ! 0)\<lparr>ss_pairs := ps, ss_size := k\<rparr>]"
    using assms False
    by (auto simp: compact_sstables_def Let_def bindR_Inr_iff freed_def n_def split: prod.splits)
  then have "slot_names tree' = map ss_filename freed"
    by (cases freed) (simp_all add: slot_names_def)
  also have "\<dots> = slot_names tree"
    by (simp add: freed_def slot_names_def comp_def) (metis append_take_drop_id map_append)
  finally show ?thesis .
qed

lemma flush_names:
  assumes "flush_memtable_to_sstable env tree d = Inr (tree', d')"
  shows "slot_names tree' = slot_names tree"
proof (cases "mt_size (memtable tree) = 0")
  case True
  with assms show ?thesis by (simp add: flush_memtable_to_sstable_def)
next
  case False
  then obtain t0 d0 where c: "(if sstable_count tree \<ge> MAX_SSTABLES then compact_sstables env tree d
      else Inr (tree, d)) = Inr (t0, d0)"
    using assms by (auto simp: flush_memtable_to_sstable_def bindR_Inr_iff)
  then have "slot_names t0 = slot_names tree" by (auto split: if_splits dest: compact_names)
  moreover have "slot_names tree' = slot_names t0"
    using assms False unfolding flush_memtable_to_sstable_def c bindR_simps prod.case Let_def
    by (auto simp: bindR_Inr_iff slot_names_def intro!: update_keeps_name)
  ultimately show ?thesis by simp
qed

lemma put_names:
  assumes "lsm_put env tree d key val = Inr (tree', d')"
  shows "slot_names tree' = slot_names tree"
  using assms
  by (auto simp: lsm_put_def Let_def bindR_Inr_iff slot_names_def [of "_\<lparr>memtable := _\<rparr>"] slot_names_def [symmetric]
      split: if_splits dest: flush_names)

section \<open>What the operations do to the map\<close>

lemma flush_lookup:
  assumes "lsm_wf t0" and "memtable t0 = m" and "mem_entries m = [p]" and "pair_wf p"
    and "live_tables tree' = live_tables t0 @ [new]" and "ss_pairs new = [copy_pair p]"
    and "mt_size (memtable tree') = 0"
  shows "lsm_lookup tree' = lsm_lookup t0"
  using assms by (auto simp: lsm_lookup_def fun_eq_iff mem_entries_def copy_pair_wf)

lemma compact_lookup:
  assumes "lsm_wf tree" and "2 \<le> sstable_count tree" and "qsort_ok env"
    and "compact_sstables env tree d = Inr (tree', d')"
  shows "lsm_lookup tree' key = map_option pair_value
    (lookup_pair (mem_entries (memtable tree) @ qsort env (oldest_first tree)) key)"
  using assms by (rule compact_outcome) (simp add: lsm_lookup_def lookup_pair_append split: option.split)

lemma lookup_oldest_None:
  "lookup_pair (table_entries (live_tables tree)) key = None \<longleftrightarrow>
    lookup_pair (oldest_first tree) key = None"
  by (simp add: lookup_pair_None_iff set_oldest_first)

lemma compact_keys:
  assumes "lsm_wf tree" and "2 \<le> sstable_count tree" and "qsort_ok env"
    and "compact_sstables env tree d = Inr (tree', d')"
  shows "lsm_lookup tree' key = None \<longleftrightarrow> lsm_lookup tree key = None"
  using assms(3)
  by (subst compact_lookup [OF assms]) (simp add: lsm_lookup_def lookup_pair_append lookup_pair_qsort_None
      lookup_oldest_None split: option.split)

lemma new_pair_wf:
  assumes "is_cstr key" and "is_cstr val"
  shows "pair_wf (new_pair key val)" and "pair_key (new_pair key val) = take 49 key"
    and "pair_value (new_pair key val) = take 99 val"
proof -
  have nul: "NUL \<in> set (copy_field sz buf s)" if "length buf = sz" "0 < sz" for sz buf s
    using that by (auto simp: copy_field_def intro!: set_update_memI)
  show "pair_wf (new_pair key val)" using nul by (simp add: pair_wf_def new_pair_def)
  show "pair_key (new_pair key val) = take 49 key" "pair_value (new_pair key val) = take 99 val"
    using assms by (simp_all add: pair_key_def pair_value_def new_pair_def)
qed

lemma put_into_empty:
  assumes wf: "lsm_wf t1" and "mt_size (memtable t1) = 0" and "is_cstr key" and "is_cstr val"
    and mem: "mt_size (memtable tree') = 1" "mt_capacity (memtable tree') = 1"
      "take 1 (mt_pairs (memtable tree')) = [new_pair key val]"
    and rest: "sstables tree' = sstables t1" "sstable_count tree' = sstable_count t1"
  shows "lsm_wf tree'" and "lsm_lookup tree' = (lsm_lookup t1)(take 49 key \<mapsto> take 99 val)"
proof -
  have live: "live_tables tree' = live_tables t1" using rest by (simp add: live_tables_def)
  have "length (mt_pairs (memtable tree')) \<ge> 1" using mem(3) by (cases "mt_pairs (memtable tree')") auto
  then show "lsm_wf tree'"
    using wf mem rest live assms(3,4)
    by (auto simp: lsm_wf_def memtable_wf_def new_pair_wf)
  show "lsm_lookup tree' = (lsm_lookup t1)(take 49 key \<mapsto> take 99 val)"
    using mem live assms
    by (auto simp: lsm_lookup_def fun_eq_iff mem_entries_def new_pair_wf)
qed

lemma array_store_empty:
  "array_store xs 1 0 x = Inr ys \<longleftrightarrow> ys = x # drop 1 xs"
  by (cases xs) (auto simp: array_store_def)

text \<open>Every successful put is an optional flush followed by a store into the empty memtable.\<close>

lemma put_outcome:
  assumes wf: "lsm_wf tree" and q: "qsort_ok env" and cs: "is_cstr key" "is_cstr val"
    and run: "lsm_put env tree d key val = Inr (tree', d')"
  obtains t1 d1 where "if mt_size (memtable tree) = 0 then t1 = tree
        else flush_memtable_to_sstable env tree d = Inr (t1, d1)"
    and "lsm_wf tree'" and "lsm_lookup tree' = (lsm_lookup t1)(take 49 key \<mapsto> take 99 val)"
    and "sstable_count tree' = sstable_count t1"
proof -
  have mwf: "memtable_wf (memtable tree)" using wf by (simp add: lsm_wf_def)
  then have full: "mt_size (memtable tree) \<ge> mt_capacity (memtable tree)
      \<longleftrightarrow> mt_size (memtable tree) \<noteq> 0" by (auto simp: memtable_wf_def)
  obtain t1 d1 where how: "if mt_size (memtable tree) = 0 then (t1, d1) = (tree, d)
        else flush_memtable_to_sstable env tree d = Inr (t1, d1)"
    and put: "bindR (array_store (mt_pairs (memtable t1)) (mt_capacity (memtable t1))
        (mt_size (memtable t1)) (new_pair key val))
        (\<lambda>pairs. Inr (t1\<lparr>memtable := (memtable t1)\<lparr>mt_pairs := pairs,
           mt_size := mt_size (memtable t1) + 1\<rparr>\<rparr>, d1)) = Inr (tree', d')"
    using run full by (auto simp: lsm_put_def Let_def bindR_Inr_iff split: if_splits)
  have t1: "lsm_wf t1" "mt_size (memtable t1) = 0"
    using how wf q by (auto split: if_splits elim: flush_outcome)
  then have cap: "mt_capacity (memtable t1) = 1" by (simp add: lsm_wf_def memtable_wf_def)
  have tree': "tree' = t1\<lparr>memtable := (memtable t1)\<lparr>mt_pairs := new_pair key val #
      drop 1 (mt_pairs (memtable t1)), mt_size := 1\<rparr>\<rparr>"
    using put t1 cap by (auto simp: bindR_Inr_iff array_store_empty)
  note * = put_into_empty [OF t1 cs, of tree']
  show thesis using that [of t1 d1] how * cap by (simp add: tree' split: if_splits)
qed

end
