(* ===== verification/LSM_Store.thy ===== *)
theory LSM_Store
  imports LSM_Write
begin

text \<open>
  The LSM tree as a key-value store: it meets the read-your-own-write contract with every
  \<^verbatim>\<open>qsort\<close>, the full map contract as long as no put compacts, and what a compaction does
  to the map: with a stable \<^verbatim>\<open>qsort\<close> the oldest version of a key wins.
\<close>

section \<open>The store relation\<close>

text \<open>A successful put of C strings; \<open>lsm_store_plain\<close> is one that does not compact.\<close>

definition lsm_store ::
  "lsm_env \<Rightarrow> LSMTree \<times> disk \<Rightarrow> string \<Rightarrow> string \<Rightarrow> LSMTree \<times> disk \<Rightarrow> bool" where
  "lsm_store env s k v s' \<longleftrightarrow> is_cstr v \<and> lsm_put env (fst s) (snd s) k v = Inr s'"

definition compacts :: "LSMTree \<Rightarrow> bool" where
  "compacts tree \<longleftrightarrow> mt_size (memtable tree) \<noteq> 0 \<and> MAX_SSTABLES \<le> sstable_count tree"

definition lsm_store_plain ::
  "lsm_env \<Rightarrow> LSMTree \<times> disk \<Rightarrow> string \<Rightarrow> string \<Rightarrow> LSMTree \<times> disk \<Rightarrow> bool" where
  "lsm_store_plain env s k v s' \<longleftrightarrow> \<not> compacts (fst s) \<and> lsm_store env s k v s'"

definition lsm_key_ok :: "string \<Rightarrow> bool" where
  "lsm_key_ok k \<longleftrightarrow> is_cstr k \<and> length k < KEY_SIZE"

definition lsm_invar :: "lsm_env \<Rightarrow> LSMTree \<times> disk \<Rightarrow> bool" where
  "lsm_invar env s \<longleftrightarrow> qsort_ok env \<and> lsm_wf (fst s)"

lemma put_keys:
  assumes wf: "lsm_wf tree" and q: "qsort_ok env" and cs: "is_cstr key" "is_cstr val"
    and run: "lsm_put env tree d key val = Inr (tree', d')"
  shows "lsm_wf tree'" and "lsm_lookup tree' (take 49 key) = Some (take 99 val)"
    and "k \<noteq> take 49 key \<Longrightarrow> lsm_lookup tree' k = None \<longleftrightarrow> lsm_lookup tree k = None"
    and "\<not> compacts tree \<Longrightarrow> lsm_lookup tree' = (lsm_lookup tree)(take 49 key \<mapsto> take 99 val)"
    and "\<not> compacts tree \<Longrightarrow> sstable_count tree' \<le> sstable_count tree + 1"
proof -
  from wf q cs run obtain t1 d1 where how: "if mt_size (memtable tree) = 0 then t1 = tree
        else flush_memtable_to_sstable env tree d = Inr (t1, d1)"
    and wf': "lsm_wf tree'" and look: "lsm_lookup tree' = (lsm_lookup t1)(take 49 key \<mapsto> take 99 val)"
    and cnt: "sstable_count tree' = sstable_count t1"
    by (rule put_outcome)
  show "lsm_wf tree'" by (rule wf')
  show "lsm_lookup tree' (take 49 key) = Some (take 99 val)" by (simp add: look)
  have flushed: "(lsm_lookup t1 k = None \<longleftrightarrow> lsm_lookup tree k = None)
      \<and> (\<not> compacts tree \<longrightarrow> lsm_lookup t1 = lsm_lookup tree
            \<and> sstable_count t1 \<le> sstable_count tree + 1)" for k
  proof (cases "mt_size (memtable tree) = 0")
    case True
    with how show ?thesis by simp
  next
    case False
    with how have "flush_memtable_to_sstable env tree d = Inr (t1, d1)" by simp
    with wf q False obtain t0 d0 p new where t0: "lsm_wf t0" "memtable t0 = memtable tree"
      and comp: "if MAX_SSTABLES \<le> sstable_count tree then compact_sstables env tree d = Inr (t0, d0)
         else t0 = tree"
      and new: "mem_entries (memtable tree) = [p]" "live_tables t1 = live_tables t0 @ [new]"
        "ss_pairs new = [copy_pair p]" "sstable_count t1 = sstable_count t0 + 1"
        "mt_size (memtable t1) = 0" "pair_wf p"
      by (rule flush_outcome)
    have eq: "lsm_lookup t1 = lsm_lookup t0"
      using t0 new(1,6,2,3,5) by (rule flush_lookup)
    show ?thesis
    proof (cases "MAX_SSTABLES \<le> sstable_count tree")
      case True
      with comp have "compact_sstables env tree d = Inr (t0, d0)" by simp
      with compact_keys [OF wf _ q this] True False eq show ?thesis by (simp add: compacts_def)
    next
      case False
      with comp eq new(4) show ?thesis by simp
    qed
  qed
  show "k \<noteq> take 49 key \<Longrightarrow> lsm_lookup tree' k = None \<longleftrightarrow> lsm_lookup tree k = None"
    using flushed by (simp add: look)
  show "\<not> compacts tree \<Longrightarrow> lsm_lookup tree' = (lsm_lookup tree)(take 49 key \<mapsto> take 99 val)"
    using flushed by (simp add: look)
  show "\<not> compacts tree \<Longrightarrow> sstable_count tree' \<le> sstable_count tree + 1"
    using flushed by (simp add: cnt)
qed

interpretation lsm_kv: kv_basic "\<lambda>s. lsm_lookup (fst s)" "lsm_store env" "lsm_invar env"
  "take 99" lsm_key_ok for env
proof
  fix s s' :: "LSMTree \<times> disk" and k k' v :: string
  assume "lsm_invar env s" "lsm_key_ok k" "lsm_store env s k v s'"
  then have h: "lsm_wf (fst s)" "qsort_ok env" "is_cstr k" "is_cstr v"
    "lsm_put env (fst s) (snd s) k v = Inr (fst s', snd s')" "take 49 k = k"
    by (auto simp: lsm_invar_def lsm_key_ok_def lsm_store_def)
  note facts = put_keys [OF h(1-5), unfolded h(6)]
  show "lsm_invar env s'" using facts(1) h by (simp add: lsm_invar_def)
  show "lsm_lookup (fst s') k = Some (take 99 v)" by (rule facts(2))
  show "k' \<noteq> k \<Longrightarrow> lsm_lookup (fst s') k' = None \<longleftrightarrow> lsm_lookup (fst s) k' = None"
    by (rule facts(3))
qed

interpretation lsm_map: kv_map "\<lambda>s. lsm_lookup (fst s)" "lsm_store_plain env" "lsm_invar env"
  "take 99" lsm_key_ok for env
proof
  fix s s' :: "LSMTree \<times> disk" and k v :: string
  assume h: "lsm_invar env s" "lsm_key_ok k" "lsm_store_plain env s k v s'"
  then have "lsm_store env s k v s'" by (simp add: lsm_store_plain_def)
  with h show "lsm_invar env s'" by (blast intro: lsm_kv.store_invar)
  from h have h': "lsm_wf (fst s)" "qsort_ok env" "is_cstr k" "is_cstr v"
    "lsm_put env (fst s) (snd s) k v = Inr (fst s', snd s')" "take 49 k = k" "\<not> compacts (fst s)"
    by (auto simp: lsm_invar_def lsm_key_ok_def lsm_store_def lsm_store_plain_def)
  then show "lsm_lookup (fst s') = (lsm_lookup (fst s))(k \<mapsto> take 99 v)"
    using put_keys(4) [OF h'(1-5) h'(7)] by simp
qed

section \<open>Puts succeed\<close>

definition tree_pairs :: "LSMTree \<Rightarrow> int" where
  "tree_pairs tree = sum_list (map ss_size (live_tables tree))"

lemma compact_succeeds:
  assumes "resources_ok env tree" and "lsm_wf tree" and "tree_pairs tree < 2 ^ 31"
  shows "\<exists>t d'. compact_sstables env tree d = Inr (t, d')"
proof (cases "sstable_count tree < 2")
  case True
  then show ?thesis by (simp add: compact_sstables_def)
next
  case False
  obtain arr u where dd: "dedup_in_place (qsort env (collect_pairs (live_tables tree))) = (arr, u)"
    by fastforce
  define freed where "freed = map (\<lambda>t. t\<lparr>ss_pairs := [], ss_size := 0\<rparr>) (live_tables tree)
    @ drop (nat (sstable_count tree)) (sstables tree)"
  have "length freed = 10" using assms(2) by (simp add: freed_def lsm_wf_def live_tables_def)
  then have "freed ! 0 \<in> set freed" by simp
  then have "NUL \<in> set (ss_filename (freed ! 0)) \<and> fopen_ok env (cstr (ss_filename (freed ! 0)))"
    using assms(2) resources_ok_slot [OF assms(1)]
    by (auto simp: freed_def lsm_wf_def live_tables_def name_wf_def dest: in_set_takeD in_set_dropD)
  then have "\<exists>d'. save_sstable_to_disk env ((freed ! 0)\<lparr>ss_pairs := take u arr, ss_size := int u\<rparr>) d
      = Inr d'"
    by (simp add: save_sstable_to_disk_def)
  then show ?thesis
    using False resources_ok_memory(1) [OF assms(1)] assms(3) dd
    by (auto simp: compact_sstables_def Let_def tree_pairs_def
        live_tables_def [symmetric] freed_def [symmetric])
qed

lemma flush_succeeds:
  assumes r: "resources_ok env tree" and q: "qsort_ok env" and wf: "lsm_wf tree"
    and small: "compacts tree \<longrightarrow> tree_pairs tree < 2 ^ 31"
  shows "\<exists>t d'. flush_memtable_to_sstable env tree d = Inr (t, d')"
proof (cases "mt_size (memtable tree) = 0")
  case True
  then show ?thesis by (simp add: flush_memtable_to_sstable_def)
next
  case False
  have plain: "\<exists>t1 d1. flush_memtable_to_sstable env t d = Inr (t1, d1)"
    if "lsm_wf t" "sstable_count t < MAX_SSTABLES" "resources_ok env t" for t d
  proof -
    have slot: "nat (sstable_count t) < length (sstables t)" using that by (simp add: lsm_wf_def)
    then have "name_wf (sstables t ! nat (sstable_count t))" using that(1) by (simp add: lsm_wf_def)
    then have "NUL \<in> set (ss_filename (sstables t ! nat (sstable_count t)))"
      by (simp add: name_wf_def)
    moreover have "fopen_ok env (cstr (ss_filename (sstables t ! nat (sstable_count t))))"
      using slot by (intro resources_ok_slot [OF that(3)]) simp
    ultimately show ?thesis
      using that(1,2) slot resources_ok_memory(1) [OF that(3)]
      by (auto simp: flush_memtable_to_sstable_def Let_def save_sstable_to_disk_def lsm_wf_def)
  qed
  show ?thesis
  proof (cases "sstable_count tree < MAX_SSTABLES")
    case True
    then show ?thesis using plain wf r by blast
  next
    case full: False
    have "tree_pairs tree < 2 ^ 31" using small False full by (simp add: compacts_def)
    then obtain t0 d0 where c: "compact_sstables env tree d = Inr (t0, d0)"
      using compact_succeeds [OF r wf] by blast
    with wf q full obtain m where "lsm_wf t0" "sstable_count t0 = 1" "memtable t0 = memtable tree"
      by (auto elim: compact_outcome)
    moreover have "resources_ok env t0" using r compact_names [OF c] by (rule resources_ok_names)
    ultimately show ?thesis
      using plain [of t0 d0] flush_after_compaction [OF False _ c] full by simp
  qed
qed

lemma put_succeeds:
  assumes r: "resources_ok env tree" and q: "qsort_ok env" and wf: "lsm_wf tree"
    and small: "compacts tree \<longrightarrow> tree_pairs tree < 2 ^ 31"
  shows "\<exists>t d'. lsm_put env tree d key val = Inr (t, d')"
proof -
  have mwf: "memtable_wf (memtable tree)" using wf by (simp add: lsm_wf_def)
  obtain t1 d1 where f: "flush_memtable_to_sstable env tree d = Inr (t1, d1)"
    using flush_succeeds r q wf small by blast
  show ?thesis
  proof (cases "mt_size (memtable tree) = 0")
    case True
    then show ?thesis using mwf by (auto simp: lsm_put_def memtable_wf_def array_store_def Let_def)
  next
    case False
    with f wf q have "lsm_wf t1" "mt_size (memtable t1) = 0" by (auto elim: flush_outcome)
    then show ?thesis
      using False mwf f by (auto simp: lsm_put_def lsm_wf_def memtable_wf_def array_store_def Let_def)
  qed
qed

section \<open>Runs of puts\<close>

fun lsm_puts ::
  "lsm_env \<Rightarrow> LSMTree \<times> disk \<Rightarrow> (string \<times> string) list \<Rightarrow> lsm_fault + LSMTree \<times> disk" where
  "lsm_puts env s [] = Inr s"
| "lsm_puts env s ((k, v) # kvs) =
     bindR (lsm_put env (fst s) (snd s) k v) (\<lambda>s'. lsm_puts env s' kvs)"

definition puts_ok :: "(string \<times> string) list \<Rightarrow> bool" where
  "puts_ok kvs \<longleftrightarrow> (\<forall>(k, v) \<in> set kvs. lsm_key_ok k \<and> is_cstr v)"

lemma puts_ok_simps [simp]:
  "puts_ok []" "puts_ok ((k, v) # kvs) \<longleftrightarrow> lsm_key_ok k \<and> is_cstr v \<and> puts_ok kvs"
  by (auto simp: puts_ok_def)

lemma puts_ok_keys: "puts_ok kvs \<Longrightarrow> \<forall>(k, v) \<in> set kvs. lsm_key_ok k"
  by (auto simp: puts_ok_def)

lemma lsm_puts_store_all:
  "puts_ok kvs \<Longrightarrow> lsm_puts env s kvs = Inr s' \<Longrightarrow> store_all (lsm_store env) s kvs s'"
  by (induction env s kvs rule: lsm_puts.induct)
    (auto simp: bindR_Inr_iff lsm_store_def)

lemma lsm_puts_plain:
  assumes "qsort_ok env"
  shows "resources_ok env (fst s) \<Longrightarrow> lsm_wf (fst s) \<Longrightarrow> puts_ok kvs \<Longrightarrow>
    sstable_count (fst s) + int (length kvs) \<le> MAX_SSTABLES \<Longrightarrow>
    \<exists>s'. lsm_puts env s kvs = Inr s' \<and> store_all (lsm_store_plain env) s kvs s'"
proof (induction kvs arbitrary: s)
  case (Cons kv kvs)
  obtain k v where kv: "kv = (k, v)" by fastforce
  have room: "\<not> compacts (fst s)" using Cons.prems(4) by (simp add: compacts_def)
  then obtain t d' where p: "lsm_put env (fst s) (snd s) k v = Inr (t, d')"
    using put_succeeds assms Cons.prems(1,2) by blast
  have cs: "is_cstr k" "is_cstr v" using Cons.prems(3) kv by (auto simp: lsm_key_ok_def)
  note facts = put_keys [OF Cons.prems(2) assms cs p]
  have "resources_ok env t" using Cons.prems(1) put_names [OF p] by (rule resources_ok_names)
  moreover have "sstable_count t \<le> sstable_count (fst s) + 1" using facts(5) room by blast
  ultimately obtain s' where "lsm_puts env (t, d') kvs = Inr s'" "store_all (lsm_store_plain env) (t, d') kvs s'"
    using Cons.IH [of "(t, d')"] facts(1) Cons.prems kv by auto
  moreover have "lsm_store_plain env s k v (t, d')"
    using p room cs by (simp add: lsm_store_plain_def lsm_store_def)
  ultimately show ?case using p by (auto simp: kv)
qed simp

text \<open>Trees for the witnesses: their slots have the names that a load gives them.\<close>

definition table_of :: "nat \<Rightarrow> KeyValuePair list \<Rightarrow> SSTable" where
  "table_of i ps = \<lparr>ss_pairs = ps, ss_size = int (length ps),
     ss_filename = sstable_filename (replicate 32 NUL) i\<rparr>"

lemma table_of_simps [simp]: "ss_pairs (table_of i ps) = ps" "ss_size (table_of i ps) = int (length ps)"
  by (simp_all add: table_of_def)

lemma table_of_name [simp]:
  assumes "i < 10"
  shows "name_wf (table_of i ps)" and "fopen_ok good_env (cstr (ss_filename (table_of i ps)))"
proof -
  have d: "dec_digits i = [char_of (48 + i)]" using assms by (simp add: dec_digits.simps)
  have "(of_char (char_of (48 + i) :: char) :: nat) = 48 + i" using assms by simp
  then have c: "char_of (48 + i) \<noteq> (NUL :: char)" "char_of (48 + i) \<noteq> (CHR ''/'' :: char)"
    by (auto dest!: arg_cong [of _ _ "of_char :: char \<Rightarrow> nat"])
  show "name_wf (table_of i ps)"
    using d by (simp add: name_wf_def table_of_def sstable_filename_def Let_def snprintf_def)
  show "fopen_ok good_env (cstr (ss_filename (table_of i ps)))"
    using d c by (simp add: good_env_def table_of_def sstable_filename_def Let_def snprintf_def cstr_def)
qed

definition empty_tree :: LSMTree where
  "empty_tree = \<lparr>memtable = \<lparr>mt_pairs = [], mt_size = 0, mt_capacity = MEMTABLE_SIZE\<rparr>,
     sstables = map (\<lambda>i. table_of i []) [0..<10], sstable_count = 0\<rparr>"

lemma empty_tree_wf [simp]: "lsm_wf empty_tree"
  by (auto simp: lsm_wf_def empty_tree_def memtable_wf_def live_tables_def)

lemma empty_tree_resources [simp]: "resources_ok good_env empty_tree"
  by (auto simp: resources_ok_def slot_names_def empty_tree_def)

lemma empty_tree_lookup [simp]: "lsm_lookup empty_tree = Map.empty"
  by (simp add: lsm_lookup_def empty_tree_def mem_entries_def live_tables_def fun_eq_iff)

text \<open>C6:
  As long as the free table slots last, puts of keys under 50 bytes behave like updates of a
  finite map: when allocation succeeds and \<^verbatim>\<open>fopen\<close> opens the names the tree's slots hold,
  they all succeed, keep the tree well formed, and leave under every key the last value
  stored, cut to 99 bytes.
\<close>

theorem lsm_run_map:
  assumes "resources_ok env tree" and "qsort_ok env" and "lsm_wf tree" and "puts_ok kvs"
    and "sstable_count tree + int (length kvs) \<le> MAX_SSTABLES"
  shows "\<exists>tree' d'. lsm_puts env (tree, d) kvs = Inr (tree', d') \<and> lsm_wf tree' \<and>
    lsm_lookup tree' = lsm_lookup tree ++ map_of (rev (map (\<lambda>(k, v). (k, take 99 v)) kvs))"
proof -
  obtain s' where run: "lsm_puts env (tree, d) kvs = Inr s'"
    "store_all (lsm_store_plain env) (tree, d) kvs s'"
    using lsm_puts_plain [OF assms(2), of "(tree, d)" kvs] assms by auto
  have inv: "lsm_invar env (tree, d)" using assms by (simp add: lsm_invar_def)
  note lsm_map.store_all_map [OF inv puts_ok_keys [OF assms(4)] run(2)]
  moreover have "lsm_invar env s'"
    using lsm_map.store_all_invar [OF inv puts_ok_keys [OF assms(4)] run(2)] .
  ultimately show ?thesis using run(1) by (cases s') (auto simp: lsm_invar_def)
qed

lemma lsm_run_map_witness:
  "\<exists>tree' d'. lsm_puts good_env (empty_tree, Map.empty)
      [(''a'', ''1''), (''b'', ''2''), (''a'', ''3'')] = Inr (tree', d') \<and> lsm_wf tree' \<and>
    lsm_lookup tree' = Map.empty ++ map_of [(''a'', ''3''), (''b'', ''2''), (''a'', ''1'')]"
  using lsm_run_map [of good_env empty_tree "[(''a'', ''1''), (''b'', ''2''), (''a'', ''3'')]" Map.empty]
  by (simp add: lsm_key_ok_def) (simp add: empty_tree_def)

text \<open>C7:
  Any run of puts of keys under 50 bytes that succeeds, however often it compacts and
  whatever \<^verbatim>\<open>qsort\<close> does with equal keys, keeps the tree well formed, makes exactly the stored
  keys present besides the old ones, and the put done last reads back its own value, cut to
  99 bytes. (Of a longer key the tree keeps the first 49 bytes: \<open>long_key_unreadable\<close>.)
\<close>

theorem lsm_run_keys:
  assumes "qsort_ok env" and "lsm_wf tree" and "puts_ok kvs" and "puts_ok [(k, v)]"
    and "lsm_puts env (tree, d) kvs = Inr (t1, d1)" and "lsm_put env t1 d1 k v = Inr (t2, d2)"
  shows "lsm_wf t2 \<and> lsm_lookup t2 k = Some (take 99 v) \<and>
    (lsm_lookup t2 k' = None \<longleftrightarrow> lsm_lookup tree k' = None \<and> k' \<notin> insert k (fst ` set kvs))"
proof -
  have inv: "lsm_invar env (tree, d)" using assms by (simp add: lsm_invar_def)
  have run: "store_all (lsm_store env) (tree, d) kvs (t1, d1)"
    using assms by (simp add: lsm_puts_store_all)
  have last: "lsm_store env (t1, d1) k v (t2, d2)" and ok: "lsm_key_ok k"
    using assms by (simp_all add: lsm_store_def)
  note keys = puts_ok_keys [OF assms(3)]
  have inv1: "lsm_invar env (t1, d1)" by (rule lsm_kv.store_all_invar [OF inv keys run])
  have "lsm_wf t2" using lsm_kv.store_invar [OF inv1 ok last] by (simp add: lsm_invar_def)
  moreover have own: "lsm_lookup t2 k = Some (take 99 v)"
    using lsm_kv.store_all_last [OF inv keys ok run last] by simp
  moreover have "lsm_lookup t2 k' = None \<longleftrightarrow>
      lsm_lookup tree k' = None \<and> k' \<notin> insert k (fst ` set kvs)"
    using lsm_kv.store_all_keys [OF inv keys run, of k'] lsm_kv.store_keys [OF inv1 ok last, of k'] own
    by (cases "k' = k") auto
  ultimately show ?thesis by blast
qed

lemma lsm_run_keys_witness:
  "\<exists>t1 d1 t2 d2. lsm_puts good_env (empty_tree, Map.empty) [(''a'', ''1'')] = Inr (t1, d1) \<and>
    lsm_put good_env t1 d1 ''b'' ''2'' = Inr (t2, d2) \<and>
    lsm_lookup t2 ''b'' = Some ''2'' \<and> lsm_lookup t2 ''a'' \<noteq> None \<and> lsm_lookup t2 ''c'' = None"
proof -
  have room: "sstable_count empty_tree + int (length [(''a'', ''1''), (''b'', ''2'')]) \<le> 10"
    by (simp add: empty_tree_def)
  obtain t2 d2 where "lsm_puts good_env (empty_tree, Map.empty) [(''a'', ''1''), (''b'', ''2'')] = Inr (t2, d2)"
    using lsm_puts_plain [of good_env "(empty_tree, Map.empty)" "[(''a'', ''1''), (''b'', ''2'')]"] room
    by (auto simp: lsm_key_ok_def)
  then obtain t1 d1 where r: "lsm_puts good_env (empty_tree, Map.empty) [(''a'', ''1'')] = Inr (t1, d1)"
    "lsm_put good_env t1 d1 ''b'' ''2'' = Inr (t2, d2)"
    by (auto simp: bindR_Inr_iff)
  have ok: "puts_ok [(''a'', ''1'')]" "puts_ok [(''b'', ''2'')]" by (simp_all add: lsm_key_ok_def)
  note run = lsm_run_keys [OF good_env_ok(3) empty_tree_wf ok r]
  show ?thesis using r run [of "''a''"] run [of "''c''"] by auto
qed

section \<open>What a compaction changes\<close>

lemma lookup_pair_distinct:
  "distinct (map pair_key ps) \<Longrightarrow> set qs = set ps \<Longrightarrow> lookup_pair qs key = lookup_pair ps key"
proof -
  assume d: "distinct (map pair_key ps)" and s: "set qs = set ps"
  show ?thesis
  proof (cases "lookup_pair qs key")
    case None
    then have "lookup_pair ps key = None" using s by (simp add: lookup_pair_None_iff)
    with None show ?thesis by simp
  next
    case (Some p)
    then have "p \<in> set ps" "pair_key p = key" using s by (auto dest: lookup_pair_SomeD)
    with Some d show ?thesis by (auto dest: lookup_pair_unique)
  qed
qed

text \<open>C16:
  A compaction keeps the tree well formed, the memtable and the set of keys; every value it
  leaves was stored under that key; it merges the tables into one without duplicate keys, so
  when no key is in two tables nothing is observable.
\<close>

theorem compact_sstables_correct:
  assumes "lsm_wf tree" and "qsort_ok env" and "compact_sstables env tree d = Inr (tree', d')"
  shows "lsm_wf tree' \<and> memtable tree' = memtable tree
    \<and> (\<forall>key. lsm_lookup tree' key = None \<longleftrightarrow> lsm_lookup tree key = None)
    \<and> set (table_entries (live_tables tree')) \<subseteq> set (table_entries (live_tables tree))
    \<and> (2 \<le> sstable_count tree \<longrightarrow> sstable_count tree' = 1
         \<and> distinct (map pair_key (table_entries (live_tables tree'))))
    \<and> (distinct (map pair_key (oldest_first tree)) \<longrightarrow> lsm_lookup tree' = lsm_lookup tree)"
proof (cases "sstable_count tree < 2")
  case True
  then show ?thesis using assms by (simp add: compact_sstables_def)
next
  case False
  then have two: "2 \<le> sstable_count tree" by simp
  obtain merged where m: "live_tables tree' = [merged]" "sstable_count tree' = 1"
    "ss_pairs merged = first_of_runs (qsort env (oldest_first tree))"
    "memtable tree' = memtable tree" "lsm_wf tree'"
    using assms(1) two assms(2,3) by (rule compact_outcome)
  have "key_ordered (ss_pairs merged)" using lsm_wf_live [OF m(5), of merged] m(1) by (simp add: table_wf_def)
  then have "distinct (map pair_key (table_entries (live_tables tree')))"
    by (simp add: m(1) key_ordered_distinct)
  moreover have "set (table_entries (live_tables tree')) \<subseteq> set (table_entries (live_tables tree))"
    using set_first_of_runs [of "qsort env (oldest_first tree)"]
    by (simp add: m(1,3) qsort_ok_facts(3) [OF assms(2)] set_oldest_first)
  moreover have "lsm_lookup tree' = lsm_lookup tree" if d: "distinct (map pair_key (oldest_first tree))"
  proof
    fix key
    have "lookup_pair (qsort env (oldest_first tree)) key = lookup_pair (oldest_first tree) key"
      "lookup_pair (table_entries (live_tables tree)) key = lookup_pair (oldest_first tree) key"
      using d by (auto intro!: lookup_pair_distinct simp: qsort_ok_facts(3) [OF assms(2)] set_oldest_first)
    then show "lsm_lookup tree' key = lsm_lookup tree key"
      by (subst compact_lookup [OF assms(1) two assms(2,3)])
        (simp add: lsm_lookup_def lookup_pair_append split: option.split)
  qed
  ultimately show ?thesis
    using m(2,4,5) compact_keys [OF assms(1) two assms(2,3)] by blast
qed

text \<open>C22:
  With a stable \<^verbatim>\<open>qsort\<close> a put (of a key under 50 bytes) that triggers the compaction makes
  every key but the stored one and the one the memtable held read back the OLDEST value any
  table holds for it: an overwritten value comes back.
\<close>

theorem compaction_revives_oldest:
  assumes "lsm_wf tree" and "qsort_stable env" and "puts_ok [(k, v)]" and "compacts tree"
    and "lsm_put env tree d k v = Inr (tree', d')"
    and "key \<noteq> k" and "key \<notin> pair_key ` set (mem_entries (memtable tree))"
  shows "lsm_lookup tree' key = map_option pair_value (lookup_pair (oldest_first tree) key)"
proof -
  note q = qsort_stable_ok [OF assms(2)]
  have ok: "is_cstr k" "is_cstr v" "take 49 k = k" using assms(3) by (auto simp: lsm_key_ok_def)
  have mt: "mt_size (memtable tree) \<noteq> 0" and full: "MAX_SSTABLES \<le> sstable_count tree"
    using assms(4) by (auto simp: compacts_def)
  obtain t1 d1 where f: "flush_memtable_to_sstable env tree d = Inr (t1, d1)"
    and look: "lsm_lookup tree' = (lsm_lookup t1)(take 49 k \<mapsto> take 99 v)"
    using put_outcome [OF assms(1) q ok(1,2) assms(5)] mt by (metis (no_types, lifting))
  obtain t0 d0 p new where t0: "lsm_wf t0" "memtable t0 = memtable tree"
    and comp: "compact_sstables env tree d = Inr (t0, d0)"
    and new: "mem_entries (memtable tree) = [p]" "live_tables t1 = live_tables t0 @ [new]"
      "ss_pairs new = [copy_pair p]" "mt_size (memtable t1) = 0" "pair_wf p"
    using flush_outcome [OF assms(1) q mt f] full by (metis (no_types, lifting))
  have "lsm_lookup t1 = lsm_lookup t0" using t0 new(1,5,2,3,4) by (rule flush_lookup)
  moreover have "lsm_lookup t0 key =
      map_option pair_value (lookup_pair (mem_entries (memtable tree) @ qsort env (oldest_first tree)) key)"
    using full by (intro compact_lookup [OF assms(1) _ q comp]) simp
  moreover have "lookup_pair (mem_entries (memtable tree)) key = None"
    using assms(7) by (simp add: lookup_pair_None_iff)
  ultimately show ?thesis
    using look ok assms(6) by (simp add: lookup_pair_append lookup_pair_stable [OF assms(2)])
qed

text \<open>A full tree whose first two tables hold an old and a new value of the key \<open>k\<close>.\<close>

definition full_tree :: LSMTree where
  "full_tree = \<lparr>memtable = \<lparr>mt_pairs = [new_pair ''z'' ''9''], mt_size = 1, mt_capacity = 1\<rparr>,
     sstables = table_of 0 [new_pair ''k'' ''old''] # table_of 1 [new_pair ''k'' ''new''] #
       map (\<lambda>i. table_of i []) [2..<10],
     sstable_count = 10\<rparr>"

lemma full_tree_live: "live_tables full_tree = sstables full_tree"
  by (simp add: live_tables_def full_tree_def)

lemma full_tree_facts:
  "lsm_wf full_tree" "compacts full_tree" "tree_pairs full_tree = 2"
  "mem_entries (memtable full_tree) = [new_pair ''z'' ''9'']"
  "oldest_first full_tree = [new_pair ''k'' ''old'', new_pair ''k'' ''new'']"
  "table_entries (live_tables full_tree) = [new_pair ''k'' ''new'', new_pair ''k'' ''old'']"
proof -
  show "lsm_wf full_tree"
    unfolding lsm_wf_def full_tree_live
    by (auto simp: full_tree_def memtable_wf_def table_wf_def new_pair_wf)
  show "oldest_first full_tree = [new_pair ''k'' ''old'', new_pair ''k'' ''new'']"
    "table_entries (live_tables full_tree) = [new_pair ''k'' ''new'', new_pair ''k'' ''old'']"
    "tree_pairs full_tree = 2"
    unfolding oldest_first_def table_entries_def tree_pairs_def full_tree_live
    by (simp_all add: full_tree_def upt_rec)
  show "compacts full_tree" "mem_entries (memtable full_tree) = [new_pair ''z'' ''9'']"
    by (simp_all add: full_tree_def compacts_def mem_entries_def)
qed

lemma full_tree_resources [simp]: "resources_ok good_env full_tree"
  by (auto simp: resources_ok_def slot_names_def full_tree_def)

lemma lsm_get_correct_witness:
  "lsm_get good_env full_tree ''k'' = Inr (Some ''new'') \<and> lsm_get good_env full_tree ''q'' = Inr None"
  using lsm_get_correct [OF full_tree_facts(1), of good_env "''k''"]
    lsm_get_correct [OF full_tree_facts(1), of good_env "''q''"]
  by (simp add: lsm_lookup_def full_tree_facts new_pair_wf strdup_def good_env_def)

lemma compact_sstables_correct_witness:
  "\<exists>t d. compact_sstables good_env full_tree Map.empty = Inr (t, d) \<and> lsm_wf t \<and>
    sstable_count t = 1 \<and> lsm_lookup t ''k'' \<noteq> None \<and> lsm_lookup t ''q'' = None"
proof -
  obtain t d where c: "compact_sstables good_env full_tree Map.empty = Inr (t, d)"
    using compact_succeeds [OF full_tree_resources full_tree_facts(1)] full_tree_facts(3) by fastforce
  have "2 \<le> sstable_count full_tree" by (simp add: full_tree_def)
  moreover have "lsm_lookup full_tree ''k'' \<noteq> None" "lsm_lookup full_tree ''q'' = None"
    by (simp_all add: lsm_lookup_def full_tree_facts new_pair_wf)
  moreover note r = compact_sstables_correct [OF full_tree_facts(1) good_env_ok(3) c]
  have "lsm_lookup t key = None \<longleftrightarrow> lsm_lookup full_tree key = None" for key
    using r by (elim conjE) (erule spec)
  ultimately have "lsm_lookup t ''k'' \<noteq> None" "lsm_lookup t ''q'' = None" "sstable_count t = 1" "lsm_wf t"
    using r by simp_all
  with c show ?thesis by (intro exI conjI)
qed

text \<open>The put of an unrelated key turns the read of \<open>k\<close> from the new value to the old one.\<close>

lemma compaction_revives_oldest_witness:
  "\<exists>t d. lsm_put good_env full_tree Map.empty ''y'' ''1'' = Inr (t, d) \<and>
    lsm_lookup full_tree ''k'' = Some ''new'' \<and> lsm_lookup t ''k'' = Some ''old''"
proof -
  obtain t d where p: "lsm_put good_env full_tree Map.empty ''y'' ''1'' = Inr (t, d)"
    using put_succeeds [OF full_tree_resources good_env_ok(3) full_tree_facts(1)] full_tree_facts(3) by fastforce
  have ok: "puts_ok [(''y'', ''1'')]" by (simp add: lsm_key_ok_def)
  have "lsm_lookup t ''k'' = map_option pair_value (lookup_pair (oldest_first full_tree) ''k'')"
    by (rule compaction_revives_oldest [OF full_tree_facts(1) good_env_ok(2) ok full_tree_facts(2) p])
      (simp_all add: full_tree_facts new_pair_wf)
  then show ?thesis
    using p by (simp add: lsm_lookup_def full_tree_facts new_pair_wf)
qed

section \<open>Termination, faults and long keys\<close>

text \<open>C28:
  The in-place duplicate removal keeps the array's length and leaves in its first
  \<open>unique_count\<close> slots exactly the first pair of every run of equal keys: overwriting the
  array it still reads from never changes a comparison.
\<close>

theorem dedup_in_place_correct:
  "case dedup_in_place ps of (arr, unique_count) \<Rightarrow>
     length arr = length ps \<and> unique_count = length (first_of_runs ps) \<and>
     take unique_count arr = first_of_runs ps"
proof -
  obtain arr u where dd: "dedup_in_place ps = (arr, u)" by fastforce
  then have "length arr = length ps"
    using dedup_inv_fold [of "length ps" ps] by (simp add: dedup_in_place_def dedup_inv_def)
  with dedup_in_place_runs [OF dd] show ?thesis unfolding dd by blast
qed

text \<open>With memory and files available, and fewer than \<open>2 ^ 31\<close> pairs in the tables when it has
  to compact, a put on a well-formed tree always returns: it never leaves an array and never
  exits, and its result is a well-formed tree.
\<close>

lemma lsm_put_succeeds:
  assumes "resources_ok env tree" and "qsort_ok env" and "lsm_wf tree" and "is_cstr key" and "is_cstr val"
    and "compacts tree \<longrightarrow> tree_pairs tree < 2 ^ 31"
  shows "\<exists>tree' d'. lsm_put env tree d key val = Inr (tree', d') \<and> lsm_wf tree'"
  using put_succeeds [OF assms(1-3,6), of d key val] put_keys(1) [OF assms(3,2,4,5)] by blast

lemma lsm_put_succeeds_witness:
  "\<exists>tree' d'. lsm_put good_env full_tree Map.empty ''y'' ''1'' = Inr (tree', d') \<and> lsm_wf tree'"
  by (rule lsm_put_succeeds [OF full_tree_resources good_env_ok(3) full_tree_facts(1)]) (simp_all add: full_tree_facts)

text \<open>A key of 50 bytes or more can be stored but never found: the tree keeps its first 49
  bytes, under which the value then answers, while the read compares with the whole key.
\<close>

lemma long_key_unreadable:
  assumes "lsm_wf tree" and "qsort_ok env" and "is_cstr key" and "is_cstr val"
    and "KEY_SIZE \<le> length key" and "lsm_put env tree d key val = Inr (tree', d')"
  shows "lsm_get env tree' key = Inr None \<and> lsm_lookup tree' (take 49 key) = Some (take 99 val)"
proof -
  note facts = put_keys(1,2) [OF assms(1-4,6)]
  have short: "length (pair_key p) < KEY_SIZE"
    if "p \<in> set (mem_entries (memtable tree') @ table_entries (live_tables tree'))" for p
  proof -
    have "pair_wf p" using that facts(1)
      by (auto simp: lsm_wf_def memtable_wf_def mem_entries_def table_entries_def table_wf_def)
    then show ?thesis
      using length_cstr_terminated [of "kv_key p"] by (simp add: pair_wf_def pair_key_def)
  qed
  have "lsm_lookup tree' key = None"
    using short assms(5) by (force simp: lsm_lookup_def lookup_pair_None_iff)
  then show ?thesis using facts by (simp add: lsm_get_correct)
qed

lemma long_key_unreadable_witness:
  "\<exists>t d. lsm_put good_env empty_tree Map.empty (replicate 50 CHR ''x'') ''v'' = Inr (t, d) \<and>
    lsm_get good_env t (replicate 50 CHR ''x'') = Inr None \<and>
    lsm_lookup t (replicate 49 CHR ''x'') = Some ''v''"
proof -
  have key: "is_cstr (replicate 50 CHR ''x'')" by (simp add: is_cstr_def)
  obtain t d where p: "lsm_put good_env empty_tree Map.empty (replicate 50 CHR ''x'') ''v'' = Inr (t, d)"
    using put_succeeds [OF empty_tree_resources good_env_ok(3) empty_tree_wf]
    by (fastforce simp: compacts_def empty_tree_def)
  with long_key_unreadable [OF empty_tree_wf good_env_ok(3) key _ _ p] show ?thesis by simp
qed

end
