(* ===== verification/LSM_Restart.thy ===== *)
theory LSM_Restart
  imports LSM_Store
begin

text \<open>
  Persistence of the LSM tree: the byte format reads back what was written, a table file
  reads back as its table, and a tree closed with \<open>free_lsm_tree\<close> comes back from
  \<open>init_lsm_tree\<close> with the same contents. Last, what the program does on an empty disk.
\<close>

section \<open>The byte format\<close>

lemma length_le_bytes [simp]: "length (le_bytes k v) = k"
  by (induction k arbitrary: v) auto

lemma le_value_bytes: "le_value (le_bytes k v) = v mod 256 ^ k"
proof (induction k arbitrary: v)
  case (Suc k)
  have "le_value (le_bytes (Suc k) v) = v mod 256 + 256 * (v div 256 mod 256 ^ k)"
    by (simp add: Suc.IH)
  also have "\<dots> = v mod (256 * 256 ^ k)" by (simp add: mod_mult2_eq)
  finally show ?case by simp
qed simp

lemma length_int_bytes [simp]: "length (int_bytes i) = 4"
  by (simp add: int_bytes_def)

lemma read_int_bytes:
  assumes "- (2 ^ 31) \<le> i" and "i < 2 ^ 31"
  shows "read_int (int_bytes i @ rest) = Some (i, rest)"
proof -
  have "le_value (take 4 (int_bytes i @ rest)) = nat (i mod 2 ^ 32)"
    by (simp add: int_bytes_def le_value_bytes)
  then have v: "int (le_value (take 4 (int_bytes i @ rest))) = i mod 2 ^ 32" by simp
  have "(if i mod 4294967296 < 2147483648 then i mod 4294967296 else i mod 4294967296 - 4294967296) = i"
  proof (cases "0 \<le> i")
    case True
    with assms have "i mod 2 ^ 32 = i" by simp
    with assms show ?thesis by simp
  next
    case False
    with assms have "(i + 2 ^ 32) mod 2 ^ 32 = i + 2 ^ 32" by (intro mod_pos_pos_trivial) auto
    then have "i mod 2 ^ 32 = i + 2 ^ 32" by simp
    with assms False show ?thesis by simp
  qed
  with v show ?thesis by (simp add: read_int_def Let_def split: if_splits)
qed

lemma fread_int_bytes:
  "- (2 ^ 31) \<le> i \<Longrightarrow> i < 2 ^ 31 \<Longrightarrow> fread_int old (int_bytes i @ rest) = Some (i, rest)"
  using length_int_bytes [of i] by (auto simp: fread_int_def read_int_bytes simp del: length_int_bytes)

definition pair_sized :: "KeyValuePair \<Rightarrow> bool" where
  "pair_sized p \<longleftrightarrow> length (kv_key p) = KEY_SIZE \<and> length (kv_value p) = VALUE_SIZE"

lemma pair_wf_sized: "pair_wf p \<Longrightarrow> pair_sized p"
  by (simp add: pair_wf_def pair_sized_def)

lemma read_pairs_bytes:
  "\<forall>p \<in> set ps. pair_sized p \<Longrightarrow>
    read_pairs (length ps) (pairs_bytes ps @ rest) = Some (ps, rest)"
  by (induction ps) (auto simp: pairs_bytes_def pair_bytes_def pair_sized_def)

section \<open>Tables\<close>

definition table_sized :: "SSTable \<Rightarrow> bool" where
  "table_sized t \<longleftrightarrow> ss_size t = int (length (ss_pairs t)) \<and> ss_size t < 2 ^ 31
     \<and> (\<forall>p \<in> set (ss_pairs t). pair_sized p)"

text \<open>A table written with \<open>save_sstable_to_disk\<close> is read back by \<open>load_sstable_from_disk\<close> with
  the same size and the same pairs, under every name the code gives its files.
\<close>

lemma save_load_sstable:
  assumes "memory_ok env" and "fopen_ok env (cstr (ss_filename t))"
    and "table_sized t" and "NUL \<in> set (ss_filename t)"
    and "length (ss_filename t) = 32" and "length (ss_filename t0) = 32"
  shows "\<exists>d' t'. save_sstable_to_disk env t d = Inr d' \<and>
    load_sstable_from_disk env t0 (cstr (ss_filename t)) d' = Inr t' \<and>
    ss_size t' = ss_size t \<and> ss_pairs t' = ss_pairs t \<and>
    cstr (take 31 (ss_filename t')) = cstr (ss_filename t)"
proof -
  have len: "length (cstr (ss_filename t)) < 32" using assms(4,5) length_cstr_terminated by metis
  then have "take 31 (strncpy (ss_filename t0) (cstr (ss_filename t)) 31)
      = cstr (ss_filename t) @ replicate (31 - length (cstr (ss_filename t))) NUL"
    by (simp add: strncpy_def)
  then have name: "cstr (take 31 (strncpy (ss_filename t0) (cstr (ss_filename t)) 31)) = cstr (ss_filename t)"
    by (cases "31 - length (cstr (ss_filename t))") auto
  have "nat (ss_size t) = length (ss_pairs t)" "fread_int old (table_bytes t) = Some (ss_size t, pairs_bytes (ss_pairs t))" for old
    using assms(3) by (auto simp: table_bytes_def table_sized_def fread_int_bytes)
  moreover have "read_pairs (length (ss_pairs t)) (pairs_bytes (ss_pairs t)) = Some (ss_pairs t, [])"
    using read_pairs_bytes [of "ss_pairs t" "[]"] assms(3) by (simp add: table_sized_def)
  ultimately show ?thesis
    using assms(1-4) name
    by (auto simp: save_sstable_to_disk_def load_sstable_from_disk_def memory_ok_def table_sized_def)
qed

lemma save_load_sstable_witness:
  "\<exists>d' t'. save_sstable_to_disk good_env (table_of 0 [new_pair ''k'' ''v'']) Map.empty = Inr d' \<and>
    load_sstable_from_disk good_env (table_of 1 []) (cstr (ss_filename (table_of 0 [new_pair ''k'' ''v'']))) d'
      = Inr t' \<and> ss_size t' = 1 \<and> ss_pairs t' = [new_pair ''k'' ''v'']"
  using save_load_sstable [of good_env "table_of 0 [new_pair ''k'' ''v'']" "table_of 1 []" Map.empty]
    table_of_name(1) [of 0 "[new_pair ''k'' ''v'']"] table_of_name(1) [of 1 "[]"]
  by (auto simp: table_sized_def name_wf_def pair_wf_sized new_pair_wf)

lemma sstable_filename_wf:
  assumes "length old = 32" and "i < 10"
  shows "length (sstable_filename old i) = 32 \<and> NUL \<in> set (sstable_filename old i)"
proof -
  have "length (dec_digits i) = 1" using assms(2) by (simp add: dec_digits.simps)
  with assms(1) show ?thesis by (simp add: sstable_filename_def)
qed

text \<open>The bytes of the tables from slot \<open>i\<close> on, read into slots \<open>i, i + 1, ...\<close>\<close>

lemma load_table_bytes:
  assumes "memory_ok env" and "table_sized t" and "i < length tables"
  shows "load_table env i tables (table_bytes t @ rest) = Inr (tables[i := \<lparr>ss_pairs = ss_pairs t,
    ss_size = ss_size t, ss_filename = sstable_filename (ss_filename (tables ! i)) i\<rparr>], rest)"
proof -
  have "nat (ss_size t) = length (ss_pairs t)"
    "fread_int old (table_bytes t @ rest) = Some (ss_size t, pairs_bytes (ss_pairs t) @ rest)" for old
    using assms(2) by (auto simp: table_bytes_def table_sized_def fread_int_bytes)
  then show ?thesis
    using assms read_pairs_bytes [of "ss_pairs t" rest]
    by (simp add: load_table_def memory_ok_def table_sized_def)
qed

lemma load_tables_bytes:
  assumes "memory_ok env" and "length ts + i \<le> 10"
  shows "length tables = 10 \<Longrightarrow> \<forall>t \<in> set tables. name_wf t \<Longrightarrow>
    \<forall>t \<in> set ts. table_sized t \<Longrightarrow>
    \<exists>tables'. load_tables env i (length ts) tables (concat (map table_bytes ts) @ rest) = Inr tables' \<and>
      length tables' = 10 \<and> (\<forall>t \<in> set tables'. name_wf t) \<and> take i tables' = take i tables \<and>
      (\<forall>j < length ts. ss_pairs (tables' ! (i + j)) = ss_pairs (ts ! j) \<and>
         ss_size (tables' ! (i + j)) = ss_size (ts ! j))"
  using assms(2)
proof (induction ts arbitrary: i tables)
  case (Cons t ts)
  define t' where "t' = \<lparr>ss_pairs = ss_pairs t, ss_size = ss_size t,
    ss_filename = sstable_filename (ss_filename (tables ! i)) i\<rparr>"
  have i: "i < length tables" using Cons.prems by simp
  then have "name_wf (tables ! i)" using Cons.prems(2) by simp
  then have name: "name_wf t'"
    using sstable_filename_wf [of "ss_filename (tables ! i)" i] Cons.prems
    by (auto simp: t'_def name_wf_def)
  have step: "load_table env i tables (table_bytes t @ concat (map table_bytes ts) @ rest)
      = Inr (tables[i := t'], concat (map table_bytes ts) @ rest)"
    using load_table_bytes [OF assms(1) _ i] Cons.prems by (simp add: t'_def)
  have names: "\<forall>t \<in> set (tables[i := t']). name_wf t"
    using Cons.prems(2) name by (metis insert_iff set_update_subset_insert subsetD)
  obtain tables' where IH: "load_tables env (Suc i) (length ts) (tables[i := t'])
        (concat (map table_bytes ts) @ rest) = Inr tables'"
      "length tables' = 10" "\<forall>t \<in> set tables'. name_wf t"
      "take (Suc i) tables' = take (Suc i) (tables[i := t'])"
    and at: "\<forall>j < length ts. ss_pairs (tables' ! (Suc i + j)) = ss_pairs (ts ! j) \<and>
         ss_size (tables' ! (Suc i + j)) = ss_size (ts ! j)"
    using Cons.IH [of "tables[i := t']" "Suc i"] names Cons.prems by auto
  have here: "tables' ! i = t'" using IH(4) i by (metis lessI nth_list_update_eq nth_take)
  have "take i tables' = take i tables"
    using arg_cong [OF IH(4), of "take i"] by (simp add: min_def)
  moreover have "ss_pairs (tables' ! (i + j)) = ss_pairs ((t # ts) ! j) \<and>
      ss_size (tables' ! (i + j)) = ss_size ((t # ts) ! j)"
    if "j < length (t # ts)" for j
    using that at here by (cases j) (auto simp: t'_def)
  ultimately show ?case using step IH by auto
qed simp

section \<open>Closing and opening a tree\<close>

lemma load_saved_data:
  assumes "memory_ok env" and "lsm_wf tree" and "\<forall>t \<in> set (live_tables tree). table_sized t"
    and "length (sstables start) = 10" and "\<forall>t \<in> set (sstables start). name_wf t"
    and "memtable_wf (memtable start)"
    and "d DATA_FILE = Some (int_bytes (sstable_count tree) @ concat (map table_bytes (live_tables tree)))"
  shows "\<exists>tree'. load_data_from_file env start d = Inr tree' \<and> lsm_wf tree' \<and>
    memtable tree' = memtable start \<and> map ss_pairs (live_tables tree') = map ss_pairs (live_tables tree)"
proof -
  define ts where "ts = live_tables tree"
  have n: "nat (sstable_count tree) = length ts" "length ts \<le> 10" "sstable_count tree = int (length ts)"
    using assms(2) by (auto simp: ts_def live_tables_def lsm_wf_def)
  obtain tables' where load: "load_tables env 0 (length ts) (sstables start) (concat (map table_bytes ts)) = Inr tables'"
    and len: "length tables' = 10" "\<forall>t \<in> set tables'. name_wf t"
    and at: "\<forall>j < length ts. ss_pairs (tables' ! j) = ss_pairs (ts ! j) \<and> ss_size (tables' ! j) = ss_size (ts ! j)"
    using load_tables_bytes [OF assms(1), of ts 0 "sstables start" "[]"] assms(3-5) n(2)
    by (auto simp: ts_def)
  define tree' where "tree' = start\<lparr>sstables := tables', sstable_count := sstable_count tree\<rparr>"
  have "load_data_from_file env start d = Inr tree'"
    using load n assms(1,7)
    by (simp add: load_data_from_file_def memory_ok_def ts_def [symmetric] fread_int_bytes tree'_def)
  moreover have live: "live_tables tree' = take (length ts) tables'"
    by (simp add: live_tables_def tree'_def n(1))
  then have "map ss_pairs (live_tables tree') = map ss_pairs ts"
    using at len n(2) by (auto intro!: nth_equalityI)
  moreover have "table_wf t" if t: "t \<in> set (live_tables tree')" for t
  proof -
    obtain j where j: "j < length ts" "t = tables' ! j"
      using t len n(2) by (auto simp: live in_set_conv_nth)
    then have "table_wf (ts ! j)" using assms(2) by (simp add: ts_def lsm_wf_live)
    with at j show ?thesis by (simp add: table_wf_def)
  qed
  ultimately show ?thesis
    using len assms(2,6) by (intro exI [of _ tree']) (auto simp: lsm_wf_def tree'_def ts_def)
qed

lemma sum_sizes:
  "\<forall>t \<in> set ts. table_wf t \<Longrightarrow> sum_list (map ss_size ts) = int (length (concat (map ss_pairs ts)))"
  by (induction ts) (auto simp: table_wf_def)

lemma length_member_concat: "t \<in> set ts \<Longrightarrow> length (f t) \<le> length (concat (map f ts))"
  by (induction ts) auto

lemma tree_pairs_length:
  "lsm_wf tree \<Longrightarrow> tree_pairs tree = int (length (oldest_first tree))"
  by (simp add: tree_pairs_def oldest_first_def sum_sizes lsm_wf_live)

lemma live_table_sized:
  assumes "lsm_wf tree" and "tree_pairs tree < 2 ^ 31" and "t \<in> set (live_tables tree)"
  shows "table_sized t"
proof -
  have "length (ss_pairs t) \<le> length (oldest_first tree)"
    unfolding oldest_first_def using assms(3) by (rule length_member_concat)
  then show ?thesis
    using assms tree_pairs_length [OF assms(1)] lsm_wf_live [OF assms(1,3)]
    by (auto simp: table_wf_def table_sized_def pair_wf_sized)
qed

lemma compacted_sized:
  assumes "lsm_wf tree" and "qsort_ok env" and "compact_sstables env tree d = Inr (t0, d0)"
    and "2 \<le> sstable_count tree" and "tree_pairs tree < 2 ^ 31"
  shows "lsm_wf t0 \<and> tree_pairs t0 < 2 ^ 31"
  using assms(1,4,2,3)
proof (rule compact_outcome)
  fix merged
  assume m: "live_tables t0 = [merged]" "lsm_wf t0"
    "ss_pairs merged = first_of_runs (qsort env (oldest_first tree))"
  have "length (oldest_first t0) \<le> length (oldest_first tree)"
    using length_first_of_runs [of "qsort env (oldest_first tree)"] m
    by (simp add: oldest_first_def [of t0] qsort_ok_facts(4) [OF assms(2)])
  then show ?thesis using m(2) assms(1,5) by (simp add: tree_pairs_length)
qed

text \<open>C15:
  A well-formed tree with a pair in its memtable and fewer than \<open>2 ^ 31\<close> pairs in its tables is
  closed and, when allocation succeeds and the data file and the names of its slots can be
  opened, comes back in a later process, whose stack may have held anything in the ten slots
  of the new tree as long as each file name array had a NUL byte in its 32: the reopened tree
  is well formed and answers every lookup as the closed one did (when the final flush
  compacts: with the same keys). With an empty memtable nothing is saved.
\<close>

theorem close_open:
  assumes "resources_ok env tree" and "qsort_ok env" and "lsm_wf tree"
    and "mt_size (memtable tree) \<noteq> 0" and "tree_pairs tree < 2 ^ 31"
    and "length (sstables stack) = 10" and "\<forall>t \<in> set (sstables stack). name_wf t"
  shows "\<exists>d' tree'. free_lsm_tree env tree d = Inr d' \<and> init_lsm_tree env stack d' = Inr tree' \<and>
    lsm_wf tree' \<and> (\<forall>key. lsm_lookup tree' key = None \<longleftrightarrow> lsm_lookup tree key = None) \<and>
    (\<not> compacts tree \<longrightarrow> lsm_lookup tree' = lsm_lookup tree)"
proof -
  obtain t1 d1 where f: "flush_memtable_to_sstable env tree d = Inr (t1, d1)"
    using flush_succeeds [OF assms(1-3)] assms(5) by blast
  obtain t0 d0 p new where t0: "lsm_wf t0" "memtable t0 = memtable tree"
    and comp: "if MAX_SSTABLES \<le> sstable_count tree then compact_sstables env tree d = Inr (t0, d0)
       else t0 = tree"
    and new: "mem_entries (memtable tree) = [p]" "live_tables t1 = live_tables t0 @ [new]"
      "ss_pairs new = [copy_pair p]" "mt_size (memtable t1) = 0" "pair_wf p" and wf1: "lsm_wf t1"
    using assms(3,2,4) f by (rule flush_outcome)
  have eq: "lsm_lookup t1 = lsm_lookup t0" using t0 new(1,5,2,3,4) by (rule flush_lookup)
  have keys: "\<forall>key. lsm_lookup t0 key = None \<longleftrightarrow> lsm_lookup tree key = None"
    and same: "\<not> compacts tree \<longrightarrow> t0 = tree" and small: "tree_pairs t0 < 2 ^ 31"
    using comp compact_keys [OF assms(3) _ assms(2)] compacted_sized [OF assms(3,2)] assms(4,5)
    by (auto simp: compacts_def split: if_splits)
  have "table_sized new" using new(3,5) lsm_wf_live [OF wf1, of new] new(2)
    by (auto simp: table_sized_def table_wf_def pair_wf_sized copy_pair_wf)
  then have sized: "\<forall>t \<in> set (live_tables t1). table_sized t"
    using new(2) live_table_sized [OF t0(1) small] by auto
  define start where "start = stack\<lparr>memtable := \<lparr>mt_pairs = [], mt_size = 0,
    mt_capacity = MEMTABLE_SIZE\<rparr>, sstable_count := 0\<rparr>"
  define d2 where "d2 = d1(DATA_FILE \<mapsto> int_bytes (sstable_count t1) @ concat (map table_bytes (live_tables t1)))"
  have closed: "free_lsm_tree env tree d = Inr d2"
    using f assms(1,3,4)
    by (auto simp: free_lsm_tree_def save_all_data_to_file_def resources_ok_def memory_ok_def d2_def live_tables_def
        lsm_wf_def memtable_wf_def)
  obtain tree' where load: "load_data_from_file env start d2 = Inr tree'" "lsm_wf tree'"
    and mem: "memtable tree' = memtable start"
    and tabs: "map ss_pairs (live_tables tree') = map ss_pairs (live_tables t1)"
    using load_saved_data [OF resources_ok_memory(2) [OF assms(1)] wf1 sized, of start d2] assms(6,7)
    by (auto simp: start_def d2_def memtable_wf_def)
  have "init_lsm_tree env stack d2 = Inr tree'"
    using load(1) resources_ok_memory(1) [OF assms(1)] by (simp add: init_lsm_tree_def start_def)
  moreover have "table_entries (live_tables tree') = table_entries (live_tables t1)"
    using tabs by (simp add: table_entries_def rev_map [symmetric])
  then have "lsm_lookup tree' = lsm_lookup t1"
    using mem new(4) by (simp add: lsm_lookup_def fun_eq_iff mem_entries_def start_def)
  ultimately show ?thesis using closed load(2) eq keys same by auto
qed

lemma close_open_witness:
  "\<exists>d' tree'. free_lsm_tree good_env full_tree Map.empty = Inr d' \<and>
    init_lsm_tree good_env empty_tree d' = Inr tree' \<and> lsm_wf tree' \<and>
    (\<forall>key. lsm_lookup tree' key = None \<longleftrightarrow> lsm_lookup full_tree key = None)"
proof -
  have "mt_size (memtable full_tree) \<noteq> 0" "tree_pairs full_tree < 2 ^ 31"
    by (simp add: full_tree_def) (simp add: full_tree_facts)
  moreover have "length (sstables empty_tree) = 10" "\<forall>t \<in> set (sstables empty_tree). name_wf t"
    by (auto simp: empty_tree_def)
  ultimately show ?thesis
    using close_open [OF full_tree_resources good_env_ok(3) full_tree_facts(1), of empty_tree Map.empty] by blast
qed

section \<open>The program\<close>

lemma cstr_hobby: "cstr (kv_key (new_pair ''hobby'' v)) = ''hobby''"
  by (simp add: new_pair_def copy_field_def strncpy_def cstr_def takeWhile_append list_update_append)

text \<open>The program on an empty disk: the name of the table it writes is what the first slot of the tree on
  the stack happened to hold. Without a NUL byte there \<^verbatim>\<open>fopen\<close> is handed an array without end; with a
  name that \<^verbatim>\<open>fopen\<close> refuses (the empty one, say) the program exits; otherwise the table is written under
  that name, and the data file holds it too.
\<close>

lemma lsm_main_fresh:
  assumes "d DATA_FILE = None" and "memory_ok env" and "qsort_ok env" and "length (sstables stack) = 10"
  shows "lsm_main env stack d =
    (let name = ss_filename (sstables stack ! 0);
         t = \<lparr>ss_pairs = [copy_pair (new_pair ''hobby'' ''Hiking'')], ss_size = 1, ss_filename = name\<rparr>
     in if NUL \<notin> set name then Inl Unterminated
        else if \<not> fopen_ok env (cstr name) then Inl (Exit_Failure ''Failed to open SSTable file for writing'')
        else Inr (d(cstr name \<mapsto> table_bytes t, DATA_FILE \<mapsto> int_bytes 1 @ table_bytes t)))"
proof -
  define p where "p = new_pair ''hobby'' ''Hiking''"
  define tree where "tree = stack\<lparr>memtable := \<lparr>mt_pairs = [], mt_size = 0, mt_capacity = 1\<rparr>, sstable_count := 0\<rparr>"
  define tree1 where "tree1 = tree\<lparr>memtable := \<lparr>mt_pairs = [p], mt_size = 1, mt_capacity = 1\<rparr>\<rparr>"
  have init: "init_lsm_tree env stack d = Inr tree"
    using assms(1,2) by (simp add: memory_ok_def init_lsm_tree_def load_data_from_file_def tree_def guardR_def)
  have put: "lsm_put env tree d ''hobby'' ''Hiking'' = Inr (tree1, d)"
    by (simp add: lsm_put_def tree_def tree1_def array_store_def p_def Let_def)
  have "strcmp ''hobby'' ''name'' \<noteq> 0" by simp
  then have get: "lsm_get env tree1 ''name'' = Inr None"
    by (simp add: lsm_get_def tree1_def tree_def pair_at_def p_def cstr_hobby)
  have slot: "\<not> sstable_count tree1 \<ge> 10" "sstable_count tree1 = 0" "sstables tree1 = sstables stack"
    "mt_size (memtable tree1) = 1" "mt_pairs (memtable tree1) = [p]"
    by (simp_all add: tree1_def tree_def)
  obtain x xs where xs: "sstables stack = x # xs" using assms(4) by (cases "sstables stack") auto
  have block: "x\<lparr>ss_pairs := ps, ss_size := n\<rparr> = \<lparr>ss_pairs = ps, ss_size = n, ss_filename = ss_filename x\<rparr>" for ps n
    by (cases x) simp
  show ?thesis
    unfolding lsm_main_def init bindR_simps put get prod.case
    using assms(2)
    by (simp add: memory_ok_def free_lsm_tree_def flush_memtable_to_sstable_def slot xs save_sstable_to_disk_def guardR_def
        save_all_data_to_file_def qsort_single [OF assms(3)] p_def [symmetric] Let_def block)
qed

lemma lsm_main_fresh_witness:
  "lsm_main good_env (empty_tree\<lparr>sstables := replicate 10 \<lparr>ss_pairs = [], ss_size = 0, ss_filename = replicate 32 CHR 0x7F\<rparr>\<rparr>)
     Map.empty = Inl Unterminated"
  using lsm_main_fresh [of Map.empty good_env
      "empty_tree\<lparr>sstables := replicate 10 \<lparr>ss_pairs = [], ss_size = 0, ss_filename = replicate 32 CHR 0x7F\<rparr>\<rparr>"]
  by simp

end
