(* ===== verification/Arena.thy ===== *)
theory Arena
  imports Prelude
begin

text \<open>
  The arena allocator of \<^verbatim>\<open>kryocache/src/core/data/tokens/core\<close> (\<^verbatim>\<open>core.c\<close>, \<^verbatim>\<open>constants.c\<close>):
  chunks obtained with \<^verbatim>\<open>mmap\<close> from which blocks are cut off one after the other.

  \<^item> A \<^verbatim>\<open>size_t\<close> and an address are a \<open>u64\<close>, with their wrap-around; a \<^verbatim>\<open>time_t\<close> is an
    \<open>int\<close>. The linked list of old chunks is a list, from its head.
  \<^item> The mutex is the field \<open>locked\<close>. An operation whose value is \<open>None\<close> does not return:
    it waits for a mutex nobody releases, or its loop runs forever. A NULL arena is \<open>None\<close>
    as argument.
  \<^item> The system is the record \<open>arena_os\<close>: whether \<^verbatim>\<open>calloc\<close> and \<^verbatim>\<open>pthread_mutex_init\<close> succeed,
    what \<^verbatim>\<open>mmap\<close> returns for a length, the page size and the time, and the value of the name
    \<^verbatim>\<open>size\<close> that \<^verbatim>\<open>arena_cleanup_old\<close> uses and nothing declares. The field \<open>mem_calls\<close>,
    which the struct does not have, records what the arena did to memory, oldest first: the
    mappings made, protected, cleared and given back.
\<close>

section \<open>Constants\<close>

definition get_arena_default_chunk_size :: u64 where
  "get_arena_default_chunk_size = 64 * 1024"

definition get_arena_max_chunk_size :: u64 where
  "get_arena_max_chunk_size = 2 * 1024 * 1024"

definition get_arena_alignment :: u64 where
  "get_arena_alignment = 8"

definition get_arena_default_max_age :: int where
  "get_arena_default_max_age = 300"

definition get_arena_min_alloc_size :: u64 where
  "get_arena_min_alloc_size = 1"

definition get_arena_max_alloc_size :: u64 where
  "get_arena_max_alloc_size = get_arena_max_chunk_size div 2"

definition get_arena_initial_chunk_count :: u64 where
  "get_arena_initial_chunk_count = 0"

definition get_arena_initial_total_used :: u64 where
  "get_arena_initial_total_used = 0"

lemma arena_constants [simp]:
  "get_arena_default_chunk_size = 65536" "get_arena_max_chunk_size = 2097152"
  "get_arena_alignment = 8" "get_arena_max_alloc_size = 1048576"
  "get_arena_initial_chunk_count = 0" "get_arena_initial_total_used = 0"
  by (simp_all add: get_arena_default_chunk_size_def get_arena_max_chunk_size_def
      get_arena_alignment_def get_arena_max_alloc_size_def get_arena_initial_chunk_count_def
      get_arena_initial_total_used_def)

section \<open>State\<close>

record arena_chunk =
  chunk_memory :: u64
  chunk_used :: u64
  chunk_size :: u64
  created_at :: int

text \<open>
  \<open>Mem_Protect_Link l n\<close> is an \<^verbatim>\<open>mprotect\<close> of \<open>n\<close> bytes from a link of the chunk list on: the
  head \<^verbatim>\<open>arena->old_chunks\<close> (\<open>None\<close>) or the field \<^verbatim>\<open>next\<close> of the chunk whose memory is at \<open>m\<close>
  (\<open>Some m\<close>). Both lie in blocks of \<^verbatim>\<open>calloc\<close>, not in a mapping of the arena.
\<close>

datatype mem_call =
    Mem_Map u64 u64
  | Mem_Protect u64 u64
  | Mem_Protect_Link "u64 option" u64
  | Mem_Clear u64 u64
  | Mem_Unmap u64 u64

record arena_memory =
  current :: "arena_chunk option"
  old_chunks :: "arena_chunk list"
  locked :: bool
  total_allocated :: u64
  total_used :: u64
  chunk_count :: u64
  last_cleanup :: int
  mem_calls :: "mem_call list"

record arena_os =
  calloc_ok :: bool
  mutex_init_ok :: bool
  mmap_result :: "u64 \<Rightarrow> u64 option"
  page_size :: u64
  now :: int
  undeclared_size :: u64

abbreviation (input) MAP_FAILED :: u64 where
  "MAP_FAILED \<equiv> - 1"

definition arena_init :: "arena_os \<Rightarrow> arena_memory option" where
  "arena_init os =
     (if \<not> calloc_ok os then None
      else if \<not> mutex_init_ok os then None
      else Some \<lparr>current = None, old_chunks = [], locked = False, total_allocated = 0,
        total_used = get_arena_initial_total_used, chunk_count = get_arena_initial_chunk_count,
        last_cleanup = now os, mem_calls = []\<rparr>)"

section \<open>Chunks\<close>

definition round_up :: "u64 \<Rightarrow> u64 \<Rightarrow> u64" where
  "round_up sz unit = ((sz + unit - 1) div unit) * unit"

definition arena_chunk_create :: "arena_os \<Rightarrow> u64 \<Rightarrow> arena_chunk option" where
  "arena_chunk_create os sz =
     (if sz = 0 then None
      else if \<not> calloc_ok os then None
      else
        let aligned_size = round_up sz (page_size os)
        in case mmap_result os aligned_size of
             None \<Rightarrow> None
           | Some memory \<Rightarrow> Some \<lparr>chunk_memory = memory, chunk_used = 0, chunk_size = aligned_size,
                               created_at = now os\<rparr>)"

text \<open>Destroying a chunk clears what was used of it and gives the mapping back.\<close>

definition arena_chunk_destroy :: "arena_chunk \<Rightarrow> mem_call list" where
  "arena_chunk_destroy c =
     (if chunk_memory c \<noteq> 0 \<and> chunk_size c > 0
      then [Mem_Clear (chunk_memory c) (chunk_used c), Mem_Unmap (chunk_memory c) (chunk_size c)]
      else [])"

definition arena_align_size :: "u64 \<Rightarrow> u64" where
  "arena_align_size sz = round_up sz get_arena_alignment"

text \<open>The doubling loop; \<open>None\<close> would be a loop that does not end.\<close>

partial_function (option) grow_chunk :: "u64 \<Rightarrow> u64 \<Rightarrow> u64 \<Rightarrow> u64 option" where
  "grow_chunk requested_size max_size sz =
     (if sz < requested_size \<and> sz < max_size then
        if sz > max_size div 2 then Some max_size
        else grow_chunk requested_size max_size (push_bit 1 sz)
      else Some (if sz > max_size then max_size else sz))"

definition arena_calculate_new_chunk_size :: "u64 \<Rightarrow> u64 option" where
  "arena_calculate_new_chunk_size requested_size =
     (if requested_size \<le> get_arena_default_chunk_size then Some get_arena_default_chunk_size
      else grow_chunk requested_size get_arena_max_chunk_size get_arena_default_chunk_size)"

section \<open>Allocation\<close>

text \<open>The first old chunk with enough room, unlinked from the list.\<close>

fun take_suitable :: "u64 \<Rightarrow> arena_chunk list \<Rightarrow> (arena_chunk \<times> arena_chunk list) option" where
  "take_suitable sz [] = None"
| "take_suitable sz (c # cs) =
     (if chunk_size c - chunk_used c \<ge> sz then Some (c, cs)
      else case take_suitable sz cs of
             None \<Rightarrow> None
           | Some (found, rest) \<Rightarrow> Some (found, c # rest))"

text \<open>The current chunk goes to the head of the old ones, or is destroyed if it is empty.\<close>

definition retire_current :: "arena_memory \<Rightarrow> arena_memory" where
  "retire_current a =
     (case current a of
        None \<Rightarrow> a
      | Some c \<Rightarrow>
          if chunk_used c > 0 then a\<lparr>current := None, old_chunks := c # old_chunks a\<rparr>
          else a\<lparr>current := None, chunk_count := chunk_count a - 1,
                 mem_calls := mem_calls a @ arena_chunk_destroy c\<rparr>)"

text \<open>
  The end of \<^verbatim>\<open>arena_alloc\<close>: cutting the block off the current chunk. The early return for
  \<^verbatim>\<open>MAP_FAILED\<close> keeps the mutex.
\<close>

definition carve :: "u64 \<Rightarrow> arena_chunk \<Rightarrow> arena_memory \<Rightarrow> u64 option \<times> arena_memory" where
  "carve sz c a =
     (let ptr = chunk_memory c + chunk_used c;
          a' = a\<lparr>current := Some (c\<lparr>chunk_used := chunk_used c + sz\<rparr>),
                 total_used := total_used a + sz\<rparr>
      in if ptr = MAP_FAILED then (None, a')
         else (Some ptr, a'\<lparr>mem_calls := mem_calls a' @ [Mem_Protect ptr sz], locked := False\<rparr>))"

definition needs_chunk :: "u64 \<Rightarrow> arena_memory \<Rightarrow> bool" where
  "needs_chunk sz a =
     (case current a of None \<Rightarrow> True | Some c \<Rightarrow> chunk_used c + sz > chunk_size c)"

definition arena_alloc_locked ::
  "arena_os \<Rightarrow> arena_memory \<Rightarrow> u64 \<Rightarrow> (u64 option \<times> arena_memory) option" where
  "arena_alloc_locked os a sz =
     (if needs_chunk sz a then
        case take_suitable sz (old_chunks a) of
          Some (c, rest) \<Rightarrow> Some (carve sz c (retire_current (a\<lparr>old_chunks := rest\<rparr>)))
        | None \<Rightarrow>
            (case arena_calculate_new_chunk_size sz of
               None \<Rightarrow> None
             | Some new_chunk_size \<Rightarrow>
                 (case arena_chunk_create os new_chunk_size of
                    None \<Rightarrow> Some (None, a\<lparr>locked := False\<rparr>)
                  | Some c \<Rightarrow>
                      let a' = retire_current (a\<lparr>mem_calls :=
                                 mem_calls a @ [Mem_Map (chunk_memory c) (chunk_size c)]\<rparr>)
                      in Some (carve sz c (a'\<lparr>total_allocated := total_allocated a' + chunk_size c,
                                                chunk_count := chunk_count a' + 1\<rparr>))))
      else Some (carve sz (the (current a)) a))"

definition arena_alloc ::
  "arena_os \<Rightarrow> arena_memory option \<Rightarrow> u64 \<Rightarrow> (u64 option \<times> arena_memory option) option" where
  "arena_alloc os arena sz =
     (case arena of
        None \<Rightarrow> Some (None, None)
      | Some a \<Rightarrow>
          if sz = 0 then Some (None, Some a)
          else if sz > get_arena_max_alloc_size then Some (None, Some a)
          else if locked a then None
          else map_option (map_prod id Some)
                 (arena_alloc_locked os (a\<lparr>locked := True\<rparr>) (arena_align_size sz)))"

section \<open>Releasing\<close>

definition arena_reset :: "arena_os \<Rightarrow> arena_memory option \<Rightarrow> arena_memory option option" where
  "arena_reset os arena =
     (case arena of
        None \<Rightarrow> Some None
      | Some a \<Rightarrow>
          if locked a then None
          else Some (Some (a\<lparr>
            chunk_count := chunk_count a - of_nat (length (old_chunks a)), old_chunks := [],
            current := map_option (chunk_used_update (\<lambda>_. 0)) (current a),
            total_used := 0, last_cleanup := now os,
            mem_calls := mem_calls a @ concat (map arena_chunk_destroy (old_chunks a))\<rparr>)))"

text \<open>The walk over the list: what is kept, and the chunks that were destroyed.\<close>

fun drop_aged :: "int \<Rightarrow> int \<Rightarrow> arena_chunk list \<Rightarrow> arena_chunk list \<times> arena_chunk list" where
  "drop_aged t max_age [] = ([], [])"
| "drop_aged t max_age (c # cs) =
     (let (kept, gone) = drop_aged t max_age cs
      in if t - created_at c > max_age then (kept, c # gone) else (c # kept, gone))"

text \<open>
  Where \<^verbatim>\<open>chunk_ptr\<close> points when the walk ends: to the link of the last chunk kept, or to the
  head of the list. The function then hands that pointer to \<^verbatim>\<open>mprotect\<close>, with a \<^verbatim>\<open>size\<close> that is
  not declared there (\<open>undeclared_size\<close>).
\<close>

definition last_link :: "arena_chunk list \<Rightarrow> u64 option" where
  "last_link kept = (if kept = [] then None else Some (chunk_memory (last kept)))"

definition arena_cleanup_old ::
  "arena_os \<Rightarrow> arena_memory option \<Rightarrow> int \<Rightarrow> arena_memory option option" where
  "arena_cleanup_old os arena max_age =
     (case arena of
        None \<Rightarrow> Some None
      | Some a \<Rightarrow>
          if max_age \<le> 0 then Some (Some a)
          else if locked a then None
          else let (kept, gone) = drop_aged (now os) max_age (old_chunks a)
               in Some (Some (a\<lparr>old_chunks := kept,
                                chunk_count := chunk_count a - of_nat (length gone),
                                mem_calls := mem_calls a @ concat (map arena_chunk_destroy gone)
                                  @ [Mem_Protect_Link (last_link kept) (undeclared_size os)],
                                last_cleanup := now os\<rparr>)))"

text \<open>What is left of a destroyed arena is what the call did to memory.\<close>

definition arena_destroy :: "arena_memory option \<Rightarrow> mem_call list option" where
  "arena_destroy arena =
     (case arena of
        None \<Rightarrow> Some []
      | Some a \<Rightarrow>
          if locked a then None
          else Some (concat (map arena_chunk_destroy (old_chunks a)) @
                     (case current a of None \<Rightarrow> [] | Some c \<Rightarrow> arena_chunk_destroy c)))"

section \<open>Queries\<close>

definition arena_get_total_used :: "arena_memory option \<Rightarrow> u64" where
  "arena_get_total_used arena = (case arena of None \<Rightarrow> 0 | Some a \<Rightarrow> total_used a)"

definition arena_get_total_allocated :: "arena_memory option \<Rightarrow> u64" where
  "arena_get_total_allocated arena = (case arena of None \<Rightarrow> 0 | Some a \<Rightarrow> total_allocated a)"

definition arena_get_chunk_count :: "arena_memory option \<Rightarrow> u64" where
  "arena_get_chunk_count arena = (case arena of None \<Rightarrow> 0 | Some a \<Rightarrow> chunk_count a)"

end
