(* ===== verification/Secure_Memset.thy ===== *)
theory Secure_Memset
  imports Prelude
begin

text \<open>
  \<open>smemset\<close> of \<^verbatim>\<open>third-party/smemset/smemset.c\<close>, the fill routine the client and the server
  use for addresses: byte stores up to an 8-byte boundary, blocks of eight word stores,
  word stores, and byte stores for the rest.

  Memory is a function from addresses to bytes. \<^verbatim>\<open>op_t\<close> is the 64-bit word of the x86-64 and
  AArch64 builds, stored with its low byte first. Fences are left out.
\<close>

type_synonym mem = "nat \<Rightarrow> u8"

abbreviation (input) OPSIZ :: nat where "OPSIZ \<equiv> 8"

section \<open>The routine\<close>

definition store_op :: "mem \<Rightarrow> nat \<Rightarrow> u64 \<Rightarrow> mem" where
  "store_op m a w = fold (\<lambda>k m. m(a + k := ucast (drop_bit (8 * k) w))) [0..<8] m"

text \<open>The byte, copied into every byte of a word.\<close>

definition spread :: "u8 \<Rightarrow> u64" where
  "spread c =
     (let cccc = ucast c;
          cccc = cccc OR push_bit 8 cccc;
          cccc = cccc OR push_bit 16 cccc
      in cccc OR push_bit 16 (push_bit 16 cccc))"

text \<open>The loops; each returns memory, address and what is left of the length.\<close>

fun align_loop :: "mem \<Rightarrow> nat \<Rightarrow> u8 \<Rightarrow> nat \<Rightarrow> mem \<times> nat \<times> nat" where
  "align_loop m dstp c 0 = (m, dstp, 0)"
| "align_loop m dstp c (Suc len) =
     (if dstp mod OPSIZ \<noteq> 0 then align_loop (m(dstp := c)) (dstp + 1) c len else (m, dstp, Suc len))"

fun block_loop :: "mem \<Rightarrow> nat \<Rightarrow> u64 \<Rightarrow> nat \<Rightarrow> mem \<times> nat" where
  "block_loop m dstp cccc 0 = (m, dstp)"
| "block_loop m dstp cccc (Suc xlen) =
     block_loop (fold (\<lambda>i m. store_op m (dstp + i * OPSIZ) cccc) [0..<8] m) (dstp + 8 * OPSIZ) cccc xlen"

fun word_loop :: "mem \<Rightarrow> nat \<Rightarrow> u64 \<Rightarrow> nat \<Rightarrow> mem \<times> nat" where
  "word_loop m dstp cccc 0 = (m, dstp)"
| "word_loop m dstp cccc (Suc xlen) = word_loop (store_op m dstp cccc) (dstp + OPSIZ) cccc xlen"

fun byte_loop :: "mem \<Rightarrow> nat \<Rightarrow> u8 \<Rightarrow> nat \<Rightarrow> mem" where
  "byte_loop m dstp c 0 = m"
| "byte_loop m dstp c (Suc len) = byte_loop (m(dstp := c)) (dstp + 1) c len"

text \<open>\<open>dstp = 0\<close> is NULL; the result is the memory, and the pointer is returned unchanged.\<close>

definition smemset :: "mem \<Rightarrow> nat \<Rightarrow> int \<Rightarrow> nat \<Rightarrow> mem" where
  "smemset m dstp c len =
     (if dstp = 0 \<or> len = 0 then m
      else
        let b = word_of_int c :: u8;
            (m, dstp, len) =
              (if len \<ge> 8 then
                 let cccc = spread b;
                     (m, dstp, len) = align_loop m dstp b len;
                     (m, dstp) = block_loop m dstp cccc (len div (OPSIZ * 8));
                     len = len mod (OPSIZ * 8);
                     (m, dstp) = word_loop m dstp cccc (len div OPSIZ)
                 in (m, dstp, len mod OPSIZ)
               else (m, dstp, len))
        in byte_loop m dstp b len)"

section \<open>The reference: \<^verbatim>\<open>memset\<close>\<close>

definition fill :: "mem \<Rightarrow> nat \<Rightarrow> u8 \<Rightarrow> nat \<Rightarrow> mem" where
  "fill m a b n = (\<lambda>x. if a \<le> x \<and> x < a + n then b else m x)"

definition c_memset :: "mem \<Rightarrow> nat \<Rightarrow> int \<Rightarrow> nat \<Rightarrow> mem" where
  "c_memset m a c n = fill m a (word_of_int c) n"

lemma fill_0 [simp]: "fill m a b 0 = m"
  by (auto simp: fill_def fun_eq_iff)

lemma fill_fill: "fill (fill m a b n) (a + n) b k = fill m a b (n + k)"
  by (auto simp: fill_def fun_eq_iff)

lemma fill_step: "fill (m(a := b)) (Suc a) b n = fill m a b (Suc n)"
  by (auto simp: fill_def fun_eq_iff)

section \<open>The loops fill\<close>

text \<open>A word whose low \<open>n\<close> bits repeat a byte, doubled.\<close>

lemma double_bits:
  fixes w :: u64
  assumes "\<And>j. bit w j \<longleftrightarrow> j < n \<and> P (j mod 8)" and "n mod 8 = 0" and "2 * n \<le> 64"
  shows "bit (w OR push_bit n w) j \<longleftrightarrow> j < 2 * n \<and> P (j mod 8)"
proof -
  have "(j - n) mod 8 = j mod 8" if "n \<le> j"
    using assms(2) that by (metis add_diff_inverse_nat mod_add_left_eq add.left_neutral not_less)
  then show ?thesis
    using assms(1) [of j] assms(1) [of "j - n"] assms(3) by (auto simp: bit_or_iff bit_push_bit_iff)
qed

lemma bit_spread: "bit (spread b) j \<longleftrightarrow> j < 64 \<and> bit b (j mod 8)"
proof -
  define w0 :: u64 where "w0 = ucast b"
  define w1 where "w1 = w0 OR push_bit 8 w0"
  define w2 where "w2 = w1 OR push_bit 16 w1"
  have low: "j < 8" if "bit b j" for j using bit_imp_le_length [OF that] by simp
  have "bit w0 j \<longleftrightarrow> j < 8 \<and> bit b (j mod 8)" for j
    using low [of j] by (auto simp: w0_def bit_ucast_iff)
  from double_bits [of w0 8, OF this] have "bit w1 j \<longleftrightarrow> j < 16 \<and> bit b (j mod 8)" for j
    by (simp add: w1_def)
  from double_bits [of w1 16, OF this] have "bit w2 j \<longleftrightarrow> j < 32 \<and> bit b (j mod 8)" for j
    by (simp add: w2_def)
  from double_bits [of w2 32, OF this] show ?thesis
    by (simp add: spread_def Let_def w2_def w1_def w0_def)
qed

lemma spread_byte:
  assumes "k < 8"
  shows "ucast (drop_bit (8 * k) (spread b)) = b"
proof (rule bit_word_eqI)
  fix i assume "i < LENGTH(8)"
  then have i: "i < 8" by simp
  then have "8 * k + i < 64" using assms by simp
  with i show "bit (ucast (drop_bit (8 * k) (spread b)) :: u8) i = bit b i"
    by (simp add: bit_ucast_iff bit_drop_bit_eq bit_spread)
qed

lemma store_op_fill: "store_op m a (spread b) = fill m a b 8"
proof -
  have "fold (\<lambda>k m. m(a + k := ucast (drop_bit (8 * k) (spread b)))) [0..<n] m = fill m a b n"
    if "n \<le> 8" for n
    using that
  proof (induction n)
    case (Suc n)
    then show ?case by (auto simp: spread_byte fill_def fun_eq_iff)
  qed simp
  then show ?thesis by (simp add: store_op_def)
qed

lemma block_fill: "fold (\<lambda>i m. store_op m (a + i * 8) (spread b)) [0..<n] m = fill m a b (n * 8)"
proof (induction n)
  case (Suc n)
  then show ?case using fill_fill [of m a b "n * 8" 8] by (simp add: store_op_fill add.commute)
qed simp

lemma block_loop_fill: "block_loop m a (spread b) x = (fill m a b (x * 64), a + x * 64)"
proof (induction x arbitrary: m a)
  case (Suc x)
  have "fill (fill m a b (8 * 8)) (a + 64) b (x * 64) = fill m a b (Suc x * 64)"
    using fill_fill [of m a b 64 "x * 64"] by simp
  with Suc.IH show ?case by (simp add: block_fill del: upt_Suc)
qed simp

lemma word_loop_fill: "word_loop m a (spread b) x = (fill m a b (x * 8), a + x * 8)"
proof (induction x arbitrary: m a)
  case (Suc x)
  have "fill (fill m a b 8) (a + 8) b (x * 8) = fill m a b (Suc x * 8)"
    using fill_fill [of m a b 8 "x * 8"] by simp
  with Suc.IH show ?case by (simp add: store_op_fill)
qed simp

lemma byte_loop_fill: "byte_loop m a b n = fill m a b n"
  by (induction n arbitrary: m a) (simp_all add: fill_step)

lemma align_loop_fill: "\<exists>n \<le> len. align_loop m a b len = (fill m a b n, a + n, len - n)"
proof (induction len arbitrary: m a)
  case (Suc len)
  show ?case
  proof (cases "a mod 8 = 0")
    case False
    obtain n where "n \<le> len" "align_loop (m(a := b)) (Suc a) b len
        = (fill (m(a := b)) (Suc a) b n, Suc a + n, len - n)"
      using Suc.IH by blast
    with False show ?thesis by (intro exI [of _ "Suc n"]) (simp add: fill_step)
  qed (auto intro: exI [of _ 0])
qed simp

text \<open>C36:
  \<open>smemset\<close> is \<^verbatim>\<open>memset\<close>: for every address, alignment, byte value and length it leaves
  exactly the memory the byte-wise reference leaves, and NULL is left alone.
\<close>

theorem smemset_is_memset:
  "smemset m dst c len = (if dst = 0 then m else c_memset m dst c len)"
proof (cases "dst = 0 \<or> len = 0")
  case True
  then show ?thesis by (auto simp: smemset_def c_memset_def)
next
  case False
  define b :: u8 where "b = word_of_int c"
  show ?thesis
  proof (cases "len \<ge> 8")
    case True
    obtain n where n: "n \<le> len" "align_loop m dst b len = (fill m dst b n, dst + n, len - n)"
      using align_loop_fill by blast
    define r where "r = len - n"
    have "smemset m dst c len = fill (fill (fill (fill m dst b n) (dst + n) b (r div 64 * 64))
        (dst + n + r div 64 * 64) b (r mod 64 div 8 * 8))
        (dst + n + r div 64 * 64 + r mod 64 div 8 * 8) b (r mod 64 mod 8)"
      using False True n(2)
      by (simp add: smemset_def b_def [symmetric] block_loop_fill word_loop_fill byte_loop_fill Let_def r_def)
    also have "\<dots> = fill m dst b (n + (r div 64 * 64 + (r mod 64 div 8 * 8 + r mod 64 mod 8)))"
      by (simp only: fill_fill add.assoc)
    also have "n + (r div 64 * 64 + (r mod 64 div 8 * 8 + r mod 64 mod 8)) = len"
      using n(1) by (simp only: div_mult_mod_eq r_def)
    finally show ?thesis using False by (simp add: c_memset_def b_def)
  next
    case less: False
    with False show ?thesis by (simp add: smemset_def c_memset_def byte_loop_fill Let_def)
  qed
qed

end
