(* ===== verification/Token.thy ===== *)
theory Token
  imports Arena Secure_Memset
begin

text \<open>
  The access tokens kept in an arena (\<^verbatim>\<open>tokens/core/example.c\<close>, type \<^verbatim>\<open>token_data_t\<close> of
  \<^verbatim>\<open>core.h\<close>): validation of the parameters, creation with every string and the array of authorities
  in arena blocks, validation of a token and the search for an authority.

  \<^item> The world is the arena and the memory, a byte for every address. A \<^verbatim>\<open>token_data_t\<close> is nine words
    of eight bytes in it; pointers and \<^verbatim>\<open>time_t\<close> (read signed) are such words. An allocation
    leaves the memory as it is: the code writes whatever it reads later.
  \<^item> A string argument is its contents, a NULL one \<open>None\<close>. The system's answers to the arena
    may depend on the state the arena is in; \<open>clock\<close> is what \<^verbatim>\<open>time(NULL)\<close> returns.
  \<^item> \<open>None\<close> as outcome: the call does not return (a mutex nobody releases), or reads past the
    array of authorities or a string that has no end. Messages are left out.
\<close>

type_synonym arena_system = "arena_memory \<Rightarrow> arena_os"
type_synonym world = "arena_memory \<times> mem"

section \<open>Words and strings in memory\<close>

fun load_le :: "mem \<Rightarrow> nat \<Rightarrow> nat \<Rightarrow> u64" where
  "load_le m a 0 = 0"
| "load_le m a (Suc n) = ucast (m a) OR push_bit 8 (load_le m (Suc a) n)"

definition load_op :: "mem \<Rightarrow> nat \<Rightarrow> u64" where
  "load_op m a = load_le m a 8"

fun write_bytes :: "mem \<Rightarrow> nat \<Rightarrow> u8 list \<Rightarrow> mem" where
  "write_bytes m a [] = m"
| "write_bytes m a (b # bs) = write_bytes (m(a := b)) (Suc a) bs"

definition c_bytes :: "string \<Rightarrow> u8 list" where
  "c_bytes s = map of_char s @ [0]"

text \<open>The string at an address; \<open>None\<close> when there is no NUL byte.\<close>

partial_function (option) c_string_at :: "mem \<Rightarrow> nat \<Rightarrow> string option" where
  "c_string_at m a =
     (if m a = 0 then Some []
      else Option.bind (c_string_at m (Suc a)) (\<lambda>s. Some (char_of (unat (m a)) # s)))"

definition safe_strcpy :: "mem \<Rightarrow> u64 \<Rightarrow> string option \<Rightarrow> u64 \<Rightarrow> bool \<times> mem" where
  "safe_strcpy m dest src dest_size =
     (case src of
        None \<Rightarrow> (False, m)
      | Some s \<Rightarrow>
          if dest = 0 \<or> dest_size = 0 then (False, m)
          else if of_nat (length s) \<ge> dest_size
          then (False, write_bytes m (unat dest) (c_bytes (take (unat dest_size - 1) s)))
          else (True, write_bytes m (unat dest) (c_bytes s)))"

section \<open>Validation of the parameters\<close>

record token_args =
  arg_id :: "string option"
  arg_user_id :: "string option"
  arg_username :: "string option"
  arg_authorities :: "string option list option"
  arg_auth_count :: u64
  arg_device_hash :: "string option"
  arg_issued_at :: u64
  arg_expires_at :: u64
  arg_client_ip :: "string option"
  arg_check_expiration :: bool

definition validate_token_params :: "string option \<Rightarrow> string option \<Rightarrow> string option \<Rightarrow> bool" where
  "validate_token_params tid user_id username =
     (case tid of
        None \<Rightarrow> False
      | Some s \<Rightarrow>
          if s = [] then False
          else if length s > 256 then False
          else if (case user_id of None \<Rightarrow> False | Some u \<Rightarrow> length u > 256) then False
          else if (case username of None \<Rightarrow> False | Some u \<Rightarrow> length u > 256) then False
          else True)"

definition validate_timestamps :: "int \<Rightarrow> u64 \<Rightarrow> u64 \<Rightarrow> bool \<Rightarrow> bool" where
  "validate_timestamps clock issued_at expires_at check_expiration =
     (if sint issued_at \<le> 0 then False
      else if sint expires_at \<le> 0 then False
      else if sint expires_at \<le> sint issued_at then False
      else if check_expiration \<and> sint expires_at < clock then False
      else True)"

fun check_authorities :: "nat \<Rightarrow> string option list \<Rightarrow> bool option" where
  "check_authorities 0 as = Some True"
| "check_authorities (Suc n) [] = None"
| "check_authorities (Suc n) (a # as) =
     (case a of
        None \<Rightarrow> Some False
      | Some s \<Rightarrow> if s = [] then Some False else if length s > 128 then Some False
                  else check_authorities n as)"

section \<open>Creation\<close>

text \<open>The nine words of a \<^verbatim>\<open>token_data_t\<close>, in the order of its fields.\<close>

abbreviation (input) SIZEOF_TOKEN :: u64 where "SIZEOF_TOKEN \<equiv> 72"

definition field_at :: "u64 \<Rightarrow> nat \<Rightarrow> nat" where
  "field_at p i = unat p + 8 * i"

definition token_alloc :: "arena_system \<Rightarrow> u64 \<Rightarrow> world \<Rightarrow> (u64 \<times> world) option" where
  "token_alloc sys sz w =
     (case arena_alloc (sys (fst w)) (Some (fst w)) sz of
        Some (r, Some a) \<Rightarrow> Some (case r of None \<Rightarrow> 0 | Some q \<Rightarrow> q, (a, snd w))
      | _ \<Rightarrow> None)"

definition str_size :: "string \<Rightarrow> u64" where
  "str_size s = of_nat (length s) + 1"

text \<open>The fields that hold strings, in the order in which they are allocated and copied.\<close>

definition string_fields :: "token_args \<Rightarrow> (nat \<times> string option) list" where
  "string_fields r =
     [(0, arg_id r), (1, arg_user_id r), (2, arg_username r), (5, arg_device_hash r), (8, arg_client_ip r)]"

text \<open>\<open>False\<close>: an allocation failed and NULL is returned.\<close>

fun alloc_fields :: "arena_system \<Rightarrow> u64 \<Rightarrow> (nat \<times> string option) list \<Rightarrow> world \<Rightarrow> (bool \<times> world) option" where
  "alloc_fields sys p [] w = Some (True, w)"
| "alloc_fields sys p ((i, None) # fs) w = alloc_fields sys p fs w"
| "alloc_fields sys p ((i, Some s) # fs) w =
     (case token_alloc sys (str_size s) w of
        None \<Rightarrow> None
      | Some (q, a, m) \<Rightarrow>
          let w' = (a, store_op m (field_at p i) q)
          in if q = 0 then Some (False, w') else alloc_fields sys p fs w')"

fun copy_fields :: "u64 \<Rightarrow> (nat \<times> string option) list \<Rightarrow> mem \<Rightarrow> mem" where
  "copy_fields p [] m = m"
| "copy_fields p ((i, None) # fs) m = copy_fields p fs m"
| "copy_fields p ((i, Some s) # fs) m =
     copy_fields p fs (snd (safe_strcpy m (load_op m (field_at p i)) (Some s) (str_size s)))"

text \<open>The loop over the authorities, from index \<open>i\<close> on, \<open>n\<close> of them left.\<close>

fun alloc_authorities ::
    "arena_system \<Rightarrow> u64 \<Rightarrow> nat \<Rightarrow> nat \<Rightarrow> string option list \<Rightarrow> world \<Rightarrow> (bool \<times> world) option" where
  "alloc_authorities sys p i 0 as w = Some (True, w)"
| "alloc_authorities sys p i (Suc n) (Some s # as) w =
     (case token_alloc sys (str_size s) w of
        None \<Rightarrow> None
      | Some (q, a, m) \<Rightarrow>
          let m' = store_op m (unat (load_op m (field_at p 3)) + 8 * i) q
          in if q = 0 then Some (False, (a, m'))
             else alloc_authorities sys p (Suc i) n as (a, snd (safe_strcpy m' q (Some s) (str_size s))))"
| "alloc_authorities sys p i (Suc n) _ w = None"

definition token_authorities :: "arena_system \<Rightarrow> u64 \<Rightarrow> token_args \<Rightarrow> world \<Rightarrow> (bool \<times> world) option" where
  "token_authorities sys p r w =
     (case arg_authorities r of
        Some as \<Rightarrow>
          if arg_auth_count r > 0 then
            case token_alloc sys (8 * arg_auth_count r) w of
              None \<Rightarrow> None
            | Some (q, a, m) \<Rightarrow>
                let m' = store_op m (field_at p 3) q
                in if q = 0 then Some (False, (a, m'))
                   else alloc_authorities sys p 0 (unat (arg_auth_count r)) as
                          (a, store_op m' (field_at p 4) (arg_auth_count r))
          else Some (True, (fst w, store_op (store_op (snd w) (field_at p 3) 0) (field_at p 4) 0))
      | None \<Rightarrow> Some (True, (fst w, store_op (store_op (snd w) (field_at p 3) 0) (field_at p 4) 0)))"

text \<open>Creation after the checks; the pointer 0 is NULL.\<close>

definition create_token :: "arena_system \<Rightarrow> token_args \<Rightarrow> world \<Rightarrow> (u64 \<times> world) option" where
  "create_token sys r w =
     (case token_alloc sys SIZEOF_TOKEN w of
        None \<Rightarrow> None
      | Some (p, a, m) \<Rightarrow>
          if p = 0 then Some (0, (a, m))
          else
            (case alloc_fields sys p (string_fields r) (a, c_memset m (unat p) 0 72) of
               None \<Rightarrow> None
             | Some (False, w) \<Rightarrow> Some (0, w)
             | Some (True, (a, m)) \<Rightarrow>
                 (case token_authorities sys p r (a, copy_fields p (string_fields r) m) of
                    None \<Rightarrow> None
                  | Some (False, w) \<Rightarrow> Some (0, w)
                  | Some (True, (a, m)) \<Rightarrow>
                      Some (p, (a, store_op (store_op m (field_at p 6) (arg_issued_at r))
                                     (field_at p 7) (arg_expires_at r))))))"

text \<open>The parameter checks of \<^verbatim>\<open>token_data_create_ex\<close>.\<close>

definition token_args_checked :: "int \<Rightarrow> token_args \<Rightarrow> bool option" where
  "token_args_checked clock r =
     (if \<not> validate_token_params (arg_id r) (arg_user_id r) (arg_username r) then Some False
      else if \<not> validate_timestamps clock (arg_issued_at r) (arg_expires_at r) (arg_check_expiration r)
      then Some False
      else if arg_auth_count r > 0 \<and> arg_authorities r = None then Some False
      else if arg_auth_count r > 100 then Some False
      else check_authorities (unat (arg_auth_count r)) (case arg_authorities r of None \<Rightarrow> [] | Some as \<Rightarrow> as))"

definition token_data_create_ex ::
    "arena_system \<Rightarrow> int \<Rightarrow> arena_memory option \<Rightarrow> token_args \<Rightarrow> mem \<Rightarrow> (u64 \<times> arena_memory option \<times> mem) option" where
  "token_data_create_ex sys clock arena r m =
     (case arena of
        None \<Rightarrow> Some (0, None, m)
      | Some a \<Rightarrow>
          (case token_args_checked clock r of
             None \<Rightarrow> None
           | Some False \<Rightarrow> Some (0, Some a, m)
           | Some True \<Rightarrow>
               (case create_token sys r (a, m) of
                  None \<Rightarrow> None
                | Some (p, (a', m')) \<Rightarrow> Some (p, Some a', m'))))"

definition token_data_create ::
    "arena_system \<Rightarrow> int \<Rightarrow> arena_memory option \<Rightarrow> token_args \<Rightarrow> mem \<Rightarrow> (u64 \<times> arena_memory option \<times> mem) option" where
  "token_data_create sys clock arena r m =
     token_data_create_ex sys clock arena (r\<lparr>arg_check_expiration := False\<rparr>) m"

section \<open>Validation and search\<close>

fun valid_authorities :: "mem \<Rightarrow> u64 \<Rightarrow> nat \<Rightarrow> nat \<Rightarrow> bool option" where
  "valid_authorities m arr i 0 = Some True"
| "valid_authorities m arr i (Suc n) =
     (let q = load_op m (unat arr + 8 * i)
      in if q = 0 then Some False
         else (case c_string_at m (unat q) of
                 None \<Rightarrow> None
               | Some s \<Rightarrow> if s = [] then Some False else valid_authorities m arr (Suc i) n))"

definition token_validate :: "int \<Rightarrow> mem \<Rightarrow> u64 \<Rightarrow> bool option" where
  "token_validate clock m p =
     (if p = 0 then Some False
      else if load_op m (field_at p 0) = 0 then Some False
      else
        (case c_string_at m (unat (load_op m (field_at p 0))) of
           None \<Rightarrow> None
         | Some s \<Rightarrow>
             if s = [] then Some False
             else if sint (load_op m (field_at p 6)) \<le> 0 then Some False
             else if sint (load_op m (field_at p 7)) \<le> 0 then Some False
             else if sint (load_op m (field_at p 7)) \<le> sint (load_op m (field_at p 6)) then Some False
             else if sint (load_op m (field_at p 7)) < clock then Some False
             else if (load_op m (field_at p 3) = 0) \<noteq> (load_op m (field_at p 4) = 0) then Some False
             else valid_authorities m (load_op m (field_at p 3)) 0 (unat (load_op m (field_at p 4)))))"

fun find_authority :: "mem \<Rightarrow> u64 \<Rightarrow> string \<Rightarrow> nat \<Rightarrow> nat \<Rightarrow> bool option" where
  "find_authority m arr authority i 0 = Some False"
| "find_authority m arr authority i (Suc n) =
     (let q = load_op m (unat arr + 8 * i)
      in if q = 0 then find_authority m arr authority (Suc i) n
         else (case c_string_at m (unat q) of
                 None \<Rightarrow> None
               | Some s \<Rightarrow> if strcmp s authority = 0 then Some True
                          else find_authority m arr authority (Suc i) n))"

definition token_has_authority :: "mem \<Rightarrow> u64 \<Rightarrow> string option \<Rightarrow> bool option" where
  "token_has_authority m p authority =
     (case authority of
        None \<Rightarrow> Some False
      | Some s \<Rightarrow>
          if p = 0 then Some False
          else find_authority m (load_op m (field_at p 3)) s 0 (unat (load_op m (field_at p 4))))"

end
