(* ===== verification/Block_Interface.thy ===== *)
theory Block_Interface
  imports Prelude
begin

text \<open>
  The contract between an allocator of memory blocks and its clients: a call returns, keeps the
  allocator consistent, and gives NULL or a block of bytes nobody uses. The arena interprets it;
  the tokens are built on its lemmas.
\<close>

definition block :: "u64 \<Rightarrow> u64 \<Rightarrow> nat set" where
  "block ptr sz = {unat ptr ..< unat ptr + unat sz}"

locale block_allocator =
  fixes alloc :: "'e \<Rightarrow> 's \<Rightarrow> u64 \<Rightarrow> (u64 option \<times> 's) option"
    and env_ok :: "'e \<Rightarrow> 's \<Rightarrow> bool"
    and consistent :: "'s \<Rightarrow> bool"
    and used :: "'s \<Rightarrow> nat set"
  assumes alloc_returns: "consistent s \<Longrightarrow> env_ok e s \<Longrightarrow> \<exists>r s'. alloc e s sz = Some (r, s') \<and> consistent s'"
    and alloc_null: "consistent s \<Longrightarrow> env_ok e s \<Longrightarrow> alloc e s sz = Some (None, s') \<Longrightarrow> used s' = used s"
    and alloc_fresh: "consistent s \<Longrightarrow> env_ok e s \<Longrightarrow> alloc e s sz = Some (Some p, s') \<Longrightarrow>
      block p sz \<inter> used s = {} \<and> used s \<union> block p sz \<subseteq> used s'"
begin

text \<open>The blocks \<open>Bs\<close> are in use, disjoint from each other and from \<open>U\<close>, which was in use before.\<close>

definition holds :: "nat set \<Rightarrow> nat set list \<Rightarrow> 's \<Rightarrow> bool" where
  "holds U Bs s = (consistent s \<and> U \<subseteq> used s \<and> (\<forall>B \<in> set Bs. B \<subseteq> used s \<and> B \<inter> U = {})
     \<and> sorted_wrt (\<lambda>B C. B \<inter> C = {}) Bs)"

lemma holds_start: "consistent s \<Longrightarrow> holds (used s) [] s"
  by (simp add: holds_def)

lemma holds_mono: "holds U Bs s \<Longrightarrow> consistent s' \<Longrightarrow> used s \<subseteq> used s' \<Longrightarrow> holds U Bs s'"
  unfolding holds_def by blast

lemma holds_front: "holds U (Bs @ Cs) s \<Longrightarrow> holds U Bs s"
  by (auto simp: holds_def sorted_wrt_append)

lemma holds_block: "holds U Bs s \<Longrightarrow> B \<in> set Bs \<Longrightarrow> B \<subseteq> used s - U"
  by (auto simp: holds_def)

lemma holds_later:
  assumes "holds U (B # Bs) s" and "C \<in> set Bs"
  shows "C \<subseteq> used s - U - B"
proof -
  have "C \<subseteq> used s - U" using holds_block [OF assms(1), of C] assms(2) by simp
  moreover have "B \<inter> C = {}" using assms by (simp add: holds_def)
  ultimately show ?thesis by blast
qed

lemma holds_others: "holds U (Xs @ B # Ys) s \<Longrightarrow> C \<in> set (Xs @ Ys) \<Longrightarrow> C \<inter> B = {}"
  by (auto simp: holds_def sorted_wrt_append Int_commute)

lemma alloc_holds:
  assumes "holds U Bs s" and "env_ok e s"
  shows "\<exists>r s'. alloc e s sz = Some (r, s') \<and> holds U Bs s'
    \<and> (\<forall>p. r = Some p \<longrightarrow> holds U (Bs @ [block p sz]) s')"
proof -
  have ok: "consistent s" using assms(1) by (simp add: holds_def)
  obtain r s' where call: "alloc e s sz = Some (r, s')" and ok': "consistent s'"
    using alloc_returns [OF ok assms(2)] by blast
  have mono: "used s \<subseteq> used s'"
    using alloc_null [OF ok assms(2)] alloc_fresh [OF ok assms(2)] call by (cases r) auto
  have old: "holds U Bs s'" using assms(1) ok' mono by (rule holds_mono)
  have "holds U (Bs @ [block p sz]) s'" if "r = Some p" for p
  proof -
    have p: "block p sz \<inter> used s = {}" "block p sz \<subseteq> used s'"
      using alloc_fresh [OF ok assms(2)] call that by auto
    have "B \<inter> block p sz = {}" if "B \<in> set Bs" for B using holds_block [OF assms(1) that] p(1) by blast
    moreover have "block p sz \<inter> U = {}" using assms(1) p(1) by (auto simp: holds_def)
    ultimately show ?thesis using old p(2) by (auto simp: holds_def sorted_wrt_append)
  qed
  with call old show ?thesis by blast
qed

end

end
