(* ===== verification/Arena_Safety.thy ===== *)
theory Arena_Safety
  imports Arena Block_Interface
begin

text \<open>
  Correctness of the arena: sizes are rounded without wrapping, the size loop ends, every
  block handed out lies in one mapping and overlaps no other block, and what the counters
  say after each operation. The contract of \<^verbatim>\<open>mmap\<close> is \<open>mmap_ok\<close>: a mapping is aligned,
  stays below the end of the address space and overlaps no mapping the arena holds.
\<close>

section \<open>Sizes\<close>

lemma unat_add_small: "unat a + unat b < 2 ^ 64 \<Longrightarrow> unat (a + b :: u64) = unat a + unat b"
  using unat_add_lem [of a b] by simp

lemma round_up_unat:
  assumes "0 < unat u" and "unat s + unat u < 2 ^ 64"
  shows "unat (round_up s u) = (unat s + unat u - 1) div unat u * unat u"
proof -
  have sum: "unat (s + u) = unat s + unat u" using assms(2) by (rule unat_add_small)
  have "(1 :: u64) \<le> s + u" using assms sum by (simp add: word_le_nat_alt)
  then have less1: "unat (s + u - 1) = unat s + unat u - 1" by (simp add: unat_sub sum)
  have "(unat s + unat u - 1) div unat u * unat u < 2 ^ 64"
    using assms(2) div_times_less_eq_dividend [of "unat s + unat u - 1" "unat u"] by linarith
  then show ?thesis
    using unat_mult_lem [of "(s + u - 1) div u" u] less1
    by (simp add: round_up_def unat_div_distrib)
qed

lemma round_up_bounds:
  assumes "0 < unat u" and "unat s + unat u < 2 ^ 64"
  shows "unat u dvd unat (round_up s u)" and "unat s \<le> unat (round_up s u)"
    and "unat (round_up s u) < unat s + unat u"
proof -
  define n where "n = unat s + unat u - 1"
  have r: "unat (round_up s u) = n - n mod unat u"
    using assms by (simp add: round_up_unat n_def minus_mod_eq_div_mult)
  have "n mod unat u < unat u" using assms(1) by simp
  moreover have "unat s + unat u = Suc n" using assms(1) by (simp add: n_def)
  ultimately show "unat s \<le> unat (round_up s u)" "unat (round_up s u) < unat s + unat u"
    unfolding r by linarith+
  show "unat u dvd unat (round_up s u)" using assms by (simp add: round_up_unat)
qed

text \<open>For every size the allocator accepts the rounded size is the least multiple of eight that
  is not below it; only within eight bytes of \<open>2 ^ 64\<close> does the rounding wrap.
\<close>

lemma arena_align_size_correct:
  assumes "unat sz + 8 < 2 ^ 64"
  shows "8 dvd unat (arena_align_size sz) \<and> unat sz \<le> unat (arena_align_size sz) \<and>
    (\<forall>m. 8 dvd m \<longrightarrow> unat sz \<le> m \<longrightarrow> unat (arena_align_size sz) \<le> m)"
proof -
  have h: "0 < unat (8 :: u64)" "unat sz + unat (8 :: u64) < 2 ^ 64" using assms by simp_all
  note b = round_up_bounds [OF h]
  have "unat (arena_align_size sz) \<le> m" if d: "8 dvd m" and le: "unat sz \<le> m" for m
  proof -
    obtain k where "m = 8 * k" using d by (auto elim: dvdE)
    moreover obtain j where "unat (round_up sz 8) = 8 * j" using b(1) by (auto elim: dvdE)
    ultimately show ?thesis using b(3) le by (simp add: arena_align_size_def)
  qed
  with b show ?thesis by (simp add: arena_align_size_def)
qed

lemma arena_align_size_correct_witness:
  "8 dvd unat (arena_align_size 13) \<and> unat (arena_align_size 13) \<le> 16"
  using arena_align_size_correct [of 13] by simp

lemma grow_chunk_steps:
  "grow_chunk r 2097152 65536 = (if 65536 < r then grow_chunk r 2097152 131072 else Some 65536)"
  "grow_chunk r 2097152 131072 = (if 131072 < r then grow_chunk r 2097152 262144 else Some 131072)"
  "grow_chunk r 2097152 262144 = (if 262144 < r then grow_chunk r 2097152 524288 else Some 262144)"
  "grow_chunk r 2097152 524288 = (if 524288 < r then grow_chunk r 2097152 1048576 else Some 524288)"
  "grow_chunk r 2097152 1048576 = (if 1048576 < r then grow_chunk r 2097152 2097152 else Some 1048576)"
  "grow_chunk r 2097152 2097152 = Some 2097152"
  by (subst grow_chunk.simps, simp)+

lemma calc_chunk_size_eq:
  "arena_calculate_new_chunk_size r = Some
     (if r \<le> 65536 then 65536 else if r \<le> 131072 then 131072 else if r \<le> 262144 then 262144
      else if r \<le> 524288 then 524288 else if r \<le> 1048576 then 1048576 else 2097152)"
  by (auto simp: arena_calculate_new_chunk_size_def grow_chunk_steps word_le_nat_alt word_less_nat_alt)

lemma calc_chunk_size_power:
  "\<exists>c k. arena_calculate_new_chunk_size r = Some c \<and> 16 \<le> k \<and> k \<le> 21 \<and> unat c = 2 ^ k \<and>
    (unat r \<le> 2097152 \<longrightarrow> unat r \<le> unat c) \<and> (65536 < unat r \<longrightarrow> unat c < 2 * unat r)"
proof -
  have "\<exists>k. 16 \<le> k \<and> k \<le> 21 \<and> unat c = 2 ^ k"
    if "arena_calculate_new_chunk_size r = Some c" for c
  proof -
    have "\<exists>k \<in> {16, 17, 18, 19, 20, 21}. unat c = 2 ^ k"
      using that by (auto simp: calc_chunk_size_eq split: if_splits)
    then obtain k where k: "k \<in> {16, 17, 18, 19, 20, 21 :: nat}" and "unat c = 2 ^ k" by blast
    moreover from k have "16 \<le> k \<and> k \<le> 21" by auto
    ultimately show ?thesis by blast
  qed
  moreover have "(unat r \<le> 2097152 \<longrightarrow> unat r \<le> unat c) \<and> (65536 < unat r \<longrightarrow> unat c < 2 * unat r)"
    if "arena_calculate_new_chunk_size r = Some c" for c
    using that by (auto simp: calc_chunk_size_eq word_le_nat_alt split: if_splits)
  moreover obtain c where "arena_calculate_new_chunk_size r = Some c" by (simp add: calc_chunk_size_eq)
  ultimately show ?thesis by blast
qed

text \<open>The size loop ends for every request; the result is a power of two from 64 KiB to 2 MiB,
  at least the request wherever one chunk can hold it, and then less than twice as large as
  a request above 64 KiB.
\<close>

lemma new_chunk_size_correct:
  "\<exists>c k. arena_calculate_new_chunk_size r = Some c \<and> 16 \<le> k \<and> k \<le> 21 \<and> unat c = 2 ^ k \<and>
    (r \<le> get_arena_max_chunk_size \<longrightarrow> r \<le> c) \<and>
    (get_arena_default_chunk_size < r \<longrightarrow> unat c < 2 * unat r)"
  using calc_chunk_size_power [of r] by (simp add: word_le_nat_alt word_less_nat_alt)

lemma new_chunk_size_correct_witness:
  "\<exists>c. arena_calculate_new_chunk_size 100000 = Some c \<and> 100000 \<le> c \<and> unat c < 200000"
  using new_chunk_size_correct [of 100000] by auto

lemma calc_chunk_size:
  assumes "unat r \<le> 1048576 + 8"
  obtains c where "arena_calculate_new_chunk_size r = Some c" and "65536 \<le> unat c"
    and "unat c \<le> 2097152" and "unat r \<le> unat c"
proof -
  obtain c k where c: "arena_calculate_new_chunk_size r = Some c" "16 \<le> k" "k \<le> 21" "unat c = 2 ^ k"
    "unat r \<le> unat c"
    using calc_chunk_size_power [of r] assms by auto
  have "(2 :: nat) ^ 16 \<le> 2 ^ k" "(2 :: nat) ^ k \<le> 2 ^ 21" using c(2,3) by (intro power_increasing; simp)+
  with c that show thesis by simp
qed

section \<open>Regions\<close>

definition extent :: "arena_chunk \<Rightarrow> nat set" where
  "extent c = {unat (chunk_memory c) ..< unat (chunk_memory c) + unat (chunk_size c)}"

definition taken :: "arena_chunk \<Rightarrow> nat set" where
  "taken c = {unat (chunk_memory c) ..< unat (chunk_memory c) + unat (chunk_used c)}"

definition chunk_ok :: "arena_chunk \<Rightarrow> bool" where
  "chunk_ok c \<longleftrightarrow> unat (chunk_used c) \<le> unat (chunk_size c) \<and> unat (chunk_size c) \<le> 2 ^ 33
     \<and> unat (chunk_memory c) + unat (chunk_size c) \<le> 2 ^ 64
     \<and> 8 dvd unat (chunk_memory c) \<and> 8 dvd unat (chunk_used c)"

definition chunks_ok :: "arena_chunk list \<Rightarrow> bool" where
  "chunks_ok cs \<longleftrightarrow> (\<forall>c \<in> set cs. chunk_ok c)
     \<and> sorted_wrt (\<lambda>c d. extent c \<inter> extent d = {}) cs"

definition arena_chunks :: "arena_memory \<Rightarrow> arena_chunk list" where
  "arena_chunks a = (case current a of None \<Rightarrow> [] | Some c \<Rightarrow> [c]) @ old_chunks a"

definition arena_inv :: "arena_memory \<Rightarrow> bool" where
  "arena_inv a \<longleftrightarrow> chunks_ok (arena_chunks a)
     \<and> chunk_count a = of_nat (length (arena_chunks a))"

definition used_bytes :: "arena_memory \<Rightarrow> nat set" where
  "used_bytes a = \<Union> (taken ` set (arena_chunks a))"

definition all_bytes :: "arena_memory \<Rightarrow> nat set" where
  "all_bytes a = \<Union> (extent ` set (arena_chunks a))"

text \<open>What the arena relies on of \<^verbatim>\<open>mmap\<close> and the page size.\<close>

definition mmap_ok :: "arena_os \<Rightarrow> arena_memory \<Rightarrow> bool" where
  "mmap_ok os a \<longleftrightarrow> 0 < unat (page_size os) \<and> unat (page_size os) \<le> 2 ^ 32
     \<and> (\<forall>len p. mmap_result os len = Some p \<longrightarrow>
          8 dvd unat p \<and> unat p + unat len \<le> 2 ^ 64 \<and>
          {unat p ..< unat p + unat len} \<inter> all_bytes a = {})"

lemma taken_extent: "chunk_ok c \<Longrightarrow> taken c \<subseteq> extent c"
  by (auto simp: chunk_ok_def taken_def extent_def)

lemma chunks_ok_Cons:
  "chunks_ok (c # cs) \<longleftrightarrow> chunk_ok c \<and> (\<forall>d \<in> set cs. extent c \<inter> extent d = {}) \<and> chunks_ok cs"
  by (auto simp: chunks_ok_def)

lemma sorted_wrt_move:
  "(\<And>x y. R x y = R y x) \<Longrightarrow> sorted_wrt R (xs @ c # ys) \<longleftrightarrow> sorted_wrt R (c # xs @ ys)"
  by (auto simp: sorted_wrt_append)

lemma chunks_ok_move: "chunks_ok (xs @ c # ys) \<longleftrightarrow> chunks_ok (c # xs @ ys)"
  using sorted_wrt_move [of "\<lambda>c d. extent c \<inter> extent d = {}" xs c ys]
  by (auto simp: chunks_ok_def Int_commute simp del: sorted_wrt.simps)

lemma take_suitable_split:
  "take_suitable sz cs = Some (c, rest) \<Longrightarrow>
    \<exists>xs ys. cs = xs @ c # ys \<and> rest = xs @ ys \<and> sz \<le> chunk_size c - chunk_used c"
proof (induction cs arbitrary: rest)
  case (Cons d cs)
  show ?case
  proof (cases "sz \<le> chunk_size d - chunk_used d")
    case True
    with Cons.prems show ?thesis by (auto intro: exI [of _ "[]"])
  next
    case False
    then obtain rest' where r: "take_suitable sz cs = Some (c, rest')" "rest = d # rest'"
      using Cons.prems by (auto split: option.splits)
    then obtain xs ys where "cs = xs @ c # ys" "rest' = xs @ ys" "sz \<le> chunk_size c - chunk_used c"
      using Cons.IH by blast
    with r show ?thesis by (intro exI [of _ "d # xs"] exI [of _ ys]) simp
  qed
qed simp

text \<open>
  The state in which a block is cut off chunk \<open>c\<close>: the chunks besides \<open>c\<close> are the old ones,
  and nothing that was in use in \<open>a\<close> is gone.
\<close>

definition ready :: "u64 \<Rightarrow> arena_chunk \<Rightarrow> arena_memory \<Rightarrow> arena_memory \<Rightarrow> bool" where
  "ready sz c a' a \<longleftrightarrow> chunks_ok (c # old_chunks a')
     \<and> chunk_count a' = of_nat (Suc (length (old_chunks a')))
     \<and> unat (chunk_used c) + unat sz \<le> unat (chunk_size c)
     \<and> \<Union> (taken ` set (c # old_chunks a')) = used_bytes a"

lemma retire_ready:
  assumes "chunks_ok ((case current a of None \<Rightarrow> [] | Some c \<Rightarrow> [c]) @ c # cs)"
    and "chunk_count a = of_nat (length ((case current a of None \<Rightarrow> [] | Some c \<Rightarrow> [c]) @ c # cs))"
    and "old_chunks a = cs" and "unat (chunk_used c) + unat sz \<le> unat (chunk_size c)"
    and "\<Union> (taken ` set ((case current a of None \<Rightarrow> [] | Some c \<Rightarrow> [c]) @ c # cs)) = used_bytes b"
  shows "ready sz c (retire_current a) b"
proof (cases "current a")
  case None
  with assms show ?thesis by (simp add: ready_def retire_current_def)
next
  case (Some d)
  show ?thesis
  proof (cases "chunk_used d > 0")
    case True
    have "chunks_ok (c # d # cs)"
      using assms(1) Some chunks_ok_move [of "[d]" c cs] by simp
    with True Some assms show ?thesis by (auto simp: ready_def retire_current_def)
  next
    case False
    then have "taken d = {}" by (simp add: taken_def word_less_nat_alt)
    with False Some assms show ?thesis
      by (simp add: ready_def retire_current_def chunks_ok_Cons)
  qed
qed

text \<open>What a call of \<open>arena_alloc\<close> that got to the end owes its caller.\<close>

definition alloc_good :: "u64 \<Rightarrow> arena_memory \<Rightarrow> u64 \<Rightarrow> arena_memory \<Rightarrow> bool" where
  "alloc_good sz a ptr a' \<longleftrightarrow> arena_inv a' \<and> \<not> locked a' \<and> 8 dvd unat ptr
     \<and> block ptr sz \<inter> used_bytes a = {} \<and> used_bytes a' = used_bytes a \<union> block ptr sz
     \<and> block ptr sz \<subseteq> all_bytes a'"

lemma carve_ready:
  assumes r: "ready sz c a' a" and sz: "0 < unat sz" "8 dvd unat sz"
  shows "\<exists>ptr b. carve sz c a' = (Some ptr, b) \<and> alloc_good sz a ptr b"
proof -
  define ptr where "ptr = chunk_memory c + chunk_used c"
  define c' where "c' = c\<lparr>chunk_used := chunk_used c + sz\<rparr>"
  define b where "b = a'\<lparr>current := Some c', total_used := total_used a' + sz,
    mem_calls := mem_calls a' @ [Mem_Protect ptr sz], locked := False\<rparr>"
  have c: "chunk_ok c" and disj: "\<forall>d \<in> set (old_chunks a'). extent c \<inter> extent d = {}"
    and old: "chunks_ok (old_chunks a')" and room: "unat (chunk_used c) + unat sz \<le> unat (chunk_size c)"
    and used: "\<Union> (taken ` set (c # old_chunks a')) = used_bytes a"
    and cnt: "chunk_count a' = of_nat (Suc (length (old_chunks a')))"
    using r by (auto simp: ready_def chunks_ok_Cons)
  have fit: "unat (chunk_memory c) + unat (chunk_used c) + unat sz \<le> 2 ^ 64"
    using c room by (simp add: chunk_ok_def)
  have ptr: "unat ptr = unat (chunk_memory c) + unat (chunk_used c)"
    using fit sz(1) unat_add_small [of "chunk_memory c" "chunk_used c"] by (simp add: ptr_def)
  have cused: "unat (chunk_used c') = unat (chunk_used c) + unat sz"
    using c room unat_add_small [of "chunk_used c" sz] by (simp add: c'_def chunk_ok_def)
  have "\<not> unat ptr = 2 ^ 64 - 1"
  proof
    assume "unat ptr = 2 ^ 64 - 1"
    moreover have "8 dvd unat ptr" using c ptr by (simp add: chunk_ok_def)
    ultimately show False by simp
  qed
  then have "ptr \<noteq> - 1" by (auto simp: unsigned_minus_1_eq_mask mask_eq_exp_minus_1)
  then have carve: "carve sz c a' = (Some ptr, b)"
    by (simp add: carve_def ptr_def [symmetric] c'_def b_def Let_def)
  have "extent c' = extent c" by (simp add: extent_def c'_def)
  moreover have "chunk_ok c'"
    using c room sz(2) cused by (simp add: chunk_ok_def) (simp add: c'_def)
  ultimately have inv: "arena_inv b"
    using disj old cnt by (simp add: arena_inv_def arena_chunks_def b_def chunks_ok_Cons)
  have chunks_b: "arena_chunks b = c' # old_chunks a'" by (simp add: arena_chunks_def b_def)
  have blk: "block ptr sz = {unat (chunk_memory c) + unat (chunk_used c) ..<
      unat (chunk_memory c) + unat (chunk_used c) + unat sz}"
    by (simp add: block_def ptr)
  have inside: "block ptr sz \<subseteq> extent c" using room by (auto simp: blk extent_def)
  have "taken c' = taken c \<union> block ptr sz"
    using cused by (auto simp: taken_def blk c'_def)
  then have "used_bytes b = used_bytes a \<union> block ptr sz"
    using used [symmetric] by (auto simp: used_bytes_def [of b] chunks_b)
  moreover have "block ptr sz \<inter> used_bytes a = {}"
  proof -
    have "block ptr sz \<inter> taken c = {}" by (auto simp: blk taken_def)
    moreover have "block ptr sz \<inter> taken d = {}" if "d \<in> set (old_chunks a')" for d
    proof -
      have "chunk_ok d" using that old by (simp add: chunks_ok_def)
      with that disj inside show ?thesis using taken_extent by blast
    qed
    ultimately show ?thesis unfolding used [symmetric] by auto
  qed
  moreover have "block ptr sz \<subseteq> all_bytes b"
    using inside \<open>extent c' = extent c\<close> by (auto simp: all_bytes_def arena_chunks_def b_def)
  moreover have "8 dvd unat ptr" using c ptr by (simp add: chunk_ok_def)
  ultimately have "alloc_good sz a ptr b"
    using inv by (simp add: alloc_good_def b_def)
  with carve show ?thesis by blast
qed

lemma word_room:
  assumes "chunk_ok c" and "unat sz \<le> 2 ^ 32"
  shows "chunk_used c + sz > chunk_size c \<longleftrightarrow> unat (chunk_size c) < unat (chunk_used c) + unat sz"
    and "sz \<le> chunk_size c - chunk_used c \<longleftrightarrow> unat (chunk_used c) + unat sz \<le> unat (chunk_size c)"
proof -
  have "unat (chunk_used c + sz) = unat (chunk_used c) + unat sz"
    using assms by (intro unat_add_small) (simp add: chunk_ok_def)
  then show "chunk_used c + sz > chunk_size c \<longleftrightarrow> unat (chunk_size c) < unat (chunk_used c) + unat sz"
    by (simp add: word_less_nat_alt)
  have "unat (chunk_size c - chunk_used c) = unat (chunk_size c) - unat (chunk_used c)"
    using assms(1) by (intro unat_sub) (simp add: chunk_ok_def word_le_nat_alt)
  then show "sz \<le> chunk_size c - chunk_used c \<longleftrightarrow> unat (chunk_used c) + unat sz \<le> unat (chunk_size c)"
    using assms(1) by (auto simp: word_le_nat_alt chunk_ok_def)
qed

lemma chunk_create_ok:
  assumes "mmap_ok os a" and "arena_chunk_create os n = Some c" and "65536 \<le> unat n" and "unat n \<le> 2097152"
  shows "chunk_ok c" and "chunk_used c = 0" and "unat n \<le> unat (chunk_size c)"
    and "extent c \<inter> all_bytes a = {}"
proof -
  define len where "len = round_up n (page_size os)"
  obtain m where m: "mmap_result os len = Some m" and c: "c = \<lparr>chunk_memory = m, chunk_used = 0,
      chunk_size = len, created_at = now os\<rparr>"
    using assms(2) by (auto simp: arena_chunk_create_def Let_def len_def split: if_splits option.splits)
  have pg: "0 < unat (page_size os)" "unat n + unat (page_size os) < 2 ^ 64" "unat (page_size os) \<le> 2 ^ 32"
    using assms(1,4) by (auto simp: mmap_ok_def)
  note b = round_up_bounds [OF pg(1,2)]
  have "8 dvd unat m \<and> unat m + unat len \<le> 2 ^ 64 \<and> {unat m ..< unat m + unat len} \<inter> all_bytes a = {}"
    using assms(1) m by (auto simp: mmap_ok_def)
  then show "chunk_ok c" "chunk_used c = 0" "unat n \<le> unat (chunk_size c)" "extent c \<inter> all_bytes a = {}"
    using b pg(3) assms(4) by (simp_all add: c chunk_ok_def extent_def len_def)
qed

text \<open>The system has memory for every request.\<close>

definition system_gives :: "arena_os \<Rightarrow> bool" where
  "system_gives os \<longleftrightarrow> calloc_ok os
     \<and> (\<forall>n. 65536 \<le> unat n \<longrightarrow> unat n \<le> 2097152 \<longrightarrow> mmap_result os (round_up n (page_size os)) \<noteq> None)"

lemma alloc_locked_correct:
  assumes inv: "arena_inv a" and os: "mmap_ok os a"
    and sz: "0 < unat sz" "8 dvd unat sz" "unat sz \<le> 1048576 + 8"
  shows "(\<exists>ptr a'. arena_alloc_locked os a sz = Some (Some ptr, a') \<and> alloc_good sz a ptr a')
    \<or> (\<not> system_gives os \<and> arena_alloc_locked os a sz = Some (None, a\<lparr>locked := False\<rparr>))"
proof -
  have ok: "chunks_ok (arena_chunks a)" and cnt: "chunk_count a = of_nat (length (arena_chunks a))"
    using inv by (auto simp: arena_inv_def)
  have small: "unat sz \<le> 2 ^ 32" using sz(3) by simp
  show ?thesis
  proof (cases "needs_chunk sz a")
    case False
    then obtain c where c: "current a = Some c" and room: "\<not> chunk_used c + sz > chunk_size c"
      by (auto simp: needs_chunk_def split: option.splits)
    have "chunk_ok c" using ok c by (simp add: arena_chunks_def chunks_ok_Cons)
    then have "ready sz c a a"
      using room word_room(1) [of c sz] small ok cnt c
      by (auto simp: ready_def arena_chunks_def used_bytes_def)
    with carve_ready [OF this sz(1,2)] False c show ?thesis by (auto simp: arena_alloc_locked_def)
  next
    case need: True
    show ?thesis
    proof (cases "take_suitable sz (old_chunks a)")
      case (Some cr)
      obtain c rest where cr: "cr = (c, rest)" by fastforce
      with Some obtain xs ys where split: "old_chunks a = xs @ c # ys" "rest = xs @ ys"
        and room: "sz \<le> chunk_size c - chunk_used c"
        by (auto dest: take_suitable_split)
      define cur where "cur = (case current a of None \<Rightarrow> [] | Some c \<Rightarrow> [c])"
      have all: "arena_chunks a = cur @ xs @ c # ys" by (simp add: arena_chunks_def cur_def split)
      have "chunk_ok c" using ok by (auto simp: all chunks_ok_def)
      moreover have "chunks_ok (cur @ c # rest)"
        using ok chunks_ok_move [of "cur @ xs" c ys] chunks_ok_move [of cur c "xs @ ys"]
        by (simp add: all split(2))
      ultimately have "ready sz c (retire_current (a\<lparr>old_chunks := rest\<rparr>)) a"
        using room word_room(2) [of c sz] small cnt
        by (intro retire_ready [where cs = rest])
          (auto simp: cur_def [symmetric] split(2) all used_bytes_def)
      from carve_ready [OF this sz(1,2)] need Some cr show ?thesis
        by (auto simp: arena_alloc_locked_def)
    next
      case None
      obtain n where n: "arena_calculate_new_chunk_size sz = Some n" "65536 \<le> unat n"
        "unat n \<le> 2097152" "unat sz \<le> unat n"
        using sz(3) by (rule calc_chunk_size)
      show ?thesis
      proof (cases "arena_chunk_create os n")
        case None
        then have "\<not> system_gives os"
          using n(2,3) by (fastforce simp: arena_chunk_create_def system_gives_def Let_def
              split: if_splits option.splits)
        with None need n(1) \<open>take_suitable sz (old_chunks a) = None\<close> show ?thesis
          by (simp add: arena_alloc_locked_def)
      next
        case (Some c)
        note c = chunk_create_ok [OF os Some n(2,3)]
        define cur where "cur = (case current a of None \<Rightarrow> [] | Some c \<Rightarrow> [c])"
        have all: "arena_chunks a = cur @ old_chunks a" by (simp add: arena_chunks_def cur_def)
        have "chunks_ok (c # cur @ old_chunks a)"
          using ok c(1,4) by (auto simp: all chunks_ok_Cons all_bytes_def)
        then have oks: "chunks_ok (cur @ c # old_chunks a)" using chunks_ok_move by blast
        define am where "am = a\<lparr>mem_calls := mem_calls a @ [Mem_Map (chunk_memory c) (chunk_size c)]\<rparr>"
        define a1 where "a1 = am\<lparr>chunk_count := chunk_count a + 1\<rparr>"
        have "taken c = {}" using c(2) by (simp add: taken_def)
        then have "ready sz c (retire_current a1) a"
          using oks cnt c(2,3) n(4)
          by (intro retire_ready [where cs = "old_chunks a"])
            (auto simp: cur_def [symmetric] a1_def am_def all used_bytes_def)
        moreover have "retire_current a1 = (retire_current am)\<lparr>chunk_count := chunk_count (retire_current am) + 1\<rparr>"
          by (simp add: retire_current_def a1_def am_def split: option.split)
        ultimately have "ready sz c ((retire_current am)\<lparr>total_allocated :=
            total_allocated (retire_current am) + chunk_size c,
            chunk_count := chunk_count (retire_current am) + 1\<rparr>) a"
          by (simp add: ready_def)
        from carve_ready [OF this sz(1,2)] need None n(1) Some
          \<open>take_suitable sz (old_chunks a) = None\<close> show ?thesis
          by (auto simp: arena_alloc_locked_def Let_def am_def)
      qed
    qed
  qed
qed

section \<open>Allocation is safe\<close>

lemma align_small:
  assumes "sz \<noteq> 0" and "\<not> sz > get_arena_max_alloc_size"
  shows "0 < unat (arena_align_size sz)" and "8 dvd unat (arena_align_size sz)"
    and "unat (arena_align_size sz) \<le> 1048576 + 8" and "unat sz \<le> unat (arena_align_size sz)"
proof -
  have "unat sz \<le> 1048576" using assms(2) by (simp add: word_less_nat_alt)
  then have h: "0 < unat (8 :: u64)" "unat sz + unat (8 :: u64) < 2 ^ 64" by simp_all
  note b = round_up_bounds [OF h]
  have "0 < unat sz" using assms(1) by (simp add: unat_gt_0)
  with b \<open>unat sz \<le> 1048576\<close>
  show "0 < unat (arena_align_size sz)" "8 dvd unat (arena_align_size sz)"
    "unat (arena_align_size sz) \<le> 1048576 + 8" "unat sz \<le> unat (arena_align_size sz)"
    by (simp_all add: arena_align_size_def)
qed

lemma arena_alloc_outcome:
  assumes "arena_inv a" and "\<not> locked a" and "mmap_ok os a"
  shows "\<exists>r a'. arena_alloc os (Some a) sz = Some (r, Some a') \<and> arena_inv a' \<and> \<not> locked a' \<and>
    (case r of
       None \<Rightarrow> used_bytes a' = used_bytes a \<and>
         (sz = 0 \<or> sz > get_arena_max_alloc_size \<or> \<not> system_gives os)
     | Some ptr \<Rightarrow> 8 dvd unat ptr \<and> block ptr sz \<inter> used_bytes a = {} \<and>
         used_bytes a \<union> block ptr sz \<subseteq> used_bytes a' \<and> block ptr sz \<subseteq> all_bytes a')"
proof (cases "sz = 0 \<or> sz > get_arena_max_alloc_size")
  case True
  with assms show ?thesis by (auto simp: arena_alloc_def)
next
  case False
  then have nz: "sz \<noteq> 0" "\<not> sz > get_arena_max_alloc_size" by simp_all
  note al = align_small [OF nz]
  define b where "b = a\<lparr>locked := True\<rparr>"
  have same: "arena_chunks b = arena_chunks a" by (simp add: arena_chunks_def b_def)
  have b: "arena_inv b" "mmap_ok os b" "used_bytes b = used_bytes a"
    using assms same by (simp_all add: arena_inv_def mmap_ok_def all_bytes_def used_bytes_def)
      (simp add: b_def)
  have unlocked: "b\<lparr>locked := False\<rparr> = a" using assms(2) by (simp add: b_def)
  have call: "arena_alloc os (Some a) sz =
      map_option (map_prod id Some) (arena_alloc_locked os b (arena_align_size sz))"
    using nz assms(2) by (simp add: arena_alloc_def b_def del: arena_constants)
  from alloc_locked_correct [OF b(1,2) al(1-3)] show ?thesis
  proof (elim disjE exE conjE)
    fix ptr a'
    assume r: "arena_alloc_locked os b (arena_align_size sz) = Some (Some ptr, a')"
      and g: "alloc_good (arena_align_size sz) b ptr a'"
    have "block ptr sz \<subseteq> block ptr (arena_align_size sz)" using al(4) by (auto simp: block_def)
    with g r call b(3) show ?thesis
      by (intro exI [of _ "Some ptr"] exI [of _ a']) (auto simp: alloc_good_def)
  next
    assume "\<not> system_gives os"
      and "arena_alloc_locked os b (arena_align_size sz) = Some (None, b\<lparr>locked := False\<rparr>)"
    with call unlocked assms show ?thesis by (intro exI [of _ None] exI [of _ a]) simp
  qed
qed

text \<open>C8:
  On a consistent arena \<open>arena_alloc\<close> always returns and releases the mutex, keeps the arena
  consistent, and either returns NULL without taking memory (only for a size of 0 or above
  the limit, or when the system gives none) or a pointer, aligned to eight bytes, to
  \<open>sz\<close> bytes inside one of its mappings that no earlier block uses.
\<close>

theorem arena_alloc_safe:
  assumes "arena_inv a" and "\<not> locked a" and "mmap_ok os a"
  shows "\<exists>r a'. arena_alloc os (Some a) sz = Some (r, Some a') \<and> arena_inv a' \<and> \<not> locked a' \<and>
    (case r of
       None \<Rightarrow> used_bytes a' = used_bytes a \<and>
         (sz = 0 \<or> sz > get_arena_max_alloc_size \<or> \<not> system_gives os)
     | Some ptr \<Rightarrow> 8 dvd unat ptr \<and> block ptr sz \<inter> used_bytes a = {} \<and>
         used_bytes a \<union> block ptr sz \<subseteq> used_bytes a' \<and> block ptr sz \<subseteq> all_bytes a')"
  using assms by (rule arena_alloc_outcome)

text \<open>A fresh arena and a system that maps at one address.\<close>

definition small_os :: arena_os where
  "small_os = \<lparr>calloc_ok = True, mutex_init_ok = True,
     mmap_result = (\<lambda>len. if len \<le> 2 ^ 30 then Some 65536 else None), page_size = 4096, now = 0,
     undeclared_size = 0\<rparr>"

definition dry_os :: arena_os where
  "dry_os = \<lparr>calloc_ok = False, mutex_init_ok = True, mmap_result = (\<lambda>_. None), page_size = 4096,
     now = 0, undeclared_size = 0\<rparr>"

definition fresh_arena :: arena_memory where
  "fresh_arena = \<lparr>current = None, old_chunks = [], locked = False, total_allocated = 0, total_used = 0,
     chunk_count = 0, last_cleanup = 0, mem_calls = []\<rparr>"

lemma fresh_arena_facts:
  "arena_init small_os = Some fresh_arena" "arena_inv fresh_arena" "\<not> locked fresh_arena"
  "mmap_ok small_os fresh_arena" "mmap_ok dry_os a" "used_bytes fresh_arena = {}"
proof -
  show "mmap_ok small_os fresh_arena"
    unfolding mmap_ok_def
    by (auto simp: small_os_def all_bytes_def arena_chunks_def fresh_arena_def word_le_nat_alt
        split: if_splits)
qed (simp_all add: arena_init_def small_os_def fresh_arena_def arena_inv_def arena_chunks_def
    chunks_ok_def mmap_ok_def dry_os_def used_bytes_def)

lemma arena_alloc_safe_witness:
  "\<exists>r a'. arena_alloc small_os (Some fresh_arena) 100 = Some (r, Some a') \<and> arena_inv a' \<and> \<not> locked a'"
  using arena_alloc_safe [OF fresh_arena_facts(2,3,4), of 100] by blast

text \<open>Runs of allocations; the system may behave differently at every step.\<close>

inductive arena_run :: "arena_memory \<Rightarrow> (u64 \<times> u64) list \<Rightarrow> arena_memory \<Rightarrow> bool" where
  run_done: "arena_run a [] a"
| run_null: "mmap_ok os a \<Longrightarrow> arena_alloc os (Some a) sz = Some (None, Some a') \<Longrightarrow>
    arena_run a' bs b \<Longrightarrow> arena_run a bs b"
| run_block: "mmap_ok os a \<Longrightarrow> arena_alloc os (Some a) sz = Some (Some ptr, Some a') \<Longrightarrow>
    arena_run a' bs b \<Longrightarrow> arena_run a ((ptr, sz) # bs) b"

lemma arena_alloc_NullD:
  assumes "arena_inv a" and "\<not> locked a" and "mmap_ok os a"
    and "arena_alloc os (Some a) sz = Some (None, Some a')"
  shows "arena_inv a'" and "\<not> locked a'" and "used_bytes a' = used_bytes a"
  using arena_alloc_outcome [OF assms(1-3), of sz] assms(4) by auto

lemma arena_alloc_BlockD:
  assumes "arena_inv a" and "\<not> locked a" and "mmap_ok os a"
    and "arena_alloc os (Some a) sz = Some (Some ptr, Some a')"
  shows "arena_inv a'" and "\<not> locked a'" and "block ptr sz \<inter> used_bytes a = {}"
    and "used_bytes a \<subseteq> used_bytes a'" and "block ptr sz \<subseteq> used_bytes a'"
  using arena_alloc_outcome [OF assms(1-3), of sz] assms(4) by auto

section \<open>The arena as an allocator of blocks\<close>

definition arena_ready :: "arena_memory \<Rightarrow> bool" where
  "arena_ready a \<longleftrightarrow> arena_inv a \<and> \<not> locked a"

definition arena_give :: "arena_os \<Rightarrow> arena_memory \<Rightarrow> u64 \<Rightarrow> (u64 option \<times> arena_memory) option" where
  "arena_give os a sz = map_option (map_prod id the) (arena_alloc os (Some a) sz)"

lemma arena_give_outcome:
  assumes "arena_ready a" and "mmap_ok os a"
  shows "\<exists>r a'. arena_alloc os (Some a) sz = Some (r, Some a') \<and> arena_give os a sz = Some (r, a') \<and> arena_ready a'"
  using arena_alloc_outcome [of a os sz] assms by (auto simp: arena_ready_def arena_give_def)

interpretation arena_blocks: block_allocator arena_give mmap_ok arena_ready used_bytes
proof
  fix a os sz r a' p
  assume ready: "arena_ready a" and os: "mmap_ok os a"
  then show "\<exists>r a'. arena_give os a sz = Some (r, a') \<and> arena_ready a'" using arena_give_outcome by blast
  show "used_bytes a' = used_bytes a" if "arena_give os a sz = Some (None, a')"
    using arena_give_outcome [OF ready os, of sz] ready os that
    by (auto simp: arena_ready_def dest: arena_alloc_NullD)
  show "block p sz \<inter> used_bytes a = {} \<and> used_bytes a \<union> block p sz \<subseteq> used_bytes a'"
    if "arena_give os a sz = Some (Some p, a')"
    using arena_give_outcome [OF ready os, of sz] ready os that
      arena_alloc_BlockD [of a os sz p a'] by (auto simp: arena_ready_def)
qed

definition disjoint_from :: "nat set \<Rightarrow> (u64 \<times> u64) list \<Rightarrow> bool" where
  "disjoint_from X bs \<longleftrightarrow> (\<forall>(p, n) \<in> set bs. block p n \<inter> X = {})"

lemma disjoint_from_mono: "disjoint_from Y bs \<Longrightarrow> X \<subseteq> Y \<Longrightarrow> disjoint_from X bs"
  by (fastforce simp: disjoint_from_def)

text \<open>C9:
  In any run of allocations from a consistent arena, whatever the system does at each step,
  the blocks handed out are pairwise disjoint, disjoint from everything in use before the
  run, and still in use at its end.
\<close>

theorem arena_run_disjoint:
  assumes "arena_run a bs b" and "arena_inv a" and "\<not> locked a"
  shows "sorted_wrt (\<lambda>(p, n) (q, m). block p n \<inter> block q m = {}) bs \<and>
    disjoint_from (used_bytes a) bs \<and> (\<forall>(p, n) \<in> set bs. block p n \<subseteq> used_bytes b) \<and>
    arena_inv b \<and> used_bytes a \<subseteq> used_bytes b"
  using assms
proof (induction a bs b rule: arena_run.induct)
  case (run_done a)
  then show ?case by (simp add: disjoint_from_def)
next
  case (run_null os a sz a' bs b)
  note s = arena_alloc_NullD [OF run_null.prems run_null.hyps(1,2)]
  show ?case using run_null.IH [OF s(1,2)] unfolding s(3) .
next
  case (run_block os a sz ptr a' bs b)
  note s = arena_alloc_BlockD [OF run_block.prems run_block.hyps(1,2)]
  note IH = run_block.IH [OF s(1,2)]
  have "disjoint_from (block ptr sz) bs" "disjoint_from (used_bytes a) bs"
    using IH s(4,5) by (blast intro: disjoint_from_mono)+
  moreover from this(1) have "\<forall>(q, m) \<in> set bs. block ptr sz \<inter> block q m = {}"
    by (auto simp: disjoint_from_def)
  moreover have "block ptr sz \<subseteq> used_bytes b" "used_bytes a \<subseteq> used_bytes b"
    using IH s(4,5) by blast+
  ultimately show ?case using IH s(3) by (simp add: disjoint_from_def)
qed

lemma small_os_steps:
  "arena_align_size 100 = 104" "arena_align_size 20 = 24"
  "arena_calculate_new_chunk_size 104 = Some 65536"
  "arena_chunk_create small_os 65536 =
     Some \<lparr>chunk_memory = 65536, chunk_used = 0, chunk_size = 65536, created_at = 0\<rparr>"
proof -
  show "arena_align_size 100 = 104" "arena_align_size 20 = 24"
    by (simp_all add: arena_align_size_def round_up_def)
  show "arena_calculate_new_chunk_size 104 = Some 65536"
    by (simp add: arena_calculate_new_chunk_size_def)
  have "round_up 65536 4096 = 65536" by (simp add: round_up_def)
  then show "arena_chunk_create small_os 65536 =
     Some \<lparr>chunk_memory = 65536, chunk_used = 0, chunk_size = 65536, created_at = 0\<rparr>"
    by (simp add: arena_chunk_create_def small_os_def Let_def)
qed

definition first_arena :: arena_memory where
  "first_arena = fresh_arena\<lparr>current := Some \<lparr>chunk_memory = 65536, chunk_used = 104,
     chunk_size = 65536, created_at = 0\<rparr>, total_used := 104, total_allocated := 65536, chunk_count := 1,
     mem_calls := [Mem_Map 65536 65536, Mem_Protect 65536 104]\<rparr>"

lemma first_alloc: "arena_alloc small_os (Some fresh_arena) 100 = Some (Some 65536, Some first_arena)"
proof -
  have "needs_chunk 104 (fresh_arena\<lparr>locked := True\<rparr>)"
    by (simp add: needs_chunk_def fresh_arena_def)
  then have "arena_alloc_locked small_os (fresh_arena\<lparr>locked := True\<rparr>) 104 =
      Some (Some 65536, first_arena)"
    by (simp add: arena_alloc_locked_def small_os_steps retire_current_def carve_def Let_def
        fresh_arena_def first_arena_def)
  then show ?thesis by (simp add: arena_alloc_def small_os_steps) (simp add: fresh_arena_def)
qed

lemma second_alloc: "\<exists>a. arena_alloc dry_os (Some first_arena) 20 = Some (Some 65640, Some a)"
proof -
  have "\<not> needs_chunk 24 (first_arena\<lparr>locked := True\<rparr>)"
    by (simp add: needs_chunk_def first_arena_def)
  then have "\<exists>a. arena_alloc_locked dry_os (first_arena\<lparr>locked := True\<rparr>) 24 = Some (Some 65640, a)"
    by (simp add: arena_alloc_locked_def carve_def Let_def first_arena_def)
  then show ?thesis by (auto simp: arena_alloc_def small_os_steps) (simp add: first_arena_def fresh_arena_def)
qed

lemma arena_run_disjoint_witness:
  "\<exists>p q b. arena_run fresh_arena [(p, 100), (q, 20)] b \<and> block p 100 \<inter> block q 20 = {}"
proof -
  obtain a2 where "arena_alloc dry_os (Some first_arena) 20 = Some (Some 65640, Some a2)"
    using second_alloc by blast
  then have run: "arena_run fresh_arena [(65536, 100), (65640, 20)] a2"
    using run_block [OF fresh_arena_facts(4) first_alloc run_block [OF fresh_arena_facts(5) _ run_done]]
    by blast
  with arena_run_disjoint [OF run fresh_arena_facts(2,3)]
  have "block 65536 100 \<inter> block 65640 20 = {}" by simp
  with run show ?thesis by blast
qed

section \<open>Releasing memory\<close>

lemma drop_aged_filter:
  "drop_aged t max_age cs = (filter (\<lambda>c. t - created_at c \<le> max_age) cs,
     filter (\<lambda>c. \<not> t - created_at c \<le> max_age) cs)"
  by (induction cs) (auto simp: Let_def)

lemma chunks_ok_filter: "chunks_ok cs \<Longrightarrow> chunks_ok (filter P cs)"
  by (auto simp: chunks_ok_def sorted_wrt_filter)

lemma length_split: "length cs = length (filter P cs) + length (filter (\<lambda>x. \<not> P x) cs)"
  by (induction cs) auto

text \<open>A reset keeps one chunk at most, empties it and counts the chunks correctly, so the arena
  stays consistent; but \<open>total_allocated\<close> keeps the bytes of the chunks it gave back.
\<close>

lemma arena_reset_correct:
  assumes "arena_inv a" and "\<not> locked a"
  shows "\<exists>a'. arena_reset os (Some a) = Some (Some a') \<and> arena_inv a' \<and> \<not> locked a' \<and>
    used_bytes a' = {} \<and> old_chunks a' = [] \<and> total_used a' = 0 \<and>
    chunk_count a' = (if current a = None then 0 else 1) \<and>
    total_allocated a' = total_allocated a"
proof -
  have ok: "chunks_ok (arena_chunks a)" and cnt: "chunk_count a = of_nat (length (arena_chunks a))"
    using assms by (auto simp: arena_inv_def)
  show ?thesis
  proof (cases "current a")
    case None
    with ok cnt assms(2) show ?thesis
      by (auto simp: arena_reset_def arena_inv_def arena_chunks_def chunks_ok_def used_bytes_def)
  next
    case (Some c)
    have "chunk_ok (c\<lparr>chunk_used := 0\<rparr>)"
      using ok Some by (auto simp: arena_chunks_def chunks_ok_Cons chunk_ok_def)
    moreover have "taken (c\<lparr>chunk_used := 0\<rparr>) = {}" by (simp add: taken_def)
    ultimately show ?thesis
      using Some cnt assms(2)
      by (auto simp: arena_reset_def arena_inv_def arena_chunks_def chunks_ok_def used_bytes_def)
  qed
qed

lemma arena_reset_correct_witness:
  "\<exists>a'. arena_reset small_os (Some fresh_arena) = Some (Some a') \<and> arena_inv a' \<and> chunk_count a' = 0"
  using arena_reset_correct [OF fresh_arena_facts(2,3), of small_os]
  by (auto simp: fresh_arena_def)

text \<open>The cleanup destroys exactly the old chunks older than the limit, whether or not their
  blocks are still in use, keeps the arena consistent and its chunk count exact, and never
  touches the current chunk; neither byte counter is brought down. Its last call protects a
  link of the list, which is in no mapping of the arena.
\<close>

lemma arena_cleanup_correct:
  assumes "arena_inv a" and "\<not> locked a" and "0 < max_age"
  shows "\<exists>a'. arena_cleanup_old os (Some a) max_age = Some (Some a') \<and> arena_inv a' \<and>
    current a' = current a \<and>
    old_chunks a' = filter (\<lambda>c. now os - created_at c \<le> max_age) (old_chunks a) \<and>
    used_bytes a' \<subseteq> used_bytes a \<and>
    total_used a' = total_used a \<and> total_allocated a' = total_allocated a \<and>
    last (mem_calls a') = Mem_Protect_Link (last_link (old_chunks a')) (undeclared_size os)"
proof -
  define kept where "kept = filter (\<lambda>c. now os - created_at c \<le> max_age) (old_chunks a)"
  define gone where "gone = filter (\<lambda>c. \<not> now os - created_at c \<le> max_age) (old_chunks a)"
  define k where "k = length gone"
  define a' where "a' = a\<lparr>old_chunks := kept, chunk_count := chunk_count a - of_nat k,
    mem_calls := mem_calls a @ concat (map arena_chunk_destroy gone)
      @ [Mem_Protect_Link (last_link kept) (undeclared_size os)], last_cleanup := now os\<rparr>"
  have call: "arena_cleanup_old os (Some a) max_age = Some (Some a')"
    using assms by (simp add: arena_cleanup_old_def drop_aged_filter a'_def kept_def k_def gone_def)
  have len: "length (old_chunks a) = length kept + k"
    unfolding kept_def k_def gone_def by (rule length_split)
  have fields: "current a' = current a" "old_chunks a' = kept" "total_used a' = total_used a"
    "total_allocated a' = total_allocated a" "chunk_count a' = chunk_count a - of_nat k"
    "last (mem_calls a') = Mem_Protect_Link (last_link kept) (undeclared_size os)"
    by (simp_all add: a'_def)
  define cur where "cur = (case current a of None \<Rightarrow> [] | Some c \<Rightarrow> [c])"
  have chunks: "arena_chunks a' = cur @ kept" "arena_chunks a = cur @ old_chunks a"
    by (simp_all only: arena_chunks_def fields cur_def)
  have sub: "set kept \<subseteq> set (old_chunks a)" by (simp add: kept_def)
  have "chunks_ok (cur @ old_chunks a)" using assms(1) by (simp add: arena_inv_def chunks)
  then have "chunks_ok (cur @ kept)"
    using sub unfolding chunks_ok_def sorted_wrt_append kept_def
    by (simp add: sorted_wrt_filter) blast
  moreover have "chunk_count a = of_nat (length cur + length kept) + of_nat k"
    using assms(1) len by (simp add: arena_inv_def chunks)
  then have "chunk_count a' = of_nat (length (cur @ kept))" by (simp add: fields)
  ultimately have "arena_inv a'" by (simp only: arena_inv_def chunks)
  moreover have "used_bytes a' \<subseteq> used_bytes a"
    using sub by (simp only: used_bytes_def chunks) auto
  ultimately show ?thesis
    using call fields unfolding kept_def [symmetric] by (intro exI [of _ a'] conjI) simp_all
qed

lemma arena_cleanup_correct_witness:
  "\<exists>a'. arena_cleanup_old small_os (Some fresh_arena) 300 = Some (Some a') \<and> arena_inv a' \<and>
    total_used a' = 0"
proof -
  have "(0 :: int) < 300" "total_used fresh_arena = 0" by (simp_all add: fresh_arena_def)
  with arena_cleanup_correct [OF fresh_arena_facts(2,3), of 300 small_os] show ?thesis by metis
qed

end
