(* ===== verification/Token_Correct.thy ===== *)
theory Token_Correct
  imports Token Arena_Safety
begin

text \<open>
  Correctness of the tokens on the arena: a created token reads back as its parameters, its memory
  overlaps nothing that was in use, and later creations leave it as it is.
\<close>

section \<open>Reading back what was written\<close>

lemma bit_load_le: "n \<le> 8 \<Longrightarrow> bit (load_le m a n) j \<longleftrightarrow> j < 8 * n \<and> bit (m (a + j div 8)) (j mod 8)"
proof (induction n arbitrary: a j)
  case (Suc n)
  have high: "\<not> bit (m a) j" if "\<not> j < 8" using bit_imp_le_length [of "m a" j] that by auto
  show ?case
  proof (cases "j < 8")
    case True
    then show ?thesis by (simp add: bit_or_iff bit_push_bit_iff bit_ucast_iff)
  next
    case False
    define i where "i = j - 8"
    have j: "j = 8 + i" using False by (simp add: i_def)
    have "(8 + i) div 8 = Suc (i div 8)" by simp
    then show ?thesis using high Suc.prems Suc.IH [of "Suc a" i] unfolding j
      by (auto simp: bit_or_iff bit_push_bit_iff bit_ucast_iff)
  qed
qed simp

lemma store_op_at:
  "store_op m a w x = (if a \<le> x \<and> x < a + 8 then ucast (drop_bit (8 * (x - a)) w) else m x)"
proof -
  have "fold (\<lambda>k m. m(a + k := ucast (drop_bit (8 * k) w))) [0..<n] m x
      = (if a \<le> x \<and> x < a + n then ucast (drop_bit (8 * (x - a)) w) else m x)" for n
    by (induction n) auto
  then show ?thesis by (simp add: store_op_def)
qed

lemma load_store [simp]: "load_op (store_op m a w) a = w"
proof (rule bit_word_eqI)
  fix j assume "j < LENGTH(64)"
  then have j: "j < 64" "j div 8 < 8" by simp_all
  have "bit (load_op (store_op m a w) a) j \<longleftrightarrow> bit (ucast (drop_bit (8 * (j div 8)) w) :: u8) (j mod 8)"
    using j by (simp add: load_op_def bit_load_le store_op_at)
  also have "\<dots> \<longleftrightarrow> bit w (8 * (j div 8) + j mod 8)"
    by (simp add: bit_ucast_iff bit_drop_bit_eq)
  finally show "bit (load_op (store_op m a w) a) j \<longleftrightarrow> bit w j" by simp
qed

lemma load_le_cong: "(\<And>x. a \<le> x \<Longrightarrow> x < a + n \<Longrightarrow> m' x = m x) \<Longrightarrow> load_le m' a n = load_le m a n"
  by (induction n arbitrary: a) auto

lemma load_cong: "(\<And>x. a \<le> x \<Longrightarrow> x < a + 8 \<Longrightarrow> m' x = m x) \<Longrightarrow> load_op m' a = load_op m a"
  unfolding load_op_def by (rule load_le_cong)

lemma load_store_other: "b + 8 \<le> a \<or> a + 8 \<le> b \<Longrightarrow> load_op (store_op m a w) b = load_op m b"
  by (rule load_cong) (auto simp: store_op_at)

lemma write_bytes_at:
  "write_bytes m a bs x = (if a \<le> x \<and> x < a + length bs then bs ! (x - a) else m x)"
  by (induction bs arbitrary: m a) (auto simp: nth_Cons')

lemma length_c_bytes [simp]: "length (c_bytes s) = Suc (length s)"
  by (simp add: c_bytes_def)

definition str_at :: "mem \<Rightarrow> nat \<Rightarrow> string \<Rightarrow> bool" where
  "str_at m a s = (is_cstr s \<and> (\<forall>k \<le> length s. m (a + k) = c_bytes s ! k))"

lemma str_at_write: "is_cstr s \<Longrightarrow> str_at (write_bytes m a (c_bytes s)) a s"
  by (auto simp: str_at_def write_bytes_at)

lemma str_at_cong: "(\<And>x. a \<le> x \<Longrightarrow> x < a + Suc (length s) \<Longrightarrow> m' x = m x) \<Longrightarrow> str_at m a s \<Longrightarrow> str_at m' a s"
  by (auto simp: str_at_def)

lemma char_byte: "char_of (unat (of_char c :: u8)) = c" and nonzero_byte: "(of_char c :: u8) = 0 \<longleftrightarrow> c = NUL"
proof -
  have "(of_char c :: u8) = of_nat (of_char c)" by (simp add: of_char_def)
  moreover have "(of_char c :: nat) < 256" by (rule nat_of_char_less_256)
  ultimately have u: "unat (of_char c :: u8) = of_char c" by (simp add: unat_of_nat)
  then show "char_of (unat (of_char c :: u8)) = c" by simp
  have "(of_char c :: u8) = 0 \<longleftrightarrow> unat (of_char c :: u8) = 0" by (simp add: unat_eq_0)
  also have "\<dots> \<longleftrightarrow> (of_char c :: nat) = of_char NUL" unfolding u by simp
  finally show "(of_char c :: u8) = 0 \<longleftrightarrow> c = NUL" by (simp only: of_char_eq_iff)
qed

lemma str_at_read: "str_at m a s \<Longrightarrow> c_string_at m a = Some s"
proof (induction s arbitrary: a)
  case Nil
  then have "m a = 0" by (simp add: str_at_def c_bytes_def)
  then show ?case by (subst c_string_at.simps) simp
next
  case (Cons c s)
  have all: "\<forall>k \<le> Suc (length s). m (a + k) = c_bytes (c # s) ! k" using Cons.prems by (simp add: str_at_def)
  have "m a = of_char c" using spec [OF all, of 0] by (simp add: c_bytes_def)
  moreover have "m (Suc a + k) = c_bytes s ! k" if "k \<le> length s" for k
    using spec [OF all, of "Suc k"] that by (simp add: c_bytes_def)
  ultimately have "m a = of_char c" "str_at m (Suc a) s" using Cons.prems by (simp_all add: str_at_def)
  then show ?case using Cons by (subst c_string_at.simps) (simp add: char_byte nonzero_byte str_at_def)
qed

section \<open>What a token says\<close>

record token_view =
  v_id :: string
  v_user_id :: "string option"
  v_username :: "string option"
  v_authorities :: "string list"
  v_device_hash :: "string option"
  v_issued_at :: u64
  v_expires_at :: u64
  v_client_ip :: "string option"

definition opt_at :: "mem \<Rightarrow> u64 \<Rightarrow> string option \<Rightarrow> bool" where
  "opt_at m q so = (case so of None \<Rightarrow> q = 0 | Some s \<Rightarrow> q \<noteq> 0 \<and> str_at m (unat q) s)"

definition view_fields :: "token_view \<Rightarrow> (nat \<times> string option) list" where
  "view_fields v = [(0, Some (v_id v)), (1, v_user_id v), (2, v_username v), (5, v_device_hash v), (8, v_client_ip v)]"

definition auth_ptr :: "mem \<Rightarrow> u64 \<Rightarrow> nat \<Rightarrow> u64" where
  "auth_ptr m p k = load_op m (unat (load_op m (field_at p 3)) + 8 * k)"

definition token_at :: "mem \<Rightarrow> u64 \<Rightarrow> token_view \<Rightarrow> bool" where
  "token_at m p v = (p \<noteq> 0
     \<and> (\<forall>(i, so) \<in> set (view_fields v). opt_at m (load_op m (field_at p i)) so)
     \<and> load_op m (field_at p 6) = v_issued_at v \<and> load_op m (field_at p 7) = v_expires_at v
     \<and> unat (load_op m (field_at p 4)) = length (v_authorities v)
     \<and> (load_op m (field_at p 3) = 0 \<longleftrightarrow> v_authorities v = [])
     \<and> (\<forall>k < length (v_authorities v). auth_ptr m p k \<noteq> 0
          \<and> str_at m (unat (auth_ptr m p k)) (v_authorities v ! k)))"

text \<open>The memory a token occupies.\<close>

definition str_block :: "u64 \<Rightarrow> string \<Rightarrow> nat set" where
  "str_block q s = {unat q ..< unat q + Suc (length s)}"

definition opt_block :: "u64 \<Rightarrow> string option \<Rightarrow> nat set" where
  "opt_block q so = (case so of None \<Rightarrow> {} | Some s \<Rightarrow> str_block q s)"

definition token_foot :: "mem \<Rightarrow> u64 \<Rightarrow> token_view \<Rightarrow> nat set" where
  "token_foot m p v = {unat p ..< unat p + 72}
     \<union> (\<Union>(i, so) \<in> set (view_fields v). opt_block (load_op m (field_at p i)) so)
     \<union> {unat (load_op m (field_at p 3)) ..< unat (load_op m (field_at p 3)) + 8 * length (v_authorities v)}
     \<union> (\<Union>k < length (v_authorities v). str_block (auth_ptr m p k) (v_authorities v ! k))"

lemma field_cong:
  assumes "\<And>x. x \<in> {unat p ..< unat p + 72} \<Longrightarrow> m' x = m x" and "i < 9"
  shows "load_op m' (field_at p i) = load_op m (field_at p i)"
  by (rule load_cong) (use assms in \<open>auto simp: field_at_def\<close>)

lemma token_frame:
  assumes tok: "token_at m p v" and same: "\<And>x. x \<in> token_foot m p v \<Longrightarrow> m' x = m x"
  shows "token_at m' p v \<and> token_foot m' p v = token_foot m p v"
proof -
  have fields: "load_op m' (field_at p i) = load_op m (field_at p i)" if "i < 9" for i
    using same that by (intro field_cong) (auto simp: token_foot_def)
  have vf: "load_op m' (field_at p i) = load_op m (field_at p i)" if "(i, so) \<in> set (view_fields v)" for i so
    using that by (intro fields) (auto simp: view_fields_def)
  have ptrs: "auth_ptr m' p k = auth_ptr m p k" if k: "k < length (v_authorities v)" for k
    unfolding auth_ptr_def fields [of 3, simplified]
    by (rule load_cong, rule same) (use k in \<open>auto simp: token_foot_def\<close>)
  have opts: "opt_at m' (load_op m (field_at p i)) so"
    if "(i, so) \<in> set (view_fields v)" "opt_at m (load_op m (field_at p i)) so" for i so
  proof (cases so)
    case (Some s)
    have "str_at m' (unat (load_op m (field_at p i))) s"
    proof (rule str_at_cong)
      fix x assume "unat (load_op m (field_at p i)) \<le> x" "x < unat (load_op m (field_at p i)) + Suc (length s)"
      then have "x \<in> opt_block (load_op m (field_at p i)) so" by (simp add: Some opt_block_def str_block_def)
      then show "m' x = m x" using that(1) by (intro same) (auto simp: token_foot_def)
    qed (use that(2) Some in \<open>simp add: opt_at_def\<close>)
    then show ?thesis using that(2) Some by (simp add: opt_at_def)
  qed (use that in \<open>simp add: opt_at_def\<close>)
  have strs: "str_at m' (unat (auth_ptr m p k)) (v_authorities v ! k)"
    if k: "k < length (v_authorities v)" "str_at m (unat (auth_ptr m p k)) (v_authorities v ! k)" for k
  proof (rule str_at_cong [OF _ k(2)])
    fix x assume "unat (auth_ptr m p k) \<le> x" "x < unat (auth_ptr m p k) + Suc (length (v_authorities v ! k))"
    then have "x \<in> str_block (auth_ptr m p k) (v_authorities v ! k)" by (simp add: str_block_def)
    then show "m' x = m x" using k(1) by (intro same) (auto simp: token_foot_def)
  qed
  have "token_at m' p v" using tok opts strs by (auto simp: token_at_def fields vf ptrs)
  moreover have "token_foot m' p v = token_foot m p v"
  proof -
    have "(\<Union>(i, so) \<in> set (view_fields v). opt_block (load_op m' (field_at p i)) so)
        = (\<Union>(i, so) \<in> set (view_fields v). opt_block (load_op m (field_at p i)) so)"
      using vf by (intro SUP_cong) auto
    moreover have "(\<Union>k < length (v_authorities v). str_block (auth_ptr m' p k) (v_authorities v ! k))
        = (\<Union>k < length (v_authorities v). str_block (auth_ptr m p k) (v_authorities v ! k))"
      using ptrs by (intro SUP_cong) auto
    ultimately show ?thesis by (simp only: token_foot_def fields [of 3, simplified])
  qed
  ultimately show ?thesis ..
qed

section \<open>Validation and search on a token\<close>

lemma valid_authorities_at:
  assumes "\<And>k. k < n \<Longrightarrow> load_op m (unat arr + 8 * (i + k)) \<noteq> 0
    \<and> str_at m (unat (load_op m (unat arr + 8 * (i + k)))) (as ! k)" and "length as = n"
  shows "valid_authorities m arr i n = Some (\<forall>s \<in> set as. s \<noteq> [])"
  using assms
proof (induction n arbitrary: i as)
  case (Suc n)
  obtain s as' where as: "as = s # as'" using Suc.prems(2) by (cases as) auto
  have "valid_authorities m arr (Suc i) n = Some (\<forall>s \<in> set as'. s \<noteq> [])"
    using Suc.prems(1) [of "Suc k" for k] Suc.prems(2) as by (intro Suc.IH) auto
  then show ?case using Suc.prems(1) [of 0] as by (auto simp: str_at_read Let_def)
qed simp

lemma find_authority_at:
  assumes "\<And>k. k < n \<Longrightarrow> load_op m (unat arr + 8 * (i + k)) \<noteq> 0
    \<and> str_at m (unat (load_op m (unat arr + 8 * (i + k)))) (as ! k)" and "length as = n"
  shows "find_authority m arr a i n = Some (a \<in> set as)"
  using assms
proof (induction n arbitrary: i as)
  case (Suc n)
  obtain s as' where as: "as = s # as'" using Suc.prems(2) by (cases as) auto
  have "find_authority m arr a (Suc i) n = Some (a \<in> set as')"
    using Suc.prems(1) [of "Suc k" for k] Suc.prems(2) as by (intro Suc.IH) auto
  then show ?case using Suc.prems(1) [of 0] as by (auto simp: str_at_read Let_def)
qed simp

definition view_valid :: "int \<Rightarrow> token_view \<Rightarrow> bool" where
  "view_valid t v = (v_id v \<noteq> [] \<and> 0 < sint (v_issued_at v) \<and> sint (v_issued_at v) < sint (v_expires_at v)
     \<and> t \<le> sint (v_expires_at v) \<and> (\<forall>s \<in> set (v_authorities v). s \<noteq> []))"

lemma token_queries:
  assumes "token_at m p v"
  shows "token_validate t m p = Some (view_valid t v)"
    and "token_has_authority m p (Some s) = Some (s \<in> set (v_authorities v))"
proof -
  have p: "p \<noteq> 0" and tid: "load_op m (field_at p 0) \<noteq> 0" "c_string_at m (unat (load_op m (field_at p 0))) = Some (v_id v)"
    and times: "load_op m (field_at p 6) = v_issued_at v" "load_op m (field_at p 7) = v_expires_at v"
    and n: "unat (load_op m (field_at p 4)) = length (v_authorities v)"
    and arr: "load_op m (field_at p 3) = 0 \<longleftrightarrow> v_authorities v = []"
    and ptrs: "\<And>k. k < length (v_authorities v) \<Longrightarrow> load_op m (unat (load_op m (field_at p 3)) + 8 * (0 + k)) \<noteq> 0
      \<and> str_at m (unat (load_op m (unat (load_op m (field_at p 3)) + 8 * (0 + k)))) (v_authorities v ! k)"
    using assms by (auto simp: token_at_def view_fields_def opt_at_def str_at_read auth_ptr_def)
  have zero: "load_op m (field_at p 4) = 0 \<longleftrightarrow> v_authorities v = []" using n by (simp add: unat_eq_0 [symmetric])
  have "valid_authorities m (load_op m (field_at p 3)) 0 (length (v_authorities v))
      = Some (\<forall>s \<in> set (v_authorities v). s \<noteq> [])"
    using ptrs by (intro valid_authorities_at) auto
  then show "token_validate t m p = Some (view_valid t v)"
    using p tid zero arr n by (auto simp: token_validate_def times view_valid_def)
  have "find_authority m (load_op m (field_at p 3)) s 0 (length (v_authorities v)) = Some (s \<in> set (v_authorities v))"
    using ptrs by (intro find_authority_at) auto
  then show "token_has_authority m p (Some s) = Some (s \<in> set (v_authorities v))"
    using p n by (simp add: token_has_authority_def)
qed

end
