(* ===== verification/Token_Create.thy ===== *)
theory Token_Create
  imports Token_Correct
begin

text \<open>
  Creating tokens: every call returns, keeps the arena consistent and the memory that was in use as it
  was, and a token it delivers reads back as its parameters.
\<close>

section \<open>Blocks owned while a token is built\<close>

definition arena_system_ok :: "arena_system \<Rightarrow> bool" where
  "arena_system_ok sys = (\<forall>a. arena_inv a \<longrightarrow> mmap_ok (sys a) a)"

text \<open>
  The blocks \<open>Bs\<close> are held, apart from \<open>U\<close>, which was in use before and holds what it held in \<open>m0\<close>.
\<close>

definition owns :: "nat set \<Rightarrow> mem \<Rightarrow> nat set list \<Rightarrow> world \<Rightarrow> bool" where
  "owns U m0 Bs w = (arena_blocks.holds U Bs (fst w) \<and> (\<forall>x \<in> U. snd w x = m0 x))"

definition keeps :: "nat set list \<Rightarrow> mem \<Rightarrow> mem \<Rightarrow> bool" where
  "keeps Bs m m' = (\<forall>B \<in> set Bs. \<forall>x \<in> B. m' x = m x)"

lemma keeps_simps [simp]:
  "keeps [] m m'" "keeps Bs m m"
  "keeps (B # Bs) m m' \<longleftrightarrow> (\<forall>x \<in> B. m' x = m x) \<and> keeps Bs m m'"
  "keeps (Bs @ Cs) m m' \<longleftrightarrow> keeps Bs m m' \<and> keeps Cs m m'"
  by (auto simp: keeps_def)

lemma keeps_trans: "keeps Bs m m1 \<Longrightarrow> keeps Bs m1 m2 \<Longrightarrow> keeps Bs m m2"
  by (simp add: keeps_def)

lemma owns_facts:
  "owns U m0 Bs w \<Longrightarrow> arena_inv (fst w) \<and> \<not> locked (fst w) \<and> U \<subseteq> used_bytes (fst w) \<and> (\<forall>x \<in> U. snd w x = m0 x)"
  by (simp add: owns_def arena_blocks.holds_def arena_ready_def)

lemma owns_start: "arena_inv a \<Longrightarrow> \<not> locked a \<Longrightarrow> owns (used_bytes a) m [] (a, m)"
  by (simp add: owns_def arena_blocks.holds_start arena_ready_def)

lemma owns_front: "owns U m0 (Bs @ Cs) w \<Longrightarrow> owns U m0 Bs w"
  by (auto simp: owns_def intro: arena_blocks.holds_front)

lemma owns_none: "owns U m0 Bs w \<Longrightarrow> owns U m0 [] w"
  using owns_front [of U m0 "[]" Bs w] by simp

lemma owns_swap: "owns U m0 (B # Bs @ [C]) w \<Longrightarrow> owns U m0 (B # C # Bs) w"
  by (auto simp: owns_def arena_blocks.holds_def sorted_wrt_append)

lemma owns_drop: "owns U m0 (B # C # Bs) w \<Longrightarrow> owns U m0 (B # Bs) w"
  by (simp add: owns_def arena_blocks.holds_def)

lemma owns_block: "owns U m0 Bs w \<Longrightarrow> B \<in> set Bs \<Longrightarrow> B \<subseteq> used_bytes (fst w) - U"
  unfolding owns_def by (blast dest: arena_blocks.holds_block)

lemma owns_later: "owns U m0 (B # Bs) w \<Longrightarrow> C \<in> set Bs \<Longrightarrow> C \<subseteq> used_bytes (fst w) - U - B"
  unfolding owns_def by (blast dest: arena_blocks.holds_later)

lemma owns_write:
  assumes own: "owns U m0 (Xs @ B # Ys) (a, m)" and same: "\<And>x. x \<notin> B \<Longrightarrow> m' x = m x"
  shows "owns U m0 (Xs @ B # Ys) (a, m')" and "keeps (Xs @ Ys) m m'"
proof -
  have held: "arena_blocks.holds U (Xs @ B # Ys) a" using own by (simp add: owns_def)
  have "m' x = m x" if "x \<in> U" for x using owns_block [OF own, of B] that by (intro same) auto
  then show "owns U m0 (Xs @ B # Ys) (a, m')" using own by (simp add: owns_def)
  show "keeps (Xs @ Ys) m m'"
    using arena_blocks.holds_others [OF held] same unfolding keeps_def by blast
qed

lemma token_alloc_ok:
  assumes sys: "arena_system_ok sys" and own: "owns U m0 Bs (a, m)"
  shows "\<exists>q a'. token_alloc sys sz (a, m) = Some (q, (a', m)) \<and> owns U m0 Bs (a', m)
    \<and> (q \<noteq> 0 \<longrightarrow> owns U m0 (Bs @ [block q sz]) (a', m))"
proof -
  have held: "arena_blocks.holds U Bs a" and ready: "arena_ready a" and os: "mmap_ok (sys a) a"
    using own sys owns_facts [OF own] by (simp_all add: owns_def arena_system_ok_def arena_ready_def)
  obtain r a' where give: "arena_give (sys a) a sz = Some (r, a')" and held': "arena_blocks.holds U Bs a'"
    and more: "\<forall>p. r = Some p \<longrightarrow> arena_blocks.holds U (Bs @ [block p sz]) a'"
    using arena_blocks.alloc_holds [OF held os] by blast
  have "arena_alloc (sys a) (Some a) sz = Some (r, Some a')"
    using arena_give_outcome [OF ready os, of sz] give by auto
  then have "token_alloc sys sz (a, m) = Some (case r of None \<Rightarrow> 0 | Some q \<Rightarrow> q, (a', m))"
    by (simp add: token_alloc_def)
  moreover have "owns U m0 Bs (a', m)" using own held' by (simp add: owns_def)
  moreover have "owns U m0 (Bs @ [block q sz]) (a', m)" if "r = Some q" for q
    using own more that by (simp add: owns_def)
  ultimately show ?thesis by (cases r) auto
qed

lemma unat_of_nat_eq: "n < 2 ^ 64 \<Longrightarrow> unat (of_nat n :: u64) = n"
  by (simp add: unat_of_nat take_bit_nat_eq_self)

lemma token_alloc_str:
  assumes "arena_system_ok sys" and "owns U m0 Bs (a, m)" and "Suc (length s) < 2 ^ 64"
  shows "\<exists>q a'. token_alloc sys (str_size s) (a, m) = Some (q, (a', m)) \<and> owns U m0 Bs (a', m)
    \<and> (q \<noteq> 0 \<longrightarrow> owns U m0 (Bs @ [str_block q s]) (a', m))"
proof -
  have "unat (str_size s) = Suc (length s)"
  proof -
    have "str_size s = of_nat (Suc (length s))" by (simp add: str_size_def)
    then show ?thesis using unat_of_nat_eq [OF assms(3)] by (simp only:)
  qed
  then have "block q (str_size s) = str_block q s" for q by (simp add: block_def str_block_def)
  then show ?thesis using token_alloc_ok [OF assms(1,2), of "str_size s"] by simp
qed

definition string_ok :: "string \<Rightarrow> bool" where
  "string_ok s = (is_cstr s \<and> Suc (length s) < 2 ^ 64)"

lemma copy_string:
  assumes "q \<noteq> 0" and "string_ok s"
  shows "str_at (snd (safe_strcpy m q (Some s) (str_size s))) (unat q) s"
    and "x \<notin> str_block q s \<Longrightarrow> snd (safe_strcpy m q (Some s) (str_size s)) x = m x"
proof -
  have u: "unat (of_nat (length s) :: u64) = length s" "unat (str_size s) = Suc (length s)"
  proof -
    have l: "Suc (length s) < 2 ^ 64" using assms(2) by (simp add: string_ok_def)
    show "unat (of_nat (length s) :: u64) = length s" by (rule unat_of_nat_eq) (use l in simp)
    have "unat (of_nat (Suc (length s)) :: u64) = Suc (length s)" by (rule unat_of_nat_eq) (rule l)
    then show "unat (str_size s) = Suc (length s)" by (simp add: str_size_def add.commute)
  qed
  have "str_size s \<noteq> 0" using u(2) by (metis nat.distinct(1) unat_0)
  moreover have "\<not> of_nat (length s) \<ge> str_size s" by (simp add: word_le_nat_alt u)
  ultimately have copy: "snd (safe_strcpy m q (Some s) (str_size s)) = write_bytes m (unat q) (c_bytes s)"
    using assms(1) by (simp add: safe_strcpy_def)
  show "str_at (snd (safe_strcpy m q (Some s) (str_size s))) (unat q) s"
    unfolding copy using assms(2) by (intro str_at_write) (simp add: string_ok_def)
  show "snd (safe_strcpy m q (Some s) (str_size s)) x = m x" if "x \<notin> str_block q s"
    using that unfolding copy by (auto simp: write_bytes_at str_block_def)
qed

abbreviation tok_block :: "u64 \<Rightarrow> nat set" where
  "tok_block p \<equiv> {unat p ..< unat p + 72}"

lemma store_field:
  assumes "i < 9"
  shows "x \<notin> tok_block p \<Longrightarrow> store_op m (field_at p i) w x = m x"
    and "load_op (store_op m (field_at p i) w) (field_at p j) = (if i = j then w else load_op m (field_at p j))"
proof -
  show "store_op m (field_at p i) w x = m x" if "x \<notin> tok_block p"
    using that assms by (auto simp: store_op_at field_at_def)
  show "load_op (store_op m (field_at p i) w) (field_at p j) = (if i = j then w else load_op m (field_at p j))"
    by (auto intro: load_store_other simp: field_at_def)
qed

section \<open>Allocating and copying the strings\<close>

definition field_blocks :: "mem \<Rightarrow> u64 \<Rightarrow> (nat \<times> string option) list \<Rightarrow> nat set list" where
  "field_blocks m p fs = concat (map (\<lambda>(i, so). case so of None \<Rightarrow> []
     | Some s \<Rightarrow> [str_block (load_op m (field_at p i)) s]) fs)"

lemma field_blocks_simps [simp]:
  "field_blocks m p [] = []"
  "field_blocks m p ((i, None) # fs) = field_blocks m p fs"
  "field_blocks m p ((i, Some s) # fs) = str_block (load_op m (field_at p i)) s # field_blocks m p fs"
  by (simp_all add: field_blocks_def)

lemma field_blocks_cong:
  assumes "\<And>i so. (i, so) \<in> set fs \<Longrightarrow> load_op m' (field_at p i) = load_op m (field_at p i)"
  shows "field_blocks m' p fs = field_blocks m p fs"
  unfolding field_blocks_def using assms by (intro arg_cong [of _ _ concat] map_cong) (auto split: option.split)

definition fields_ok :: "(nat \<times> string option) list \<Rightarrow> bool" where
  "fields_ok fs = (distinct (map fst fs) \<and> (\<forall>(i, so) \<in> set fs. i < 9 \<and> (\<forall>s. so = Some s \<longrightarrow> string_ok s)))"

definition fields_kept :: "mem \<Rightarrow> mem \<Rightarrow> u64 \<Rightarrow> (nat \<times> string option) list \<Rightarrow> bool" where
  "fields_kept m m' p fs = (\<forall>j. j \<notin> fst ` set fs \<longrightarrow> load_op m' (field_at p j) = load_op m (field_at p j))"

definition fields_set :: "mem \<Rightarrow> mem \<Rightarrow> u64 \<Rightarrow> (nat \<times> string option) list \<Rightarrow> bool" where
  "fields_set m m' p fs = (\<forall>i so. (i, so) \<in> set fs \<longrightarrow>
     (if so = None then load_op m' (field_at p i) = load_op m (field_at p i) else load_op m' (field_at p i) \<noteq> 0))"

definition fields_allocated ::
    "nat set \<Rightarrow> mem \<Rightarrow> u64 \<Rightarrow> nat set list \<Rightarrow> (nat \<times> string option) list \<Rightarrow> mem \<Rightarrow> bool \<Rightarrow> world \<Rightarrow> bool" where
  "fields_allocated U m0 p Bs fs m ok w = (owns U m0 [] w \<and> fields_kept m (snd w) p fs
     \<and> (ok \<longrightarrow> owns U m0 (tok_block p # Bs @ field_blocks (snd w) p fs) w \<and> fields_set m (snd w) p fs))"

lemma fields_allocated_None:
  "fields_allocated U m0 p Bs fs m ok w \<Longrightarrow> i \<notin> fst ` set fs \<Longrightarrow> fields_allocated U m0 p Bs ((i, None) # fs) m ok w"
  by (auto simp: fields_allocated_def fields_kept_def fields_set_def)

lemma fields_allocated_Some:
  assumes fin: "fields_allocated U m0 p (Bs @ [str_block q s]) fs m1 ok w" and i: "i \<notin> fst ` set fs" and q: "q \<noteq> 0"
    and ld: "\<And>j. load_op m1 (field_at p j) = (if i = j then q else load_op m (field_at p j))"
  shows "fields_allocated U m0 p Bs ((i, Some s) # fs) m ok w"
proof -
  have kept: "fields_kept m1 (snd w) p fs" and none: "owns U m0 [] w"
    and ok: "ok \<Longrightarrow> owns U m0 (tok_block p # (Bs @ [str_block q s]) @ field_blocks (snd w) p fs) w"
      "ok \<Longrightarrow> fields_set m1 (snd w) p fs"
    using fin unfolding fields_allocated_def by blast+
  have head: "load_op (snd w) (field_at p i) = q" using kept i ld [of i] by (simp add: fields_kept_def)
  have "fields_kept m (snd w) p ((i, Some s) # fs)" using kept ld by (simp add: fields_kept_def)
  moreover have "fields_set m (snd w) p ((i, Some s) # fs)" if ok
    unfolding fields_set_def
  proof (intro allI impI)
    fix j so assume j: "(j, so) \<in> set ((i, Some s) # fs)"
    show "if so = None then load_op (snd w) (field_at p j) = load_op m (field_at p j)
      else load_op (snd w) (field_at p j) \<noteq> 0"
    proof (cases "(j, so) \<in> set fs")
      case True
      then have "i \<noteq> j" using i by force
      then show ?thesis using ok(2) [OF that] True ld [of j] unfolding fields_set_def by metis
    next
      case False
      then show ?thesis using j head q by simp
    qed
  qed
  moreover have "owns U m0 (tok_block p # Bs @ field_blocks (snd w) p ((i, Some s) # fs)) w" if ok
    using ok(1) [OF that] head by simp
  ultimately show ?thesis using none unfolding fields_allocated_def by blast
qed

lemma alloc_fields_ok:
  assumes sys: "arena_system_ok sys" and "owns U m0 (tok_block p # Bs) (a, m)" and "fields_ok fs"
  shows "\<exists>ok w. alloc_fields sys p fs (a, m) = Some (ok, w) \<and> fields_allocated U m0 p Bs fs m ok w"
  using assms(2,3)
proof (induction fs arbitrary: a m Bs)
  case Nil
  then have "fields_allocated U m0 p Bs [] m True (a, m)"
    by (simp add: fields_allocated_def fields_kept_def fields_set_def owns_none)
  then show ?case by auto
next
  case (Cons e fs)
  obtain i so where e: "e = (i, so)" by fastforce
  have fs: "fields_ok fs" and i: "i < 9" "i \<notin> fst ` set fs" using Cons.prems(2) by (auto simp: e fields_ok_def)
  show ?case
  proof (cases so)
    case None
    then show ?thesis using Cons.IH [OF Cons.prems(1) fs] i(2) by (auto simp: e intro: fields_allocated_None)
  next
    case (Some s)
    have s: "string_ok s" using Cons.prems(2) by (simp add: e Some fields_ok_def)
    then obtain q a1 where alloc: "token_alloc sys (str_size s) (a, m) = Some (q, (a1, m))"
      and own1: "owns U m0 (tok_block p # Bs) (a1, m)"
      and own2: "q \<noteq> 0 \<longrightarrow> owns U m0 ((tok_block p # Bs) @ [str_block q s]) (a1, m)"
      using token_alloc_str [OF sys Cons.prems(1), of s] unfolding string_ok_def by blast
    define m1 where "m1 = store_op m (field_at p i) q"
    have out: "\<And>x. x \<notin> tok_block p \<Longrightarrow> m1 x = m x" unfolding m1_def by (rule store_field(1) [OF i(1)])
    have ld: "load_op m1 (field_at p j) = (if i = j then q else load_op m (field_at p j))" for j
      unfolding m1_def by (rule store_field(2) [OF i(1)])
    show ?thesis
    proof (cases "q = 0")
      case True
      have "owns U m0 (tok_block p # Bs) (a1, m1)" using owns_write(1) [of U m0 "[]" "tok_block p" Bs a1 m m1] own1 out
        by simp
      then have "fields_allocated U m0 p Bs (e # fs) m False (a1, m1)"
        using ld by (simp add: fields_allocated_def fields_kept_def e owns_none)
      then have "fields_allocated U m0 p Bs (e # fs) m False (a1, store_op m (field_at p i) 0)"
        by (simp add: m1_def True)
      then show ?thesis using alloc True by (intro exI conjI) (simp_all add: e Some)
    next
      case False
      have "owns U m0 (tok_block p # (Bs @ [str_block q s])) (a1, m1)"
        using owns_write(1) [of U m0 "[]" "tok_block p" "Bs @ [str_block q s]" a1 m m1] own2 out False by simp
      from Cons.IH [OF this fs] obtain ok w where
        call: "alloc_fields sys p fs (a1, m1) = Some (ok, w)"
        and fin: "fields_allocated U m0 p (Bs @ [str_block q s]) fs m1 ok w"
        by blast
      have "fields_allocated U m0 p Bs (e # fs) m ok w"
        unfolding e Some using fin i(2) False ld by (rule fields_allocated_Some)
      then show ?thesis using alloc call False by (simp add: e Some m1_def)
    qed
  qed
qed

lemma copy_fields_ok:
  assumes "owns U m0 (tok_block p # Bs @ field_blocks m p fs) (a, m)" and "fields_ok fs"
    and "\<forall>(i, so) \<in> set fs. so \<noteq> None \<longrightarrow> load_op m (field_at p i) \<noteq> 0"
  shows "owns U m0 (tok_block p # Bs @ field_blocks m p fs) (a, copy_fields p fs m)
    \<and> keeps (tok_block p # Bs) m (copy_fields p fs m)
    \<and> (\<forall>i s. (i, Some s) \<in> set fs \<longrightarrow> str_at (copy_fields p fs m) (unat (load_op m (field_at p i))) s)"
  using assms
proof (induction fs arbitrary: m Bs)
  case Nil
  then show ?case by simp
next
  case (Cons e fs)
  obtain i so where e: "e = (i, so)" by fastforce
  have fs: "fields_ok fs" using Cons.prems(2) by (auto simp: fields_ok_def)
  show ?case
  proof (cases so)
    case None
    then show ?thesis using Cons.IH [of Bs m] Cons.prems fs by (auto simp: e)
  next
    case (Some s)
    have s: "string_ok s" using Cons.prems(2) by (simp add: e Some fields_ok_def)
    define q where "q = load_op m (field_at p i)"
    define m1 where "m1 = snd (safe_strcpy m q (Some s) (str_size s))"
    have q: "q \<noteq> 0" using Cons.prems(3) by (simp add: e Some q_def)
    have own: "owns U m0 ((tok_block p # Bs) @ str_block q s # field_blocks m p fs) (a, m)"
      using Cons.prems(1) by (simp add: e Some q_def)
    have out: "\<And>x. x \<notin> str_block q s \<Longrightarrow> m1 x = m x" unfolding m1_def by (rule copy_string(2) [OF q s])
    note own1 = owns_write(1) [OF own out] and keep1 = owns_write(2) [OF own out]
    have flds: "load_op m1 (field_at p j) = load_op m (field_at p j)" if "j < 9" for j
      using keep1 that by (intro field_cong) auto
    have blocks: "field_blocks m1 p fs = field_blocks m p fs"
      by (rule field_blocks_cong, rule flds) (use fs in \<open>auto simp: fields_ok_def\<close>)
    have "owns U m0 (tok_block p # (Bs @ [str_block q s]) @ field_blocks m1 p fs) (a, m1)"
      using own1 by (simp add: blocks)
    moreover have "\<forall>(i, so) \<in> set fs. so \<noteq> None \<longrightarrow> load_op m1 (field_at p i) \<noteq> 0"
    proof (intro ballI, clarify)
      fix j t assume j: "(j, Some t) \<in> set fs"
      then have "j < 9" using fs by (auto simp: fields_ok_def)
      moreover assume "load_op m1 (field_at p j) = 0"
      ultimately show False using flds [of j] Cons.prems(3) j by fastforce
    qed
    ultimately have IH: "owns U m0 (tok_block p # (Bs @ [str_block q s]) @ field_blocks m1 p fs) (a, copy_fields p fs m1)"
      "keeps (tok_block p # Bs @ [str_block q s]) m1 (copy_fields p fs m1)"
      "\<forall>i s. (i, Some s) \<in> set fs \<longrightarrow> str_at (copy_fields p fs m1) (unat (load_op m1 (field_at p i))) s"
      using Cons.IH [of "Bs @ [str_block q s]" m1] fs by simp_all
    have copy: "copy_fields p (e # fs) m = copy_fields p fs m1" by (simp add: e Some m1_def q_def)
    have "str_at (copy_fields p fs m1) (unat q) s"
    proof (rule str_at_cong)
      show "str_at m1 (unat q) s" unfolding m1_def by (rule copy_string(1) [OF q s])
    qed (use IH(2) in \<open>auto simp: str_block_def\<close>)
    moreover have "str_at (copy_fields p fs m1) (unat (load_op m (field_at p j))) t" if j: "(j, Some t) \<in> set fs" for j t
    proof -
      have "j < 9" using fs j by (auto simp: fields_ok_def)
      then show ?thesis using IH(3) j flds [of j] by metis
    qed
    moreover have "keeps (tok_block p # Bs) m (copy_fields p fs m1)"
      using IH(2) keep1 by (auto intro: keeps_trans [of _ _ m1])
    ultimately show ?thesis using IH(1) unfolding copy by (auto simp: e Some q_def blocks)
  qed
qed

section \<open>Allocating the authorities\<close>

definition auths_at :: "mem \<Rightarrow> u64 \<Rightarrow> nat \<Rightarrow> string list \<Rightarrow> nat set \<Rightarrow> bool" where
  "auths_at m p i ss V = (\<forall>k < length ss. auth_ptr m p (i + k) \<noteq> 0
     \<and> str_at m (unat (auth_ptr m p (i + k))) (ss ! k) \<and> str_block (auth_ptr m p (i + k)) (ss ! k) \<subseteq> V)"

lemma auths_at_Cons:
  "auths_at m p i (s # ss) V \<longleftrightarrow> auth_ptr m p i \<noteq> 0 \<and> str_at m (unat (auth_ptr m p i)) s
     \<and> str_block (auth_ptr m p i) s \<subseteq> V \<and> auths_at m p (Suc i) ss V"
  by (simp add: auths_at_def All_less_Suc2)

definition auths_allocated ::
    "nat set \<Rightarrow> mem \<Rightarrow> u64 \<Rightarrow> nat set \<Rightarrow> nat set list \<Rightarrow> nat \<Rightarrow> string list \<Rightarrow> mem \<Rightarrow> bool \<Rightarrow> world \<Rightarrow> bool" where
  "auths_allocated U m0 p A Bs i ss m ok w = (owns U m0 [] w \<and> keeps (tok_block p # Bs) m (snd w)
     \<and> (\<forall>j < i. auth_ptr (snd w) p j = auth_ptr m p j)
     \<and> (ok \<longrightarrow> owns U m0 (tok_block p # A # Bs) w \<and> auths_at (snd w) p i ss (used_bytes (fst w) - U - tok_block p)))"

lemma alloc_authorities_ok:
  assumes sys: "arena_system_ok sys"
    and A: "A = {unat arr ..< unat arr + 8 * N}"
    and "owns U m0 (tok_block p # A # Bs) (a, m)" and "load_op m (field_at p 3) = arr"
    and "i + length ss \<le> N" and "\<forall>s \<in> set ss. string_ok s"
  shows "\<exists>ok w. alloc_authorities sys p i (length ss) (map Some ss @ rest) (a, m) = Some (ok, w)
    \<and> auths_allocated U m0 p A Bs i ss m ok w"
  using assms(3-6)
proof (induction ss arbitrary: a m Bs i)
  case Nil
  then have "auths_allocated U m0 p A Bs i [] m True (a, m)"
    by (simp add: auths_allocated_def auths_at_def owns_none)
  then show ?case by auto
next
  case (Cons s ss)
  have s: "string_ok s" using Cons.prems(4) by simp
  then obtain q a1 where alloc: "token_alloc sys (str_size s) (a, m) = Some (q, (a1, m))"
    and own1: "owns U m0 (tok_block p # A # Bs) (a1, m)"
    and own2: "q \<noteq> 0 \<longrightarrow> owns U m0 ((tok_block p # A # Bs) @ [str_block q s]) (a1, m)"
    using token_alloc_str [OF sys Cons.prems(1), of s] unfolding string_ok_def by blast
  define m1 where "m1 = store_op m (unat arr + 8 * i) q"
  have i: "i < N" using Cons.prems(3) by simp
  have out1: "m1 x = m x" if "x \<notin> A" for x using that i by (auto simp: m1_def store_op_at A)
  have cell: "load_op m1 (unat arr + 8 * j) = (if j = i then q else load_op m (unat arr + 8 * j))" for j
    unfolding m1_def by (auto intro: load_store_other)
  have own1': "owns U m0 (tok_block p # A # Bs) (a1, m1)" and keep1: "keeps (tok_block p # Bs) m m1"
    using owns_write [of U m0 "[tok_block p]" A Bs a1 m m1] own1 out1 by simp_all
  have arr1: "load_op m1 (field_at p 3) = arr"
    using keep1 Cons.prems(2) field_cong [of p m1 m 3] by simp
  have ptr1: "auth_ptr m1 p j = (if j = i then q else auth_ptr m p j)" for j
    using cell [of j] by (simp add: auth_ptr_def arr1 Cons.prems(2))
  show ?case
  proof (cases "q = 0")
    case True
    have "auths_allocated U m0 p A Bs i (s # ss) m False (a1, m1)"
      using own1' keep1 ptr1 by (auto simp: auths_allocated_def owns_none)
    then have "auths_allocated U m0 p A Bs i (s # ss) m False (a1, store_op m (unat arr + 8 * i) 0)"
      by (simp add: m1_def True)
    then show ?thesis using alloc True Cons.prems(2) by (intro exI conjI) simp_all
  next
    case False
    define m2 where "m2 = snd (safe_strcpy m1 q (Some s) (str_size s))"
    have out2: "\<And>x. x \<notin> str_block q s \<Longrightarrow> m2 x = m1 x" unfolding m2_def by (rule copy_string(2) [OF False s])
    have "owns U m0 ([tok_block p] @ A # (Bs @ [str_block q s])) (a1, m)" using own2 False by simp
    from owns_write(1) [OF this out1] have "owns U m0 ((tok_block p # A # Bs) @ str_block q s # []) (a1, m1)" by simp
    note own3 = owns_write(1) [OF this out2] and keep2 = owns_write(2) [OF this out2]
    have own3': "owns U m0 (tok_block p # A # (Bs @ [str_block q s])) (a1, m2)" using own3 by simp
    have arr2: "load_op m2 (field_at p 3) = arr" using keep2 arr1 field_cong [of p m2 m1 3] by simp
    have ptr2: "auth_ptr m2 p j = auth_ptr m1 p j" if "j < N" for j
      unfolding auth_ptr_def arr1 arr2 by (rule load_cong) (use keep2 that in \<open>auto simp: A\<close>)
    obtain ok w where call: "alloc_authorities sys p (Suc i) (length ss) (map Some ss @ rest) (a1, m2) = Some (ok, w)"
      and fin: "auths_allocated U m0 p A (Bs @ [str_block q s]) (Suc i) ss m2 ok w"
      using Cons.IH [OF own3' arr2, of "Suc i"] Cons.prems(3,4) by auto
    have own_fin: "ok \<Longrightarrow> owns U m0 (tok_block p # A # Bs @ [str_block q s]) w"
      and rest_fin: "ok \<Longrightarrow> auths_at (snd w) p (Suc i) ss (used_bytes (fst w) - U - tok_block p)"
      and none: "owns U m0 [] w" and keep3: "keeps (tok_block p # Bs @ [str_block q s]) m2 (snd w)"
      and ptr3: "\<And>j. j < Suc i \<Longrightarrow> auth_ptr (snd w) p j = auth_ptr m2 p j"
      using fin unfolding auths_allocated_def by auto
    have ptr_i: "auth_ptr (snd w) p i = q" using ptr3 [of i] ptr2 [of i] ptr1 [of i] i by simp
    have "str_at (snd w) (unat q) s"
    proof (rule str_at_cong)
      show "str_at m2 (unat q) s" unfolding m2_def by (rule copy_string(1) [OF False s])
    qed (use keep3 in \<open>auto simp: str_block_def\<close>)
    then have "auths_at (snd w) p i (s # ss) (used_bytes (fst w) - U - tok_block p)" if ok
      using rest_fin [OF that] owns_later [OF own_fin [OF that], of "str_block q s"] False
      by (simp add: auths_at_Cons ptr_i)
    moreover have "owns U m0 (tok_block p # A # Bs) w" if ok
      using own_fin [OF that] owns_front [of U m0 "tok_block p # A # Bs" "[str_block q s]" w] by simp
    moreover have "keeps (tok_block p # Bs) m (snd w)"
      using keep1 keep2 keep3 by (auto intro: keeps_trans [of _ _ m1] keeps_trans [of _ _ m2])
    moreover have "auth_ptr (snd w) p j = auth_ptr m p j" if "j < i" for j
      using that ptr3 [of j] ptr2 [of j] ptr1 [of j] i by simp
    ultimately have "auths_allocated U m0 p A Bs i (s # ss) m ok w"
      using none unfolding auths_allocated_def by blast
    then show ?thesis using alloc call False Cons.prems(2) by (simp add: m1_def m2_def Let_def)
  qed
qed


section \<open>Creating a token\<close>

definition auth_list :: "token_args \<Rightarrow> string list" where
  "auth_list r = (case arg_authorities r of
     None \<Rightarrow> [] | Some as \<Rightarrow> map the (take (unat (arg_auth_count r)) as))"

definition view_of :: "token_args \<Rightarrow> token_view" where
  "view_of r = \<lparr>v_id = the (arg_id r), v_user_id = arg_user_id r, v_username = arg_username r,
     v_authorities = auth_list r, v_device_hash = arg_device_hash r, v_issued_at = arg_issued_at r,
     v_expires_at = arg_expires_at r, v_client_ip = arg_client_ip r\<rparr>"

text \<open>The arguments are C strings that fit the address space, one for every authority counted.\<close>

definition args_ok :: "token_args \<Rightarrow> bool" where
  "args_ok r = (fields_ok (string_fields r)
     \<and> (\<forall>as. arg_authorities r = Some as \<longrightarrow> unat (arg_auth_count r) \<le> length as
          \<and> (\<forall>s. Some s \<in> set as \<longrightarrow> string_ok s)))"

lemma check_authorities_eq:
  "n \<le> length as \<Longrightarrow>
    check_authorities n as = Some (\<forall>k < n. \<exists>s. as ! k = Some s \<and> s \<noteq> [] \<and> length s \<le> 128)"
proof (induction n as rule: check_authorities.induct)
  case (3 n a as)
  then show ?case by (cases a) (auto simp: All_less_Suc2)
qed auto

text \<open>What the checks let through.\<close>

definition args_valid :: "int \<Rightarrow> token_args \<Rightarrow> bool" where
  "args_valid t r = ((\<exists>s. arg_id r = Some s \<and> s \<noteq> [] \<and> length s \<le> 256)
     \<and> (\<forall>s. arg_user_id r = Some s \<longrightarrow> length s \<le> 256) \<and> (\<forall>s. arg_username r = Some s \<longrightarrow> length s \<le> 256)
     \<and> 0 < sint (arg_issued_at r) \<and> sint (arg_issued_at r) < sint (arg_expires_at r)
     \<and> (arg_check_expiration r \<longrightarrow> t \<le> sint (arg_expires_at r))
     \<and> unat (arg_auth_count r) \<le> 100 \<and> (0 < arg_auth_count r \<longrightarrow> arg_authorities r \<noteq> None)
     \<and> (\<forall>k < unat (arg_auth_count r). \<exists>s. the (arg_authorities r) ! k = Some s \<and> s \<noteq> [] \<and> length s \<le> 128))"

lemma args_checked:
  assumes "args_ok r"
  shows "token_args_checked t r = Some (args_valid t r)"
proof -
  define n where "n = unat (arg_auth_count r)"
  have n: "arg_auth_count r > 100 \<longleftrightarrow> \<not> n \<le> 100" "arg_auth_count r > 0 \<longleftrightarrow> 0 < n"
    by (auto simp: n_def word_less_nat_alt)
  have params: "validate_token_params (arg_id r) (arg_user_id r) (arg_username r)
      \<longleftrightarrow> (\<exists>s. arg_id r = Some s \<and> s \<noteq> [] \<and> length s \<le> 256)
        \<and> (\<forall>s. arg_user_id r = Some s \<longrightarrow> length s \<le> 256) \<and> (\<forall>s. arg_username r = Some s \<longrightarrow> length s \<le> 256)"
    by (auto simp: validate_token_params_def not_less split: option.split)
  have times: "validate_timestamps t (arg_issued_at r) (arg_expires_at r) (arg_check_expiration r)
      \<longleftrightarrow> 0 < sint (arg_issued_at r) \<and> sint (arg_issued_at r) < sint (arg_expires_at r)
        \<and> (arg_check_expiration r \<longrightarrow> t \<le> sint (arg_expires_at r))"
    by (auto simp: validate_timestamps_def)
  show ?thesis
  proof (cases "arg_authorities r")
    case None
    then show ?thesis by (auto simp: token_args_checked_def params times args_valid_def n n_def [symmetric])
  next
    case (Some as)
    have "n \<le> length as" using assms Some by (simp add: args_ok_def n_def)
    from check_authorities_eq [OF this] show ?thesis
      using Some by (auto simp: token_args_checked_def params times args_valid_def n n_def [symmetric])
  qed
qed

lemma auth_list_length:
  assumes "args_ok r" and "args_valid t r"
  shows "length (auth_list r) = unat (arg_auth_count r)"
proof (cases "arg_authorities r")
  case None
  then have "\<not> 0 < arg_auth_count r" using assms(2) by (auto simp: args_valid_def)
  then show ?thesis using None by (simp add: auth_list_def word_gt_0)
next
  case (Some as)
  then show ?thesis using assms(1) by (simp add: auth_list_def args_ok_def)
qed

lemma args_split:
  assumes "args_ok r" and "args_valid t r" and "arg_authorities r = Some as"
  shows "as = map Some (auth_list r) @ drop (unat (arg_auth_count r)) as"
proof -
  define n where "n = unat (arg_auth_count r)"
  have n: "n \<le> length as" using assms(1,3) by (simp add: args_ok_def n_def)
  have "take n as = map Some (auth_list r)"
  proof (rule nth_equalityI)
    show "length (take n as) = length (map Some (auth_list r))"
      using n assms(3) by (simp add: auth_list_def n_def)
    fix k assume "k < length (take n as)"
    then have "k < n" by simp
    moreover from this obtain s where "as ! k = Some s" using assms(2,3) by (auto simp: args_valid_def n_def)
    ultimately show "take n as ! k = map Some (auth_list r) ! k"
      using n assms(3) by (simp add: auth_list_def n_def)
  qed
  then show ?thesis using append_take_drop_id [of n as] by (simp add: n_def)
qed

definition token_fields_kept :: "mem \<Rightarrow> mem \<Rightarrow> u64 \<Rightarrow> bool" where
  "token_fields_kept m m' p = (\<forall>i < 9. i \<noteq> 3 \<longrightarrow> i \<noteq> 4 \<longrightarrow> load_op m' (field_at p i) = load_op m (field_at p i))"

lemma token_authorities_ok:
  assumes sys: "arena_system_ok sys" and own: "owns U m0 (tok_block p # Bs) (a, m)"
    and args: "args_ok r" "args_valid t r"
  shows "\<exists>ok a' m'. token_authorities sys p r (a, m) = Some (ok, (a', m')) \<and> owns U m0 [] (a', m')
    \<and> keeps Bs m m' \<and> token_fields_kept m m' p
    \<and> (ok \<longrightarrow> owns U m0 (tok_block p # Bs) (a', m')
        \<and> unat (load_op m' (field_at p 4)) = length (auth_list r)
        \<and> (load_op m' (field_at p 3) = 0 \<longleftrightarrow> auth_list r = [])
        \<and> {unat (load_op m' (field_at p 3)) ..< unat (load_op m' (field_at p 3)) + 8 * length (auth_list r)}
            \<subseteq> used_bytes a' - U - tok_block p
        \<and> auths_at m' p 0 (auth_list r) (used_bytes a' - U - tok_block p))"
proof (cases "arg_auth_count r = 0")
  case True
  then have auths: "auth_list r = []" using auth_list_length [OF args] by simp
  define m1 where "m1 = store_op (store_op m (field_at p 3) 0) (field_at p 4) 0"
  have call: "token_authorities sys p r (a, m) = Some (True, (a, m1))"
    using True by (simp add: token_authorities_def m1_def split: option.split)
  have ld: "load_op m1 (field_at p j) = (if j = 3 \<or> j = 4 then 0 else load_op m (field_at p j))" for j
    by (simp add: m1_def store_field(2))
  have out: "\<And>x. x \<notin> tok_block p \<Longrightarrow> m1 x = m x" by (simp add: m1_def store_field(1))
  have "owns U m0 (tok_block p # Bs) (a, m1)" "keeps Bs m m1"
    using owns_write [of U m0 "[]" "tok_block p" Bs a m m1] own out by simp_all
  then show ?thesis using call ld auths
    by (intro exI conjI impI) (auto simp: token_fields_kept_def auths_at_def owns_none)
next
  case False
  define n where "n = unat (arg_auth_count r)"
  have n: "0 < n" "n \<le> 100" "length (auth_list r) = n"
    using False args(2) auth_list_length [OF args] by (auto simp: args_valid_def n_def unat_gt_0)
  obtain as where as: "arg_authorities r = Some as" using n by (cases "arg_authorities r") (auto simp: auth_list_def)
  have sz: "unat (8 * arg_auth_count r) = 8 * n"
  proof -
    have "unat (8 :: u64) * unat (arg_auth_count r) < 2 ^ LENGTH(64)" using n(2) by (simp add: n_def)
    then have "unat ((8 :: u64) * arg_auth_count r) = unat (8 :: u64) * unat (arg_auth_count r)"
      by (rule iffD1 [OF unat_mult_lem])
    then show ?thesis by (simp add: n_def)
  qed
  obtain q a1 where alloc: "token_alloc sys (8 * arg_auth_count r) (a, m) = Some (q, (a1, m))"
    and own1: "owns U m0 (tok_block p # Bs) (a1, m)"
    and own2: "q \<noteq> 0 \<longrightarrow> owns U m0 ((tok_block p # Bs) @ [block q (8 * arg_auth_count r)]) (a1, m)"
    using token_alloc_ok [OF sys own, of "8 * arg_auth_count r"] by blast
  define m1 where "m1 = store_op m (field_at p 3) q"
  have out1: "x \<notin> tok_block p \<Longrightarrow> m1 x = m x" for x unfolding m1_def by (rule store_field(1)) simp
  have ld1: "load_op m1 (field_at p j) = (if 3 = j then q else load_op m (field_at p j))" for j
    unfolding m1_def by (rule store_field(2)) simp
  show ?thesis
  proof (cases "q = 0")
    case True
    have "owns U m0 (tok_block p # Bs) (a1, m1)" "keeps Bs m m1"
      using owns_write [of U m0 "[]" "tok_block p" Bs a1 m m1] own1 out1 by simp_all
    moreover have "token_authorities sys p r (a, m) = Some (False, (a1, m1))"
      using False as alloc True by (simp add: token_authorities_def m1_def word_gt_0)
    ultimately show ?thesis using ld1
      by (intro exI [of _ False] exI [of _ a1] exI [of _ m1]) (simp add: token_fields_kept_def owns_none)
  next
    case q: False
    define m2 where "m2 = store_op m1 (field_at p 4) (arg_auth_count r)"
    have out2: "x \<notin> tok_block p \<Longrightarrow> m2 x = m x" for x
      unfolding m2_def using store_field(1) [of 4 x p m1] out1 [of x] by simp
    have ld2: "load_op m2 (field_at p j) = (if 4 = j then arg_auth_count r else load_op m1 (field_at p j))" for j
      unfolding m2_def by (rule store_field(2)) simp
    define A where "A = {unat q ..< unat q + 8 * n}"
    have A: "block q (8 * arg_auth_count r) = A" by (simp add: block_def A_def sz)
    have "owns U m0 (tok_block p # (Bs @ [A])) (a1, m2)" and keep2: "keeps (Bs @ [A]) m m2"
      using owns_write [of U m0 "[]" "tok_block p" "Bs @ [A]" a1 m m2] own2 q out2 by (simp_all add: A)
    then have own3: "owns U m0 (tok_block p # A # Bs) (a1, m2)" by (intro owns_swap)
    have ss: "\<forall>s \<in> set (auth_list r). string_ok s"
      using args as args_split [OF args as] unfolding args_ok_def
      by (metis imageI in_set_conv_decomp list.set_map Un_iff set_append)
    have split: "as = map Some (auth_list r) @ drop n as" using args_split [OF args as] by (simp add: n_def)
    have "load_op m2 (field_at p 3) = q" using ld1 ld2 by simp
    then obtain ok w where
      call: "alloc_authorities sys p 0 (length (auth_list r)) (map Some (auth_list r) @ drop n as) (a1, m2) = Some (ok, w)"
      and fin: "auths_allocated U m0 p A Bs 0 (auth_list r) m2 ok w"
      using alloc_authorities_ok [OF sys A_def own3, of 0 "auth_list r" "drop n as"] n(3) ss by auto
    obtain a' m' where w: "w = (a', m')" by fastforce
    have none: "owns U m0 [] (a', m')" and keep3: "keeps (tok_block p # Bs) m2 m'"
      and own_fin: "ok \<Longrightarrow> owns U m0 (tok_block p # A # Bs) (a', m')"
      and auths: "ok \<Longrightarrow> auths_at m' p 0 (auth_list r) (used_bytes a' - U - tok_block p)"
      using fin unfolding auths_allocated_def w by auto
    have ld3: "load_op m' (field_at p j) = load_op m2 (field_at p j)" if "j < 9" for j
      using keep3 that by (intro field_cong) auto
    have "token_authorities sys p r (a, m) = Some (ok, (a', m'))"
      using alloc False q as call split n(3)
      by (simp add: token_authorities_def word_gt_0 m2_def m1_def w n_def [symmetric])
    moreover have "keeps Bs m m'" using keep2 keep3 by (auto intro: keeps_trans [of _ _ m2])
    moreover have "token_fields_kept m m' p" using ld1 ld2 ld3 by (simp add: token_fields_kept_def)
    moreover have "owns U m0 (tok_block p # Bs) (a', m')" "A \<subseteq> used_bytes a' - U - tok_block p" if ok
      using owns_drop [OF own_fin [OF that]] owns_later [OF own_fin [OF that], of A] by simp_all
    ultimately show ?thesis using none auths ld1 ld2 ld3 q n
      by (intro exI [of _ ok] exI [of _ a'] exI [of _ m'] conjI impI) (auto simp: n_def A_def)
  qed
qed


text \<open>The outcome of a creation; \<open>p = 0\<close> is NULL.\<close>

definition token_created :: "token_args \<Rightarrow> world \<Rightarrow> u64 \<Rightarrow> world \<Rightarrow> bool" where
  "token_created r w p w' = (arena_inv (fst w') \<and> \<not> locked (fst w') \<and> used_bytes (fst w) \<subseteq> used_bytes (fst w')
     \<and> (\<forall>x \<in> used_bytes (fst w). snd w' x = snd w x)
     \<and> (p \<noteq> 0 \<longrightarrow> token_at (snd w') p (view_of r)
          \<and> token_foot (snd w') p (view_of r) \<subseteq> used_bytes (fst w') - used_bytes (fst w)))"

lemma created_null: "owns (used_bytes (fst w)) (snd w) [] w' \<Longrightarrow> token_created r w 0 w'"
  using owns_facts by (auto simp: token_created_def)

lemma created_token:
  assumes own: "owns (used_bytes a) m (tok_block p # Bs) (a4, m4)" and p: "p \<noteq> 0"
    and fs: "view_fields (view_of r) = fs"
    and opts: "\<And>i so. (i, so) \<in> set fs \<Longrightarrow> opt_at m4 (load_op m4 (field_at p i)) so"
    and inside: "\<And>i so. (i, so) \<in> set fs \<Longrightarrow> opt_block (load_op m4 (field_at p i)) so \<subseteq> \<Union> (set Bs)"
    and n: "unat (load_op m4 (field_at p 4)) = length (auth_list r)"
    and arr: "load_op m4 (field_at p 3) = 0 \<longleftrightarrow> auth_list r = []"
    and array: "{unat (load_op m4 (field_at p 3)) ..< unat (load_op m4 (field_at p 3)) + 8 * length (auth_list r)}
            \<subseteq> used_bytes a4 - used_bytes a - tok_block p"
    and auths: "auths_at m4 p 0 (auth_list r) (used_bytes a4 - used_bytes a - tok_block p)"
    and m5: "m5 = store_op (store_op m4 (field_at p 6) (arg_issued_at r)) (field_at p 7) (arg_expires_at r)"
  shows "token_created r (a, m) p (a4, m5)"
proof -
  define V where "V = used_bytes a4 - used_bytes a - tok_block p"
  have out: "m5 x = m4 x" if "x \<notin> tok_block p" for x using that by (simp add: m5 store_field(1))
  have ld: "load_op m5 (field_at p j) = (if j = 7 then arg_expires_at r else if j = 6 then arg_issued_at r
      else load_op m4 (field_at p j))" for j
    by (simp add: m5 store_field(2))
  have own5: "owns (used_bytes a) m (tok_block p # Bs) (a4, m5)"
    using owns_write(1) [of "used_bytes a" m "[]" "tok_block p" Bs a4 m4 m5] own out by simp
  have sub: "\<Union> (set Bs) \<subseteq> V" using owns_later [OF own] unfolding V_def by auto
  have foot: "tok_block p \<subseteq> used_bytes a4 - used_bytes a" using owns_block [OF own, of "tok_block p"] by simp
  have slot: "i \<noteq> 6" "i \<noteq> 7" if "(i, so) \<in> set fs" for i so using that by (auto simp: fs [symmetric] view_fields_def)
  have ldf: "load_op m5 (field_at p i) = load_op m4 (field_at p i)" if "(i, so) \<in> set fs" for i so
    using slot [OF that] ld by simp
  have strs: "str_at m5 (unat q) s" if "str_at m4 (unat q) s" "str_block q s \<subseteq> V" for q s
    using that by (intro str_at_cong [OF _ that(1)] out) (auto simp: V_def str_block_def)
  have opts5: "opt_at m5 (load_op m5 (field_at p i)) so" if i: "(i, so) \<in> set fs" for i so
    using opts [OF i] inside [OF i] sub strs by (cases so) (auto simp: opt_at_def opt_block_def ldf [OF i])
  have ptr: "auth_ptr m5 p k = auth_ptr m4 p k" if "k < length (auth_list r)" for k
  proof -
    have same: "load_op m5 (field_at p 3) = load_op m4 (field_at p 3)" using ld by simp
    show ?thesis unfolding auth_ptr_def same
    proof (intro load_cong out)
      fix x assume "unat (load_op m4 (field_at p 3)) + 8 * k \<le> x" "x < unat (load_op m4 (field_at p 3)) + 8 * k + 8"
      then have "x \<in> {unat (load_op m4 (field_at p 3)) ..< unat (load_op m4 (field_at p 3)) + 8 * length (auth_list r)}"
        using that by auto
      then show "x \<notin> tok_block p" using array by blast
    qed
  qed
  have auth5: "auth_ptr m5 p k \<noteq> 0 \<and> str_at m5 (unat (auth_ptr m5 p k)) (auth_list r ! k)
      \<and> str_block (auth_ptr m5 p k) (auth_list r ! k) \<subseteq> V" if "k < length (auth_list r)" for k
    using auths that strs by (simp add: auths_at_def ptr V_def)
  have view: "v_issued_at (view_of r) = arg_issued_at r" "v_expires_at (view_of r) = arg_expires_at r"
    "v_authorities (view_of r) = auth_list r"
    by (simp_all add: view_of_def)
  have "token_at m5 p (view_of r)"
    unfolding token_at_def fs view using p opts5 ld n arr auth5 by auto
  moreover have "token_foot m5 p (view_of r) \<subseteq> used_bytes a4 - used_bytes a"
  proof -
    have "opt_block (load_op m5 (field_at p i)) so \<subseteq> V" if "(i, so) \<in> set fs" for i so
      using inside [OF that] sub ldf [OF that] by simp
    moreover have "load_op m5 (field_at p 3) = load_op m4 (field_at p 3)" using ld by simp
    moreover have "str_block (auth_ptr m5 p k) (auth_list r ! k) \<subseteq> V" if "k < length (auth_list r)" for k
      using auth5 [OF that] by blast
    ultimately show ?thesis using foot array unfolding token_foot_def fs view V_def by auto blast+
  qed
  ultimately show ?thesis using owns_facts [OF own5] by (simp add: token_created_def)
qed

lemma create_token_ok:
  assumes sys: "arena_system_ok sys" and inv: "arena_inv a" "\<not> locked a"
    and args: "args_ok r" "args_valid t r"
  shows "\<exists>p w. create_token sys r (a, m) = Some (p, w) \<and> token_created r (a, m) p w"
proof -
  define U where "U = used_bytes a"
  define fs where "fs = string_fields r"
  have fs: "fields_ok fs" using args(1) by (simp add: args_ok_def fs_def)
  have "owns U m [] (a, m)" using owns_start [OF inv] by (simp add: U_def)
  from token_alloc_ok [OF sys this, of 72] obtain p a1 where
    alloc: "token_alloc sys 72 (a, m) = Some (p, (a1, m))" and own0: "owns U m [] (a1, m)"
    and own1: "p \<noteq> 0 \<longrightarrow> owns U m [block p 72] (a1, m)"
    by auto
  show ?thesis
  proof (cases "p = 0")
    case True
    then show ?thesis using alloc created_null [of "(a, m)" "(a1, m)" r] own0
      by (simp add: create_token_def U_def)
  next
    case p: False
    define m1 where "m1 = c_memset m (unat p) 0 72"
    have own1: "owns U m ([] @ tok_block p # []) (a1, m)" using own1 p by (simp add: block_def)
    have "m1 x = m x" if "x \<notin> tok_block p" for x using that by (auto simp: m1_def c_memset_def fill_def)
    from owns_write(1) [OF own1 this] have own2: "owns U m (tok_block p # []) (a1, m1)" by simp
    have zero: "load_op m1 (field_at p i) = 0" if "i < 9" for i
    proof -
      have "load_le m1 x k = 0" if "unat p \<le> x" "x + k \<le> unat p + 72" for x k
        using that by (induction k arbitrary: x) (auto simp: m1_def c_memset_def fill_def)
      then show ?thesis using that by (simp add: load_op_def field_at_def)
    qed
    obtain ok w where af: "alloc_fields sys p fs (a1, m1) = Some (ok, w)"
      and fin: "fields_allocated U m p [] fs m1 ok w"
      using alloc_fields_ok [OF sys own2 fs] by blast
    obtain a2 m2 where w: "w = (a2, m2)" by fastforce
    show ?thesis
    proof (cases ok)
      case False
      have "token_created r (a, m) 0 w"
        using fin by (intro created_null) (simp add: fields_allocated_def U_def)
      then show ?thesis using alloc p af False by (simp add: create_token_def m1_def fs_def)
    next
      case True
      have own3: "owns U m (tok_block p # [] @ field_blocks m2 p fs) (a2, m2)" and set2: "fields_set m1 m2 p fs"
        using fin True by (simp_all add: fields_allocated_def w)
      have nz: "\<forall>(i, so) \<in> set fs. so \<noteq> None \<longrightarrow> load_op m2 (field_at p i) \<noteq> 0"
        using set2 by (auto simp: fields_set_def)
      define m3 where "m3 = copy_fields p fs m2"
      have own4: "owns U m (tok_block p # field_blocks m2 p fs) (a2, m3)" and keep3: "keeps [tok_block p] m2 m3"
        and strs: "\<And>i s. (i, Some s) \<in> set fs \<Longrightarrow> str_at m3 (unat (load_op m2 (field_at p i))) s"
        using copy_fields_ok [OF own3 fs nz] by (simp_all add: m3_def)
      obtain ok' a4 m4 where ta: "token_authorities sys p r (a2, m3) = Some (ok', (a4, m4))"
        and none: "owns U m [] (a4, m4)" and keep4: "keeps (field_blocks m2 p fs) m3 m4"
        and kept4: "token_fields_kept m3 m4 p"
        and done4: "ok' \<Longrightarrow> owns U m (tok_block p # field_blocks m2 p fs) (a4, m4)"
          "ok' \<Longrightarrow> unat (load_op m4 (field_at p 4)) = length (auth_list r)"
          "ok' \<Longrightarrow> load_op m4 (field_at p 3) = 0 \<longleftrightarrow> auth_list r = []"
          "ok' \<Longrightarrow> {unat (load_op m4 (field_at p 3)) ..< unat (load_op m4 (field_at p 3)) + 8 * length (auth_list r)}
            \<subseteq> used_bytes a4 - U - tok_block p"
          "ok' \<Longrightarrow> auths_at m4 p 0 (auth_list r) (used_bytes a4 - U - tok_block p)"
        using token_authorities_ok [OF sys own4 args] by blast
      show ?thesis
      proof (cases ok')
        case False
        have "token_created r (a, m) 0 (a4, m4)" using none by (intro created_null) (simp add: U_def)
        then show ?thesis using alloc p af True w ta False
          by (simp add: create_token_def m1_def [symmetric] fs_def [symmetric] m3_def [symmetric])
      next
        case ok': True
        define m5 where "m5 = store_op (store_op m4 (field_at p 6) (arg_issued_at r)) (field_at p 7) (arg_expires_at r)"
        have "create_token sys r (a, m) = Some (p, (a4, m5))"
          using alloc p af True w ta ok'
          by (simp add: create_token_def m1_def [symmetric] fs_def [symmetric] m3_def [symmetric] m5_def)
        moreover have "token_created r (a, m) p (a4, m5)"
        proof (rule created_token)
          show "owns (used_bytes a) m (tok_block p # field_blocks m2 p fs) (a4, m4)" using done4(1) ok' by (simp add: U_def)
          show "view_fields (view_of r) = fs" using args(2)
            by (auto simp: view_fields_def view_of_def fs_def string_fields_def args_valid_def)
          show "opt_at m4 (load_op m4 (field_at p i)) so" "opt_block (load_op m4 (field_at p i)) so \<subseteq> \<Union> (set (field_blocks m2 p fs))"
            if i: "(i, so) \<in> set fs" for i so
          proof -
            have "i < 9" "i \<noteq> 3" "i \<noteq> 4" using i by (auto simp: fs_def string_fields_def)
            then have ld: "load_op m4 (field_at p i) = load_op m2 (field_at p i)"
              using kept4 keep3 field_cong [of p m3 m2 i] by (simp add: token_fields_kept_def)
            have block: "str_block (load_op m2 (field_at p i)) s \<in> set (field_blocks m2 p fs)" if "so = Some s" for s
              using i that by (force simp: field_blocks_def)
            show "opt_block (load_op m4 (field_at p i)) so \<subseteq> \<Union> (set (field_blocks m2 p fs))"
              using block by (auto simp: ld opt_block_def split: option.split)
            show "opt_at m4 (load_op m4 (field_at p i)) so"
            proof (cases so)
              case None
              then show ?thesis using set2 i zero [OF \<open>i < 9\<close>] unfolding fields_set_def opt_at_def ld by fastforce
            next
              case (Some s)
              have "str_at m4 (unat (load_op m2 (field_at p i))) s"
              proof (rule str_at_cong)
                show "str_at m3 (unat (load_op m2 (field_at p i))) s" using strs i Some by blast
              qed (use keep4 block [OF Some] in \<open>auto simp: keeps_def str_block_def\<close>)
              then show ?thesis using nz i Some by (auto simp: opt_at_def ld)
            qed
          qed
        qed (use p done4 ok' in \<open>simp_all add: U_def m5_def\<close>)
        ultimately show ?thesis by blast
      qed
    qed
  qed
qed

end
