(* ===== verification/Token_Store.thy ===== *)
theory Token_Store
  imports Token_Create
begin

text \<open>
  The guarantees of the tokens: what a creation leaves, when it succeeds, what the queries answer,
  and that tokens survive later creations.
\<close>

section \<open>Creation\<close>

lemma token_create_outcome:
  assumes "arena_system_ok sys" and "arena_inv a" and "\<not> locked a" and "args_ok r"
  shows "\<exists>p a' m'. token_data_create_ex sys t (Some a) r m = Some (p, Some a', m')
    \<and> token_created r (a, m) p (a', m') \<and> (\<not> args_valid t r \<longrightarrow> p = 0 \<and> a' = a \<and> m' = m)"
proof (cases "args_valid t r")
  case True
  from create_token_ok [OF assms(1-3) assms(4) True, of m] obtain p a' m' where
    "create_token sys r (a, m) = Some (p, (a', m'))" "token_created r (a, m) p (a', m')"
    by auto
  then show ?thesis using True by (simp add: token_data_create_ex_def args_checked [OF assms(4)])
next
  case False
  then have "token_data_create_ex sys t (Some a) r m = Some (0, Some a, m)"
    by (simp add: token_data_create_ex_def args_checked [OF assms(4)])
  moreover have "token_created r (a, m) 0 (a, m)" using assms(2,3) by (simp add: token_created_def)
  ultimately show ?thesis by blast
qed

section \<open>Success while the current chunk has room\<close>

definition align8 :: "nat \<Rightarrow> nat" where
  "align8 n = (n + 7) div 8 * 8"

definition arena_room :: "arena_memory \<Rightarrow> nat \<Rightarrow> bool" where
  "arena_room a k = (case current a of
     None \<Rightarrow> False
   | Some c \<Rightarrow> chunk_memory c \<noteq> 0 \<and> unat (chunk_used c) + k \<le> unat (chunk_size c))"

text \<open>The books \<open>B\<close>: the number of chunks, and the bytes in use once the room \<open>k\<close> is used up.\<close>

definition usable :: "u64 \<times> u64 \<Rightarrow> nat \<Rightarrow> world \<Rightarrow> bool" where
  "usable B k w = (arena_inv (fst w) \<and> \<not> locked (fst w) \<and> arena_room (fst w) k
     \<and> chunk_count (fst w) = fst B \<and> total_used (fst w) + of_nat k = snd B)"

lemma arena_align_unat: "unat sz \<le> 1048576 \<Longrightarrow> unat (arena_align_size sz) = align8 (unat sz)"
  using round_up_unat [of 8 sz] by (simp add: arena_align_size_def align8_def)

lemma arena_alloc_room:
  assumes inv: "arena_inv a" "\<not> locked a" and room: "arena_room a (k + align8 (unat sz))"
    and sz: "0 < unat sz" "unat sz \<le> 1048576"
  shows "\<exists>q a'. arena_alloc os (Some a) sz = Some (Some q, Some a') \<and> q \<noteq> 0 \<and> arena_inv a' \<and> \<not> locked a'
    \<and> arena_room a' k \<and> chunk_count a' = chunk_count a \<and> total_used a' = total_used a + of_nat (align8 (unat sz))"
proof -
  obtain c where c: "current a = Some c" "chunk_memory c \<noteq> 0"
    "unat (chunk_used c) + (k + align8 (unat sz)) \<le> unat (chunk_size c)"
    using room by (auto simp: arena_room_def split: option.splits)
  define b where "b = a\<lparr>locked := True\<rparr>"
  define n where "n = arena_align_size sz"
  have n: "unat n = align8 (unat sz)" using sz(2) by (simp add: n_def arena_align_unat)
  have accepted: "sz \<noteq> 0" "\<not> sz > get_arena_max_alloc_size" using sz by (auto simp: word_less_nat_alt)
  note al = align_small [OF accepted, folded n_def]
  have chunks: "arena_chunks b = c # old_chunks a" "arena_chunks a = c # old_chunks a"
    by (simp_all add: arena_chunks_def b_def c)
  have ok: "chunk_ok c" using inv(1) by (simp add: arena_inv_def chunks chunks_ok_Cons)
  have fits: "unat (chunk_used c) + unat n \<le> unat (chunk_size c)" using c(3) n by simp
  have nn: "\<not> needs_chunk n b"
    using word_room(1) [OF ok, of n] al(3) fits by (simp add: needs_chunk_def b_def c)
  have "ready n c b b"
    using inv(1) fits chunks by (simp add: ready_def arena_inv_def b_def used_bytes_def)
  from carve_ready [OF this al(1,2)] obtain q a' where carve: "carve n c b = (Some q, a')" and good: "alloc_good n b q a'"
    by blast
  have q: "q = chunk_memory c + chunk_used c" and cur: "current a' = Some (c\<lparr>chunk_used := chunk_used c + n\<rparr>)"
    and books: "chunk_count a' = chunk_count a" "total_used a' = total_used a + of_nat (align8 (unat sz))"
    using carve n by (auto simp: carve_def Let_def b_def n [symmetric] split: if_splits)
  have call: "arena_alloc os (Some a) sz = Some (Some q, Some a')"
    using accepted inv(2) nn carve c(1)
    by (simp add: arena_alloc_def arena_alloc_locked_def b_def [symmetric] n_def [symmetric] del: arena_constants)
      (simp add: b_def)
  have "unat (chunk_memory c) + unat (chunk_used c) < 2 ^ 64"
    using ok fits al(1) by (simp add: chunk_ok_def)
  then have "unat q = unat (chunk_memory c) + unat (chunk_used c)" unfolding q by (rule unat_add_small)
  then have "q \<noteq> 0" using c(2) by (metis add_is_0 unat_0 unat_eq_0)
  have "unat (chunk_used c + n) = unat (chunk_used c) + unat n"
    using ok fits by (intro unat_add_small) (simp add: chunk_ok_def)
  then have "arena_room a' k" using c n by (simp add: arena_room_def cur)
  then show ?thesis using call \<open>q \<noteq> 0\<close> good books by (simp add: alloc_good_def)
qed

lemma token_alloc_room:
  assumes "usable B (k + align8 (unat sz)) (a, m)" and "0 < unat sz" and "unat sz \<le> 1048576"
  shows "\<exists>q a'. token_alloc sys sz (a, m) = Some (q, (a', m)) \<and> q \<noteq> 0 \<and> usable B k (a', m')"
proof -
  obtain q a' where "arena_alloc (sys a) (Some a) sz = Some (Some q, Some a')" "q \<noteq> 0" "arena_inv a'" "\<not> locked a'"
    "arena_room a' k" "chunk_count a' = chunk_count a" and used: "total_used a' = total_used a + of_nat (align8 (unat sz))"
    using arena_alloc_room [of a k sz "sys a"] assms by (auto simp: usable_def)
  moreover have "total_used a' + of_nat k = snd B"
    using assms(1) unfolding usable_def used by (simp add: add.assoc add.commute [of "of_nat k"])
  ultimately show ?thesis using assms(1) by (simp add: usable_def token_alloc_def)
qed

lemma str_size_room: "length s < 1048576 \<Longrightarrow> 0 < unat (str_size s) \<and> unat (str_size s) \<le> 1048576
    \<and> unat (str_size s) = Suc (length s)"
proof -
  assume l: "length s < 1048576"
  have "unat (of_nat (Suc (length s)) :: u64) = Suc (length s)" by (rule unat_of_nat_eq) (use l in simp)
  then show ?thesis using l by (simp add: str_size_def add.commute)
qed

definition str_need :: "string \<Rightarrow> nat" where
  "str_need s = align8 (Suc (length s))"

definition fields_need :: "(nat \<times> string option) list \<Rightarrow> nat" where
  "fields_need fs = sum_list (map (\<lambda>(i, so). case so of None \<Rightarrow> 0 | Some s \<Rightarrow> str_need s) fs)"

definition token_need :: "token_args \<Rightarrow> nat" where
  "token_need r = 72 + fields_need (string_fields r) + 8 * length (auth_list r) + sum_list (map str_need (auth_list r))"

lemma alloc_str_room:
  assumes "usable B (k + str_need s) (a, m)" and "length s < 1048576"
  shows "\<exists>q a'. token_alloc sys (str_size s) (a, m) = Some (q, (a', m)) \<and> q \<noteq> 0 \<and> usable B k (a', m')"
  using token_alloc_room [of B k "str_size s" a m sys m'] str_size_room [OF assms(2)] assms(1)
  by (simp add: str_need_def)

definition fields_short :: "(nat \<times> string option) list \<Rightarrow> bool" where
  "fields_short fs = (\<forall>i s. (i, Some s) \<in> set fs \<longrightarrow> length s < 1048576)"

lemma alloc_fields_room:
  "usable B (k + fields_need fs) (a, m) \<Longrightarrow> fields_short fs \<Longrightarrow>
    \<exists>a' m'. alloc_fields sys p fs (a, m) = Some (True, (a', m')) \<and> usable B k (a', m')"
proof (induction fs arbitrary: a m)
  case (Cons e fs)
  obtain i so where e: "e = (i, so)" by fastforce
  have fs: "fields_short fs" using Cons.prems(2) unfolding fields_short_def by auto
  show ?case
  proof (cases so)
    case None
    then show ?thesis using Cons.IH [of a m] Cons.prems(1) fs by (simp add: e fields_need_def)
  next
    case (Some s)
    define k' where "k' = k + fields_need fs"
    have room: "usable B (k' + str_need s) (a, m)"
      using Cons.prems(1) by (simp add: e Some fields_need_def k'_def add.commute add.left_commute)
    have short: "length s < 1048576" using Cons.prems(2) by (auto simp: e Some fields_short_def)
    obtain q a1 where q: "token_alloc sys (str_size s) (a, m) = Some (q, (a1, m))" "q \<noteq> 0"
      and "usable B k' (a1, store_op m (field_at p i) q)"
      using alloc_str_room [OF room short, of sys] by (auto simp: usable_def)
    then show ?thesis using Cons.IH fs by (auto simp: e Some k'_def)
  qed
qed (auto simp: fields_need_def)

lemma alloc_authorities_room:
  "usable B (k + sum_list (map str_need ss)) (a, m) \<Longrightarrow> \<forall>s \<in> set ss. length s < 1048576 \<Longrightarrow>
    \<exists>a' m'. alloc_authorities sys p i (length ss) (map Some ss @ rest) (a, m) = Some (True, (a', m')) \<and> usable B k (a', m')"
proof (induction ss arbitrary: a m i)
  case (Cons s ss)
  define k' where "k' = k + sum_list (map str_need ss)"
  have room: "usable B (k' + str_need s) (a, m)"
    using Cons.prems(1) by (simp add: k'_def add.commute add.left_commute)
  obtain q a1 where q: "token_alloc sys (str_size s) (a, m) = Some (q, (a1, m))" "q \<noteq> 0"
    and "\<And>m'. usable B k' (a1, m')"
    using alloc_str_room [OF room, of sys] Cons.prems(2) by (auto simp: usable_def)
  then show ?case using Cons.IH Cons.prems(2) by (auto simp: k'_def Let_def)
qed auto

text \<open>From the block of the token itself on.\<close>

lemma create_token_rest:
  assumes p: "token_alloc sys 72 (a, m) = Some (p, (a1, m))" "p \<noteq> 0"
    and room: "usable B k1 (a1, m)" "k + token_need r = k1 + 72" and args: "args_ok r" "args_valid t r"
    and short: "fields_short (string_fields r)"
  shows "\<exists>a' m'. create_token sys r (a, m) = Some (p, (a', m')) \<and> usable B k (a', m')"
proof -
  define n where "n = unat (arg_auth_count r)"
  define k3 where "k3 = k + sum_list (map str_need (auth_list r))"
  define k2 where "k2 = k3 + 8 * n"
  have len: "length (auth_list r) = n" using auth_list_length [OF args] by (simp add: n_def)
  have n: "n \<le> 100" using args(2) by (simp add: args_valid_def n_def)
  have k1: "k1 = k2 + fields_need (string_fields r)"
    using room(2) by (simp add: k2_def k3_def token_need_def len)
  have room1: "usable B k1 (a1, c_memset m (unat p) 0 72)" using room(1) by (simp add: usable_def)
  obtain a2 m2 where af: "alloc_fields sys p (string_fields r) (a1, c_memset m (unat p) 0 72) = Some (True, (a2, m2))"
    and room2: "usable B k2 (a2, m2)"
    using alloc_fields_room [of B k2 "string_fields r" a1 "c_memset m (unat p) 0 72" sys p] room1 short
    by (auto simp: k1)
  define m3 where "m3 = copy_fields p (string_fields r) m2"
  have room3: "usable B k2 (a2, m3)" using room2 by (simp add: usable_def)
  have "\<exists>a4 m4. token_authorities sys p r (a2, m3) = Some (True, (a4, m4)) \<and> usable B k (a4, m4)"
  proof (cases "arg_auth_count r = 0")
    case True
    then have "n = 0" by (simp add: n_def)
    then show ?thesis using room3 True len
      by (auto simp: token_authorities_def usable_def k2_def k3_def split: option.split)
  next
    case False
    then obtain as where as: "arg_authorities r = Some as" using args(2) by (auto simp: args_valid_def word_gt_0)
    have sz: "unat (8 * arg_auth_count r) = 8 * n" "0 < n"
    proof -
      have "unat (8 :: u64) * unat (arg_auth_count r) < 2 ^ LENGTH(64)" using n by (simp add: n_def)
      then have "unat ((8 :: u64) * arg_auth_count r) = unat (8 :: u64) * unat (arg_auth_count r)"
        by (rule iffD1 [OF unat_mult_lem])
      then show "unat (8 * arg_auth_count r) = 8 * n" by (simp add: n_def)
      show "0 < n" using False by (simp add: n_def unat_gt_0)
    qed
    have "align8 (8 * n) = 8 * n" by (simp add: align8_def)
    then have "usable B (k3 + align8 (unat (8 * arg_auth_count r))) (a2, m3)" using room3 sz(1) by (simp add: k2_def)
    then obtain q a3 where q: "token_alloc sys (8 * arg_auth_count r) (a2, m3) = Some (q, (a3, m3))" "q \<noteq> 0"
      and room4: "usable B k3 (a3, store_op (store_op m3 (field_at p 3) q) (field_at p 4) (arg_auth_count r))"
      using token_alloc_room [of B k3 "8 * arg_auth_count r" a2 m3 sys] sz n by (auto simp: usable_def)
    have "\<forall>s \<in> set (auth_list r). length s < 1048576"
    proof
      fix s assume "s \<in> set (auth_list r)"
      then obtain j where "j < n" "s = auth_list r ! j" using len by (auto simp: in_set_conv_nth)
      moreover from this have "auth_list r ! j = the (as ! j)" using len as by (simp add: auth_list_def)
      ultimately show "length s < 1048576" using args(2) as by (fastforce simp: args_valid_def n_def)
    qed
    from alloc_authorities_room [OF room4 [unfolded k3_def] this, of sys p 0 "drop n as"]
    show ?thesis using q False as len args_split [OF args as]
      by (auto simp: token_authorities_def word_gt_0 n_def [symmetric])
  qed
  then obtain a4 m4 where "token_authorities sys p r (a2, m3) = Some (True, (a4, m4))" "usable B k (a4, m4)" by blast
  then show ?thesis using p af by (auto simp: create_token_def m3_def usable_def)
qed


lemma create_token_room:
  assumes room: "usable B (k + token_need r) (a, m)" and args: "args_ok r" "args_valid t r"
    and short: "fields_short (string_fields r)"
  shows "\<exists>p a' m'. create_token sys r (a, m) = Some (p, (a', m')) \<and> p \<noteq> 0 \<and> usable B k (a', m')"
proof -
  define k1 where "k1 = k + token_need r - 72"
  have k1: "k + token_need r = k1 + 72" by (simp add: k1_def token_need_def)
  have "unat (72 :: u64) = 72" "align8 72 = 72" by (simp_all add: align8_def)
  then have "align8 (unat (72 :: u64)) = 72" by (simp only:)
  then have "usable B (k1 + align8 (unat (72 :: u64))) (a, m)" using room k1 by (simp only:)
  then obtain p a1 where "token_alloc sys 72 (a, m) = Some (p, (a1, m))" "p \<noteq> 0" "usable B k1 (a1, m)"
    using token_alloc_room [of B k1 72 a m sys] by (auto simp: usable_def)
  then show ?thesis using create_token_rest [OF _ _ _ k1 args short] by blast
qed

lemma token_create_room:
  assumes "usable B (k + token_need r) (a, m)" and "args_ok r" and "args_valid t r" and "fields_short (string_fields r)"
  shows "\<exists>p a' m'. token_data_create_ex sys t (Some a) r m = Some (p, Some a', m') \<and> p \<noteq> 0 \<and> usable B k (a', m')"
proof -
  obtain p a' m' where "create_token sys r (a, m) = Some (p, (a', m'))" "p \<noteq> 0" "usable B k (a', m')"
    using create_token_room [OF assms, of sys] by blast
  then show ?thesis using assms(3) by (simp add: token_data_create_ex_def args_checked [OF assms(2)])
qed

section \<open>Runs of creations\<close>

inductive token_run :: "world \<Rightarrow> (u64 \<times> token_view) list \<Rightarrow> world \<Rightarrow> bool" where
  tokens_done: "token_run w [] w"
| tokens_null: "arena_system_ok sys \<Longrightarrow> args_ok r \<Longrightarrow>
    token_data_create_ex sys t (Some a) r m = Some (0, Some a', m') \<Longrightarrow> token_run (a', m') ts w \<Longrightarrow>
    token_run (a, m) ts w"
| tokens_made: "arena_system_ok sys \<Longrightarrow> args_ok r \<Longrightarrow>
    token_data_create_ex sys t (Some a) r m = Some (p, Some a', m') \<Longrightarrow> p \<noteq> 0 \<Longrightarrow> token_run (a', m') ts w \<Longrightarrow>
    token_run (a, m) ((p, view_of r) # ts) w"

definition foot :: "mem \<Rightarrow> u64 \<times> token_view \<Rightarrow> nat set" where
  "foot m x = token_foot m (fst x) (snd x)"

definition tokens_in :: "mem \<Rightarrow> nat set \<Rightarrow> (u64 \<times> token_view) list \<Rightarrow> bool" where
  "tokens_in m V ts = ((\<forall>x \<in> set ts. token_at m (fst x) (snd x) \<and> foot m x \<subseteq> V)
     \<and> sorted_wrt (\<lambda>x y. foot m x \<inter> foot m y = {}) ts)"

lemma auth_list_nonempty:
  assumes "args_ok r" and "args_valid t r" and "s \<in> set (auth_list r)"
  shows "s \<noteq> []"
proof -
  have len: "length (auth_list r) = unat (arg_auth_count r)" by (rule auth_list_length [OF assms(1,2)])
  obtain j where j: "j < unat (arg_auth_count r)" "s = auth_list r ! j"
    using assms(3) len by (auto simp: in_set_conv_nth)
  then obtain as where "arg_authorities r = Some as" using assms(2) by (auto simp: args_valid_def word_gt_0)
  moreover from this have "auth_list r ! j = the (as ! j)" using j len by (simp add: auth_list_def)
  ultimately show ?thesis using assms(2) j by (fastforce simp: args_valid_def)
qed

lemma token_create_facts:
  assumes "arena_system_ok sys" and "arena_inv a" and "\<not> locked a" and "args_ok r"
    and "token_data_create_ex sys t (Some a) r m = Some (p, Some a', m')"
  shows "token_created r (a, m) p (a', m')"
  using token_create_outcome [OF assms(1-4), of t m] assms(5) by auto

lemma token_run_facts:
  "token_run w ts w' \<Longrightarrow> arena_inv (fst w) \<Longrightarrow> \<not> locked (fst w) \<Longrightarrow>
    arena_inv (fst w') \<and> used_bytes (fst w) \<subseteq> used_bytes (fst w') \<and> (\<forall>x \<in> used_bytes (fst w). snd w' x = snd w x)
    \<and> tokens_in (snd w') (used_bytes (fst w') - used_bytes (fst w)) ts"
proof (induction rule: token_run.induct)
  case (tokens_done w)
  then show ?case by (simp add: tokens_in_def)
next
  case (tokens_null sys r t a m a' m' ts w)
  have "token_created r (a, m) 0 (a', m')" using tokens_null by (intro token_create_facts) auto
  then have c: "arena_inv a'" "\<not> locked a'" "used_bytes a \<subseteq> used_bytes a'" "\<And>x. x \<in> used_bytes a \<Longrightarrow> m' x = m x"
    by (simp_all add: token_created_def)
  have IH: "arena_inv (fst w)" "used_bytes a' \<subseteq> used_bytes (fst w)" "\<And>x. x \<in> used_bytes a' \<Longrightarrow> snd w x = m' x"
    "tokens_in (snd w) (used_bytes (fst w) - used_bytes a') ts"
    using tokens_null.IH c(1,2) by simp_all
  have "tokens_in (snd w) (used_bytes (fst w) - used_bytes a) ts" using IH(4) c(3) by (fastforce simp: tokens_in_def)
  then show ?case using IH c by auto
next
  case (tokens_made sys r t a m p a' m' ts w)
  have created: "token_created r (a, m) p (a', m')" using tokens_made by (intro token_create_facts) auto
  then have c: "arena_inv a'" "\<not> locked a'" "used_bytes a \<subseteq> used_bytes a'" "\<And>x. x \<in> used_bytes a \<Longrightarrow> m' x = m x"
    and tok: "token_at m' p (view_of r)" "token_foot m' p (view_of r) \<subseteq> used_bytes a' - used_bytes a"
    using tokens_made.hyps(4) by (simp_all add: token_created_def)
  have IH: "arena_inv (fst w)" "used_bytes a' \<subseteq> used_bytes (fst w)" "\<And>x. x \<in> used_bytes a' \<Longrightarrow> snd w x = m' x"
    "tokens_in (snd w) (used_bytes (fst w) - used_bytes a') ts"
    using tokens_made.IH c(1,2) by simp_all
  have "snd w x = m' x" if "x \<in> token_foot m' p (view_of r)" for x using that tok(2) IH(3) by blast
  from token_frame [OF tok(1) this]
  have now: "token_at (snd w) p (view_of r)" "foot (snd w) (p, view_of r) \<subseteq> used_bytes a' - used_bytes a"
    using tok(2) by (simp_all add: foot_def)
  have rest: "token_at (snd w) (fst x) (snd x)" "foot (snd w) x \<subseteq> used_bytes (fst w) - used_bytes a'" if "x \<in> set ts" for x
    using IH(4) that by (simp_all add: tokens_in_def)
  have "foot (snd w) (p, view_of r) \<inter> foot (snd w) x = {}" if "x \<in> set ts" for x
    using rest(2) [OF that] now(2) by blast
  moreover have "foot (snd w) x \<subseteq> used_bytes (fst w) - used_bytes a" if "x \<in> set ts" for x
    using rest(2) [OF that] c(3) by blast
  moreover have "foot (snd w) (p, view_of r) \<subseteq> used_bytes (fst w) - used_bytes a" using now(2) IH(2) by blast
  ultimately have "tokens_in (snd w) (used_bytes (fst w) - used_bytes a) ((p, view_of r) # ts)"
    using now(1) rest(1) IH(4) by (simp add: tokens_in_def)
  then show ?case using IH c by auto
qed

section \<open>The theorems\<close>

text \<open>A request, an arena whose current chunk has room, and a system that gives nothing more.\<close>

definition demo_args :: token_args where
  "demo_args = \<lparr>arg_id = Some ''t1'', arg_user_id = Some ''u7'', arg_username = None,
     arg_authorities = Some [Some ''USER'', Some ''ADMIN''], arg_auth_count = 2, arg_device_hash = None,
     arg_issued_at = 100, arg_expires_at = 200, arg_client_ip = Some ''10.0.0.1'', arg_check_expiration = False\<rparr>"

definition dry_system :: arena_system where
  "dry_system a = dry_os"

lemma demo_facts:
  "arena_system_ok dry_system" "arena_inv first_arena" "\<not> locked first_arena" "args_ok demo_args"
  "args_valid 0 demo_args" "fields_short (string_fields demo_args)" "auth_list demo_args = [''USER'', ''ADMIN'']"
  "arena_room first_arena (1000 + token_need demo_args + token_need demo_args)"
proof -
  show "arena_system_ok dry_system" by (simp add: arena_system_ok_def dry_system_def fresh_arena_facts(5))
  show "arena_inv first_arena" "\<not> locked first_arena"
    using arena_alloc_BlockD [OF fresh_arena_facts(2,3,4) first_alloc] by blast+
  show auths: "auth_list demo_args = [''USER'', ''ADMIN'']" by (simp add: auth_list_def demo_args_def)
  show "args_ok demo_args" by (simp add: args_ok_def demo_args_def fields_ok_def string_fields_def string_ok_def)
  show "args_valid 0 demo_args" by (auto simp: args_valid_def demo_args_def less_2_cases_iff)
  show "fields_short (string_fields demo_args)" by (auto simp: fields_short_def string_fields_def demo_args_def)
  have "token_need demo_args = 136"
    unfolding token_need_def auths
    by (simp add: fields_need_def string_fields_def demo_args_def str_need_def align8_def)
  then show "arena_room first_arena (1000 + token_need demo_args + token_need demo_args)"
    by (simp add: arena_room_def first_arena_def)
qed

lemma demo_create:
  "\<exists>p a' m'. token_data_create_ex dry_system 0 (Some first_arena) demo_args (\<lambda>_. 7) = Some (p, Some a', m')
    \<and> p \<noteq> 0 \<and> usable (1, total_used first_arena + of_nat (1000 + token_need demo_args + token_need demo_args))
      (1000 + token_need demo_args) (a', m')"
  using demo_facts by (intro token_create_room) (simp_all add: usable_def first_arena_def)

text \<open>C11:
  Creating a token on a consistent arena always returns and leaves the arena consistent, unlocked, and
  every byte that was in use as it was. Parameters that fail the checks change nothing and give
  NULL. A token that is returned reads back as exactly the parameters, in memory that was not in
  use before.
\<close>

theorem token_create_correct:
  assumes "arena_system_ok sys" and "arena_inv a" and "\<not> locked a" and "args_ok r"
  shows "\<exists>p a' m'. token_data_create_ex sys t (Some a) r m = Some (p, Some a', m')
    \<and> arena_inv a' \<and> \<not> locked a' \<and> used_bytes a \<subseteq> used_bytes a' \<and> (\<forall>x \<in> used_bytes a. m' x = m x)
    \<and> (\<not> args_valid t r \<longrightarrow> p = 0 \<and> a' = a \<and> m' = m)
    \<and> (p \<noteq> 0 \<longrightarrow> token_at m' p (view_of r) \<and> token_foot m' p (view_of r) \<subseteq> used_bytes a' - used_bytes a)"
  using token_create_outcome [OF assms, of t m] by (auto simp: token_created_def)

lemma token_create_correct_witness:
  "\<exists>p a' m'. token_data_create_ex dry_system 0 (Some first_arena) demo_args (\<lambda>_. 7) = Some (p, Some a', m')
    \<and> p \<noteq> 0 \<and> token_at m' p (view_of demo_args)"
  using token_create_correct [OF demo_facts(1-4), of 0 "\<lambda>_. 7"] demo_create by auto

text \<open>C33:
  Valid parameters always give a token when the current chunk has room for its parts, each rounded up to
  eight bytes, whatever the system answers; it takes exactly that from the chunk, and the rest of the
  room is left.
\<close>

theorem token_create_succeeds:
  assumes "arena_inv a" and "\<not> locked a" and "arena_room a (k + token_need r)"
    and "args_ok r" and "args_valid t r" and "fields_short (string_fields r)"
  shows "\<exists>p a' m'. token_data_create_ex sys t (Some a) r m = Some (p, Some a', m') \<and> p \<noteq> 0 \<and> arena_room a' k
    \<and> chunk_count a' = chunk_count a \<and> total_used a' = total_used a + of_nat (token_need r)"
  using token_create_room [of "(chunk_count a, total_used a + of_nat (k + token_need r))" k r a m t sys] assms
  by (auto simp: usable_def)

lemma token_create_succeeds_witness:
  "\<exists>p a' m'. token_data_create_ex dry_system 0 (Some first_arena) demo_args (\<lambda>_. 7) = Some (p, Some a', m') \<and> p \<noteq> 0"
  using token_create_succeeds [OF demo_facts(2,3,8,4,5,6), of dry_system "\<lambda>_. 7"] by blast

text \<open>C32:
  A token that a creation returned passes \<open>token_validate\<close> exactly until it expires, and
  \<open>token_has_authority\<close> finds exactly the authorities it was given.
\<close>

theorem token_created_valid:
  assumes "arena_system_ok sys" and "arena_inv a" and "\<not> locked a" and "args_ok r"
    and "token_data_create_ex sys t (Some a) r m = Some (p, Some a', m')" and "p \<noteq> 0"
  shows "token_validate t' m' p = Some (t' \<le> sint (arg_expires_at r))
    \<and> token_has_authority m' p (Some s) = Some (s \<in> set (auth_list r))"
proof -
  have valid: "args_valid t r" using token_create_outcome [OF assms(1-4), of t m] assms(5,6) by auto
  then have "v_id (view_of r) \<noteq> []" "0 < sint (arg_issued_at r)" "sint (arg_issued_at r) < sint (arg_expires_at r)"
    unfolding args_valid_def by (elim conjE exE, simp add: view_of_def)+
  moreover have "\<forall>s \<in> set (v_authorities (view_of r)). s \<noteq> []"
    using auth_list_nonempty [OF assms(4) valid] by (simp add: view_of_def)
  moreover have "v_issued_at (view_of r) = arg_issued_at r" "v_expires_at (view_of r) = arg_expires_at r"
    by (simp_all add: view_of_def)
  ultimately have "view_valid t' (view_of r) \<longleftrightarrow> t' \<le> sint (arg_expires_at r)" by (simp add: view_valid_def)
  moreover have "token_at m' p (view_of r)"
    using token_create_facts [OF assms(1-5)] assms(6) by (simp add: token_created_def)
  ultimately show ?thesis using token_queries [of m' p "view_of r"] by (simp add: view_of_def)
qed

lemma token_created_valid_witness:
  "\<exists>p a' m'. token_data_create_ex dry_system 0 (Some first_arena) demo_args (\<lambda>_. 7) = Some (p, Some a', m')
    \<and> token_validate 200 m' p = Some True \<and> token_validate 201 m' p = Some False
    \<and> token_has_authority m' p (Some ''ADMIN'') = Some True \<and> token_has_authority m' p (Some ''ROOT'') = Some False"
proof -
  obtain p a' m' where p: "token_data_create_ex dry_system 0 (Some first_arena) demo_args (\<lambda>_. 7) = Some (p, Some a', m')"
    "p \<noteq> 0"
    using demo_create by blast
  note valid = token_created_valid [OF demo_facts(1-4) p]
  have "sint (arg_expires_at demo_args) = 200" by (simp add: demo_args_def)
  then show ?thesis using p(1) valid [of 200 "''ADMIN''"] valid [of 201 "''ROOT''"]
    by (intro exI [of _ p] exI [of _ a'] exI [of _ m']) (simp add: demo_facts(7))
qed

text \<open>C12:
  After any run of creations, failed ones included, every token created in it still reads back as its
  parameters, and no two of them share a byte.
\<close>

theorem token_run_persists:
  assumes "token_run (a, m) ts (a', m')" and "arena_inv a" and "\<not> locked a"
  shows "(\<forall>(p, v) \<in> set ts. token_at m' p v \<and> token_foot m' p v \<subseteq> used_bytes a')
    \<and> sorted_wrt (\<lambda>(p, v) (q, u). token_foot m' p v \<inter> token_foot m' q u = {}) ts \<and> arena_inv a'"
  using token_run_facts [OF assms(1)] assms(2,3) by (auto simp: tokens_in_def foot_def case_prod_unfold)

lemma token_run_persists_witness:
  "\<exists>p q a' m'. token_run (first_arena, \<lambda>_. 7) [(p, view_of demo_args), (q, view_of demo_args)] (a', m')
    \<and> token_at m' p (view_of demo_args) \<and> token_foot m' p (view_of demo_args) \<inter> token_foot m' q (view_of demo_args) = {}"
proof -
  obtain p a1 m1 where 1: "token_data_create_ex dry_system 0 (Some first_arena) demo_args (\<lambda>_. 7) = Some (p, Some a1, m1)"
    "p \<noteq> 0"
    and room: "usable (1, total_used first_arena + of_nat (1000 + token_need demo_args + token_need demo_args))
      (1000 + token_need demo_args) (a1, m1)"
    using demo_create by blast
  obtain q a2 m2 where 2: "token_data_create_ex dry_system 0 (Some a1) demo_args m1 = Some (q, Some a2, m2)" "q \<noteq> 0"
    using token_create_room [OF room demo_facts(4,5,6), of dry_system] by blast
  have run: "token_run (first_arena, \<lambda>_. 7) [(p, view_of demo_args), (q, view_of demo_args)] (a2, m2)"
    by (rule tokens_made [OF demo_facts(1,4) 1(1,2) tokens_made [OF demo_facts(1,4) 2 tokens_done]])
  from token_run_persists [OF run demo_facts(2,3)] run show ?thesis by auto
qed

end
