(* ===== verification/Token_Demo.thy ===== *)
theory Token_Demo
  imports Token_Store
begin

text \<open>
  The example program of the arena and the tokens (\<^verbatim>\<open>tokens/core/example.c\<close>, from \<^verbatim>\<open>Test Scenarios\<close>
  on): its five scenarios and \<^verbatim>\<open>main\<close>, on the world of theory \<open>Token\<close>.

  \<^item> What a scenario prints are values of \<open>report\<close>; \<open>Rejected n k\<close> is the line of test \<open>n.k\<close>. The
    constants that \<^verbatim>\<open>main\<close> prints first, headings and timings are left out.
  \<^item> \<open>demo_times\<close> holds what the calls of \<^verbatim>\<open>time(NULL)\<close> return that matter. \<open>None\<close>: the program does not
    return.
\<close>

section \<open>Calls\<close>

datatype report =
    Created string string u64 | Creation_Failed | Token_Passed | Is_Admin
  | Rejected nat nat
  | Stopped_After nat | Boundaries_Done
  | Not_Created nat | Made_Ten u64 u64 u64 | After_Cleanup u64 | After_Reset u64 u64 | Operations_Done
  | Perf_Failed nat | Perf_Done
  | Init_Failed | Initialised | Final_Statistics u64 u64 u64 | Null_Destroyed | Arena_Destroyed

record demo_times =
  t_create :: int
  t_check :: int
  t_errors :: int
  t_expiry :: int
  t_bounds :: int
  t_ops :: int
  t_perf :: int

text \<open>The arguments most calls share: no authorities, no device hash, no address.\<close>

definition plain_args :: "string option \<Rightarrow> string \<Rightarrow> int \<Rightarrow> int \<Rightarrow> token_args" where
  "plain_args tid username issued expires =
     \<lparr>arg_id = tid, arg_user_id = Some ''user'', arg_username = Some username, arg_authorities = None,
      arg_auth_count = 0, arg_device_hash = None, arg_issued_at = of_int issued,
      arg_expires_at = of_int expires, arg_client_ip = None, arg_check_expiration = False\<rparr>"

definition demo_create :: "arena_system \<Rightarrow> int \<Rightarrow> token_args \<Rightarrow> world \<Rightarrow> (u64 \<times> world) option" where
  "demo_create sys t r w =
     (case token_data_create_ex sys t (Some (fst w)) r (snd w) of
        Some (p, Some a, m) \<Rightarrow> Some (p, (a, m))
      | _ \<Rightarrow> None)"

definition demo_reset :: "arena_system \<Rightarrow> world \<Rightarrow> world option" where
  "demo_reset sys w =
     (case arena_reset (sys (fst w)) (Some (fst w)) of
        Some (Some a) \<Rightarrow> Some (a, snd w)
      | _ \<Rightarrow> None)"

definition demo_cleanup :: "arena_system \<Rightarrow> int \<Rightarrow> world \<Rightarrow> world option" where
  "demo_cleanup sys max_age w =
     (case arena_cleanup_old (sys (fst w)) (Some (fst w)) max_age of
        Some (Some a) \<Rightarrow> Some (a, snd w)
      | _ \<Rightarrow> None)"

section \<open>The scenarios\<close>

definition creation_args :: "int \<Rightarrow> token_args" where
  "creation_args t =
     \<lparr>arg_id = Some ''test_token_123'', arg_user_id = Some ''user_456'', arg_username = Some ''john_doe'',
      arg_authorities = Some [Some ''ROLE_USER'', Some ''ROLE_ADMIN'', Some ''ROLE_MODERATOR''],
      arg_auth_count = 3, arg_device_hash = Some ''device_hash_xyz'', arg_issued_at = of_int t,
      arg_expires_at = of_int (t + 7200), arg_client_ip = Some ''192.168.1.1'',
      arg_check_expiration = False\<rparr>"

definition test_successful_creation ::
    "arena_system \<Rightarrow> demo_times \<Rightarrow> world \<Rightarrow> (report list \<times> world) option" where
  "test_successful_creation sys ts w =
     (case demo_create sys (t_create ts) (creation_args (t_create ts)) w of
        None \<Rightarrow> None
      | Some (p, (a, m)) \<Rightarrow>
          if p = 0 then Some ([Creation_Failed], (a, m))
          else
            (case (c_string_at m (unat (load_op m (field_at p 0))),
                   c_string_at m (unat (load_op m (field_at p 2))),
                   token_validate (t_check ts) m p, token_has_authority m p (Some ''ROLE_ADMIN'')) of
               (Some tid, Some username, Some valid, Some admin) \<Rightarrow>
                 Some ([Created tid username (load_op m (field_at p 4))]
                         @ (if valid then [Token_Passed] else []) @ (if admin then [Is_Admin] else []),
                       (a, m))
             | _ \<Rightarrow> None))"

text \<open>A call that is expected to return NULL; the line is printed when it does.\<close>

definition expect_null ::
    "arena_system \<Rightarrow> int \<Rightarrow> report \<Rightarrow> token_args \<Rightarrow> report list \<times> world \<Rightarrow> (report list \<times> world) option" where
  "expect_null sys t line r ew =
     (case demo_create sys t r (snd ew) of
        None \<Rightarrow> None
      | Some (p, w) \<Rightarrow> Some (if p = 0 then fst ew @ [line] else fst ew, w))"

fun expect_nulls ::
    "arena_system \<Rightarrow> int \<Rightarrow> (report \<times> token_args) list \<Rightarrow> report list \<times> world \<Rightarrow> (report list \<times> world) option" where
  "expect_nulls sys t [] ew = Some ew"
| "expect_nulls sys t ((line, r) # cs) ew =
     (case expect_null sys t line r ew of
        None \<Rightarrow> None
      | Some ew' \<Rightarrow> expect_nulls sys t cs ew')"

text \<open>Tests 2.2 to 2.7.\<close>

definition error_cases :: "int \<Rightarrow> (report \<times> token_args) list" where
  "error_cases t =
     [(Rejected 2 2, plain_args None ''name'' t (t + 3600)),
      (Rejected 2 3, plain_args (Some '''') ''name'' t (t + 3600)),
      (Rejected 2 4, plain_args (Some ''id'') ''name'' (t + 100) t),
      (Rejected 2 5, (plain_args (Some ''id'') ''name'' t (t + 3600))
         \<lparr>arg_authorities := Some (replicate 150 (Some ''ROLE'')), arg_auth_count := 150\<rparr>),
      (Rejected 2 6, (plain_args (Some ''id'') ''name'' t (t + 3600))\<lparr>arg_auth_count := 5\<rparr>),
      (Rejected 2 7, (plain_args (Some ''id'') ''name'' (t - 7200) (t - 3600))\<lparr>arg_check_expiration := True\<rparr>)]"

definition test_error_cases ::
    "arena_system \<Rightarrow> demo_times \<Rightarrow> world \<Rightarrow> (report list \<times> world) option" where
  "test_error_cases sys ts w =
     (let t = t_errors ts in
      case token_data_create_ex sys (t_expiry ts) None (plain_args (Some ''id'') ''name'' t (t + 3600)) (snd w) of
        None \<Rightarrow> None
      | Some (p, _, m) \<Rightarrow>
          expect_nulls sys (t_expiry ts) (error_cases t) (if p = 0 then [Rejected 2 1] else [], (fst w, m)))"

text \<open>
  The loops that create tokens numbered from \<open>i\<close> on, at most \<open>n\<close> of them: up to the first failure, with
  the number made; or all of them, with the numbers that failed.
\<close>

fun create_until ::
    "arena_system \<Rightarrow> int \<Rightarrow> string \<Rightarrow> nat \<Rightarrow> nat \<Rightarrow> world \<Rightarrow> (bool \<times> nat \<times> world) option" where
  "create_until sys t prefix i 0 w = Some (True, i, w)"
| "create_until sys t prefix i (Suc n) w =
     (case demo_create sys t (plain_args (Some (prefix @ dec_digits i)) ''name'' t (t + 3600)) w of
        None \<Rightarrow> None
      | Some (p, w') \<Rightarrow>
          if p = 0 then Some (False, i, w') else create_until sys t prefix (Suc i) n w')"

fun create_each ::
    "arena_system \<Rightarrow> int \<Rightarrow> string \<Rightarrow> nat \<Rightarrow> nat \<Rightarrow> world \<Rightarrow> (nat list \<times> world) option" where
  "create_each sys t prefix i 0 w = Some ([], w)"
| "create_each sys t prefix i (Suc n) w =
     (case demo_create sys t (plain_args (Some (prefix @ dec_digits i)) ''name'' t (t + 3600)) w of
        None \<Rightarrow> None
      | Some (p, w') \<Rightarrow>
          map_option (\<lambda>(failed, w''). (if p = 0 then i # failed else failed, w''))
            (create_each sys t prefix (Suc i) n w'))"

definition long_args :: "int \<Rightarrow> token_args" where
  "long_args t = plain_args (Some (replicate 299 CHR ''A'')) (replicate 299 CHR ''B'') t (t + 3600)"

definition test_memory_boundaries ::
    "arena_system \<Rightarrow> demo_times \<Rightarrow> world \<Rightarrow> (report list \<times> world) option" where
  "test_memory_boundaries sys ts w =
     (let t = t_bounds ts in
      case expect_null sys t (Rejected 3 1) (long_args t) ([], w) of
        None \<Rightarrow> None
      | Some (es, w1) \<Rightarrow>
          (case create_until sys t ''token_'' 0 1000 w1 of
             None \<Rightarrow> None
           | Some (all_made, k, w2) \<Rightarrow>
               map_option (\<lambda>w3. (es @ (if all_made then [] else [Stopped_After k]) @ [Boundaries_Done], w3))
                 (demo_reset sys w2)))"

definition test_arena_operations ::
    "arena_system \<Rightarrow> demo_times \<Rightarrow> world \<Rightarrow> (report list \<times> world) option" where
  "test_arena_operations sys ts w =
     (case create_each sys (t_ops ts) ''op_token_'' 0 10 w of
        None \<Rightarrow> None
      | Some (failed, w1) \<Rightarrow>
          (case demo_cleanup sys 0 w1 of
             None \<Rightarrow> None
           | Some w2 \<Rightarrow>
               map_option (\<lambda>w3. (map Not_Created failed
                   @ [Made_Ten (arena_get_total_used (Some (fst w1))) (arena_get_total_allocated (Some (fst w1)))
                        (arena_get_chunk_count (Some (fst w1))),
                      After_Cleanup (arena_get_chunk_count (Some (fst w2))),
                      After_Reset (arena_get_total_used (Some (fst w3))) (arena_get_chunk_count (Some (fst w3))),
                      Operations_Done], w3))
                 (demo_reset sys w2)))"

definition test_performance ::
    "arena_system \<Rightarrow> demo_times \<Rightarrow> world \<Rightarrow> (report list \<times> world) option" where
  "test_performance sys ts w =
     (case create_until sys (t_perf ts) ''perf_token_'' 0 10000 w of
        None \<Rightarrow> None
      | Some (all_made, k, w1) \<Rightarrow>
          map_option (\<lambda>w2. ((if all_made then [] else [Perf_Failed k]) @ [Perf_Done], w2))
            (demo_reset sys w1))"

text \<open>
  The second half of \<^verbatim>\<open>test_performance\<close>, the comparison with \<^verbatim>\<open>malloc\<close>, as calls on the heap. The
  outcomes of the allocations of a round are given by its number.
\<close>

datatype heap_call = Take_Token | Take_Id | Free_Id | Free_Token

definition malloc_round :: "bool \<times> bool \<Rightarrow> heap_call list" where
  "malloc_round ok =
     (if fst ok then [Take_Token] @ (if snd ok then [Take_Id, Free_Id] else []) @ [Free_Token] else [])"

definition malloc_rounds :: "(nat \<Rightarrow> bool \<times> bool) \<Rightarrow> heap_call list" where
  "malloc_rounds ok = concat (map (\<lambda>i. malloc_round (ok i)) [0..<10000])"

section \<open>The program\<close>

text \<open>Two steps of the program in a row, their lines joined.\<close>

definition then_run ::
    "(world \<Rightarrow> (report list \<times> world) option) \<Rightarrow> report list \<times> world \<Rightarrow> (report list \<times> world) option" where
  "then_run f ew = map_option (\<lambda>(es, w). (fst ew @ es, w)) (f (snd ew))"

definition run_reset :: "arena_system \<Rightarrow> world \<Rightarrow> (report list \<times> world) option" where
  "run_reset sys w = map_option (\<lambda>w'. ([], w')) (demo_reset sys w)"

text \<open>The result is the exit code, the lines and the calls that give memory back.\<close>

definition example_main ::
    "arena_os \<Rightarrow> arena_system \<Rightarrow> demo_times \<Rightarrow> mem \<Rightarrow> (int \<times> report list \<times> mem_call list) option" where
  "example_main os sys ts m =
     (case arena_init os of
        None \<Rightarrow> Some (1, [Init_Failed], [])
      | Some a \<Rightarrow>
          Option.bind (then_run (test_successful_creation sys ts) ([Initialised], (a, m))) (\<lambda>ew.
          Option.bind (then_run (test_error_cases sys ts) ew) (\<lambda>ew.
          Option.bind (then_run (test_memory_boundaries sys ts) ew) (\<lambda>ew.
          Option.bind (then_run (run_reset sys) ew) (\<lambda>ew.
          Option.bind (then_run (test_arena_operations sys ts) ew) (\<lambda>ew.
          Option.bind (then_run (run_reset sys) ew) (\<lambda>ew.
          Option.bind (then_run (test_performance sys ts) ew) (\<lambda>(es, w).
          Option.bind (arena_destroy None) (\<lambda>none.
          map_option (\<lambda>unmapped. (0,
              es @ [Final_Statistics (arena_get_total_allocated (Some (fst w))) (arena_get_total_used (Some (fst w)))
                      (arena_get_chunk_count (Some (fst w))), Null_Destroyed, Arena_Destroyed],
              none @ unmapped))
            (arena_destroy (Some (fst w))))))))))))"

end
