(* ===== verification/Token_Demo_Correct.thy ===== *)
theory Token_Demo_Correct
  imports Token_Demo
begin

text \<open>
  The example program of the tokens always ends, rejects every wrong call, and makes its tokens when the
  system gives memory.
\<close>

section \<open>Big chunks\<close>

text \<open>A creation moves the arena by allocations only.\<close>

definition alloc_step :: "arena_system \<Rightarrow> arena_memory \<Rightarrow> arena_memory \<Rightarrow> bool" where
  "alloc_step sys a a' = (\<exists>sz r. arena_alloc (sys a) (Some a) sz = Some (r, Some a'))"

abbreviation alloc_steps :: "arena_system \<Rightarrow> arena_memory \<Rightarrow> arena_memory \<Rightarrow> bool" where
  "alloc_steps sys \<equiv> rtranclp (alloc_step sys)"

lemma token_alloc_steps: "token_alloc sys sz w = Some (q, w') \<Longrightarrow> alloc_steps sys (fst w) (fst w')"
  unfolding token_alloc_def alloc_step_def
  by (intro r_into_rtranclp) (cases "arena_alloc (sys (fst w)) (Some (fst w)) sz"; force split: option.splits prod.splits)

lemma alloc_fields_steps: "alloc_fields sys p fs w = Some (b, w') \<Longrightarrow> alloc_steps sys (fst w) (fst w')"
proof (induction sys p fs w rule: alloc_fields.induct)
  case (3 sys p i s fs w)
  then show ?case
    by (fastforce simp: Let_def split: option.splits prod.splits if_splits
        dest: token_alloc_steps intro: rtranclp_trans)
qed auto

lemma alloc_authorities_steps:
  "alloc_authorities sys p i n as w = Some (b, w') \<Longrightarrow> alloc_steps sys (fst w) (fst w')"
proof (induction sys p i n as w rule: alloc_authorities.induct)
  case (2 sys p i n s as w)
  then show ?case
    by (fastforce simp: Let_def split: option.splits prod.splits if_splits
        dest: token_alloc_steps intro: rtranclp_trans)
qed auto

lemma token_authorities_steps:
  "token_authorities sys p r w = Some (b, w') \<Longrightarrow> alloc_steps sys (fst w) (fst w')"
  by (fastforce simp: token_authorities_def Let_def split: option.splits prod.splits if_splits
      dest: token_alloc_steps alloc_authorities_steps intro: rtranclp_trans)

lemma create_token_steps: "create_token sys r w = Some (p, w') \<Longrightarrow> alloc_steps sys (fst w) (fst w')"
  by (fastforce simp: create_token_def split: option.splits prod.splits if_splits bool.splits
      dest: token_alloc_steps alloc_fields_steps token_authorities_steps intro: rtranclp_trans)

lemma demo_create_steps: "demo_create sys t r w = Some (p, w') \<Longrightarrow> alloc_steps sys (fst w) (fst w')"
  by (auto simp: demo_create_def token_data_create_ex_def split: option.splits bool.splits
      dest: create_token_steps)

text \<open>Chunks of at least 64 KiB, not at address 0, and a current one.\<close>

definition big :: "arena_chunk \<Rightarrow> bool" where
  "big c = (chunk_memory c \<noteq> 0 \<and> 65536 \<le> unat (chunk_size c))"

definition all_big :: "arena_memory \<Rightarrow> bool" where
  "all_big a = (\<forall>c \<in> set (arena_chunks a). big c)"

definition no_null :: "arena_system \<Rightarrow> bool" where
  "no_null sys = (\<forall>a len. mmap_result (sys a) len \<noteq> Some 0)"

lemma carve_big:
  assumes "big c" and "\<forall>d \<in> set (old_chunks a). big d" and "carve sz c a = (r, a')"
  shows "all_big a'" and "current a' \<noteq> None"
  using assms by (auto simp: carve_def Let_def all_big_def arena_chunks_def big_def split: if_splits)

lemma retire_big: "all_big a \<Longrightarrow> \<forall>d \<in> set (old_chunks (retire_current a)). big d"
  by (auto simp: retire_current_def all_big_def arena_chunks_def split: option.splits)

lemma alloc_locked_big:
  assumes "all_big a" and "arena_alloc_locked os a sz = Some (r, a')" and "mmap_ok os b"
    and "\<And>len. mmap_result os len \<noteq> Some 0" and "unat sz \<le> 1048576 + 8"
  shows "all_big a'" and "current a \<noteq> None \<or> r \<noteq> None \<Longrightarrow> current a' \<noteq> None"
proof -
  have "all_big a' \<and> (current a \<noteq> None \<or> r \<noteq> None \<longrightarrow> current a' \<noteq> None)"
  proof (cases "needs_chunk sz a")
    case False
    then obtain c where c: "current a = Some c" by (auto simp: needs_chunk_def split: option.splits)
    have "carve sz c a = (r, a')" using False assms(2) c by (simp add: arena_alloc_locked_def)
    moreover have "big c" "\<forall>d \<in> set (old_chunks a). big d"
      using assms(1) c by (simp_all add: all_big_def arena_chunks_def)
    ultimately show ?thesis using carve_big by blast
  next
    case need: True
    show ?thesis
    proof (cases "take_suitable sz (old_chunks a)")
      case (Some cr)
      then obtain c rest where cr: "take_suitable sz (old_chunks a) = Some (c, rest)" by (cases cr) auto
      have carve: "carve sz c (retire_current (a\<lparr>old_chunks := rest\<rparr>)) = (r, a')"
        using need cr assms(2) by (simp add: arena_alloc_locked_def)
      have "set (arena_chunks (a\<lparr>old_chunks := rest\<rparr>)) \<subseteq> set (arena_chunks a)" "c \<in> set (arena_chunks a)"
        using take_suitable_split [OF cr] by (auto simp: arena_chunks_def)
      then have "all_big (a\<lparr>old_chunks := rest\<rparr>)" "big c" using assms(1) by (auto simp: all_big_def)
      then show ?thesis using carve_big [OF _ retire_big carve] by blast
    next
      case None
      obtain n where n: "arena_calculate_new_chunk_size sz = Some n" "65536 \<le> unat n" "unat n \<le> 2097152"
        using assms(5) by (rule calc_chunk_size)
      show ?thesis
      proof (cases "arena_chunk_create os n")
        case None
        then have "r = None" "a' = a\<lparr>locked := False\<rparr>"
          using need \<open>take_suitable sz (old_chunks a) = None\<close> n(1) assms(2) by (simp_all add: arena_alloc_locked_def)
        then show ?thesis using assms(1) by (simp add: all_big_def arena_chunks_def)
      next
        case (Some c)
        define am where "am = a\<lparr>mem_calls := mem_calls a @ [Mem_Map (chunk_memory c) (chunk_size c)]\<rparr>"
        define b1 where "b1 = retire_current am"
        have carve: "carve sz c (b1\<lparr>total_allocated := total_allocated b1 + chunk_size c,
            chunk_count := chunk_count b1 + 1\<rparr>) = (r, a')"
          using need \<open>take_suitable sz (old_chunks a) = None\<close> n(1) Some assms(2)
          by (simp add: arena_alloc_locked_def b1_def am_def Let_def)
        have "chunk_memory c \<noteq> 0"
          using Some assms(4) by (auto simp: arena_chunk_create_def Let_def split: if_splits option.splits)
        then have "big c" using chunk_create_ok(3) [OF assms(3) Some n(2,3)] n(2) by (simp add: big_def)
        moreover have "arena_chunks am = arena_chunks a" by (simp add: am_def arena_chunks_def)
        then have "\<forall>d \<in> set (old_chunks b1). big d"
          using retire_big [of am] assms(1) by (simp only: b1_def all_big_def)
        ultimately show ?thesis using carve_big [OF _ _ carve] by simp
      qed
    qed
  qed
  then show "all_big a'" and "current a \<noteq> None \<or> r \<noteq> None \<Longrightarrow> current a' \<noteq> None" by blast+
qed

lemma arena_alloc_big:
  assumes "all_big a" and "arena_alloc os (Some a) sz = Some (r, Some a')" and "mmap_ok os b"
    and "\<And>len. mmap_result os len \<noteq> Some 0"
  shows "all_big a'" and "current a \<noteq> None \<or> r \<noteq> None \<Longrightarrow> current a' \<noteq> None"
proof -
  have "all_big a' \<and> (current a \<noteq> None \<or> r \<noteq> None \<longrightarrow> current a' \<noteq> None)"
  proof (cases "sz = 0 \<or> sz > get_arena_max_alloc_size")
    case True
    then have "a' = a" "r = None" using assms(2) by (auto simp: arena_alloc_def simp del: arena_constants split: if_splits)
    then show ?thesis using assms(1) by simp
  next
    case False
    then have nz: "sz \<noteq> 0" "\<not> sz > get_arena_max_alloc_size" by simp_all
    have start: "all_big (a\<lparr>locked := True\<rparr>)" using assms(1) by (simp add: all_big_def arena_chunks_def)
    have "arena_alloc_locked os (a\<lparr>locked := True\<rparr>) (arena_align_size sz) = Some (r, a')"
      using nz assms(2) by (auto simp: arena_alloc_def simp del: arena_constants split: if_splits)
    from alloc_locked_big [OF start this assms(3,4)] align_small(3) [OF nz] show ?thesis by simp
  qed
  then show "all_big a'" and "current a \<noteq> None \<or> r \<noteq> None \<Longrightarrow> current a' \<noteq> None" by blast+
qed

definition clean :: "arena_memory \<Rightarrow> bool" where
  "clean a = (arena_inv a \<and> \<not> locked a \<and> all_big a)"

definition solid :: "arena_memory \<Rightarrow> bool" where
  "solid a = (clean a \<and> current a \<noteq> None)"

lemma clean_alloc:
  assumes "arena_system_ok sys" and "no_null sys" and "clean a" and "arena_alloc (sys a) (Some a) sz = Some (r, Some a')"
  shows "clean a'" and "current a \<noteq> None \<or> r \<noteq> None \<Longrightarrow> solid a'"
proof -
  have os: "mmap_ok (sys a) a" using assms(1,3) by (simp add: arena_system_ok_def clean_def)
  have "arena_inv a'" "\<not> locked a'" using arena_alloc_outcome [of a "sys a" sz] assms(3,4) os by (auto simp: clean_def)
  then show "clean a'" and "current a \<noteq> None \<or> r \<noteq> None \<Longrightarrow> solid a'"
    using arena_alloc_big [OF _ assms(4) os] assms(2,3) by (auto simp: clean_def solid_def no_null_def)
qed

lemma clean_steps:
  "alloc_steps sys a a' \<Longrightarrow> arena_system_ok sys \<Longrightarrow> no_null sys \<Longrightarrow> clean a \<Longrightarrow> clean a'"
  by (induction rule: rtranclp_induct) (auto simp: alloc_step_def dest: clean_alloc(1))

lemma solid_steps:
  "alloc_steps sys a a' \<Longrightarrow> arena_system_ok sys \<Longrightarrow> no_null sys \<Longrightarrow> solid a \<Longrightarrow> solid a'"
proof (induction rule: rtranclp_induct)
  case (step b c)
  then show ?case using clean_alloc(2) [of sys b] by (auto simp: alloc_step_def solid_def)
qed

section \<open>Single calls\<close>

definition sound :: "world \<Rightarrow> bool" where
  "sound w = (arena_inv (fst w) \<and> \<not> locked (fst w))"

definition demo_system :: "arena_system \<Rightarrow> bool" where
  "demo_system sys = (arena_system_ok sys \<and> no_null sys)"

lemma demo_create_sound:
  assumes "demo_system sys" and "sound w" and "args_ok r"
  shows "\<exists>p w'. demo_create sys t r w = Some (p, w') \<and> sound w' \<and> (solid (fst w) \<longrightarrow> solid (fst w'))
    \<and> (\<not> args_valid t r \<longrightarrow> p = 0 \<and> w' = w) \<and> token_created r w p w'"
proof -
  obtain p a' m' where "token_data_create_ex sys t (Some (fst w)) r (snd w) = Some (p, Some a', m')"
    and created: "token_created r w p (a', m')" and keep: "\<not> args_valid t r \<longrightarrow> p = 0 \<and> (a', m') = w"
    using token_create_outcome [of sys "fst w" r t "snd w"] assms
    by (cases w) (auto simp: sound_def demo_system_def)
  then have call: "demo_create sys t r w = Some (p, (a', m'))" by (simp add: demo_create_def)
  have "solid (fst w) \<longrightarrow> solid a'"
    using demo_create_steps [OF call] solid_steps assms(1) by (auto simp: demo_system_def)
  then show ?thesis using call created keep by (auto simp: token_created_def sound_def)
qed

lemma demo_create_invalid:
  assumes "demo_system sys" and "sound w" and "args_ok r" and "\<not> args_valid t r"
  shows "demo_create sys t r w = Some (0, w)"
  using demo_create_sound [OF assms(1-3), of t] assms(4) by auto

lemma demo_create_room:
  assumes "usable B (k + token_need r) w" and "args_ok r" and "args_valid t r" and "fields_short (string_fields r)"
  shows "\<exists>p w'. demo_create sys t r w = Some (p, w') \<and> p \<noteq> 0 \<and> usable B k w'"
  using token_create_room [of B k r "fst w" "snd w" t sys] assms by (auto simp: demo_create_def)

lemma expect_null_invalid:
  assumes "demo_system sys" and "sound w" and "args_ok r" and "\<not> args_valid t r"
  shows "expect_null sys t line r (es, w) = Some (es @ [line], w)"
  using demo_create_invalid [OF assms] by (simp add: expect_null_def)

text \<open>The arguments of the program.\<close>

lemma string_ok_short: "is_cstr s \<Longrightarrow> length s < 1000 \<Longrightarrow> string_ok s"
  by (simp add: string_ok_def)

lemma sint_of_int_small: "- (2 ^ 63) \<le> t \<Longrightarrow> t < 2 ^ 63 \<Longrightarrow> sint (of_int t :: u64) = t"
  by (simp add: signed_of_int signed_take_bit_int_eq_self)

lemma plain_args_ok:
  assumes "\<And>s. tid = Some s \<Longrightarrow> is_cstr s \<and> length s < 1000" and "is_cstr name" and "length name < 1000"
  shows "args_ok (plain_args tid name i e)" and "fields_short (string_fields (plain_args tid name i e))"
proof -
  have "string_ok s" if "tid = Some s" for s using assms(1) [OF that] by (simp add: string_ok_short)
  moreover have "string_ok name" "string_ok ''user''"
    using assms(2,3) by (simp_all add: string_ok_short is_cstr_def)
  ultimately show "args_ok (plain_args tid name i e)"
    by (auto simp: args_ok_def plain_args_def fields_ok_def string_fields_def)
  show "fields_short (string_fields (plain_args tid name i e))"
    using assms by (fastforce simp: fields_short_def string_fields_def plain_args_def)
qed

lemma plain_args_valid:
  assumes "0 < i" and "i < e" and "e < 2 ^ 63" and "length name \<le> 256"
  shows "args_valid t (plain_args (Some s) name i e) \<longleftrightarrow> s \<noteq> [] \<and> length s \<le> 256"
  using assms by (auto simp: args_valid_def plain_args_def sint_of_int_small)

text \<open>Numbered identifiers.\<close>

lemma numbered_args:
  assumes "is_cstr prefix" and "prefix \<noteq> []" and "length prefix \<le> 20" and "i < 10 ^ 4" and "0 < t" and "t + 7200 < 2 ^ 63"
  defines "r \<equiv> plain_args (Some (prefix @ dec_digits i)) ''name'' t (t + 3600)"
  shows "args_ok r" and "args_valid t' r" and "fields_short (string_fields r)"
    and "length prefix \<le> 11 \<Longrightarrow> token_need r \<le> 104"
    and "length prefix = 9 \<Longrightarrow> i < 10 \<Longrightarrow> token_need r = 104"
proof -
  have len: "length (dec_digits i) \<le> 4" by (rule length_dec_digits) (use assms(4) in simp_all)
  have str: "is_cstr (prefix @ dec_digits i)" "length (prefix @ dec_digits i) < 1000" "is_cstr ''name''"
    using assms(1,3) len is_cstr_dec_digits [of i] by (auto simp: is_cstr_def)
  then show "args_ok r" "fields_short (string_fields r)" unfolding r_def by (intro plain_args_ok; simp)+
  show "args_valid t' r"
    unfolding r_def by (subst plain_args_valid) (use assms(2,3,5,6) len in auto)
  have need: "token_need r = 72 + (length prefix + length (dec_digits i) + 8) div 8 * 8 + 16"
    by (simp add: r_def token_need_def auth_list_def fields_need_def string_fields_def plain_args_def str_need_def
        align8_def)
  show "token_need r \<le> 104" if "length prefix \<le> 11"
  proof -
    have "(length prefix + length (dec_digits i) + 8) div 8 \<le> 2" using that len by simp
    then show ?thesis by (simp add: need)
  qed
  show "token_need r = 104" if "length prefix = 9" and "i < 10"
  proof -
    have "length (dec_digits i) = 1" using that(2) by (simp add: dec_digits.simps)
    then show ?thesis using that(1) by (simp add: need)
  qed
qed

section \<open>The loops\<close>

lemma create_until_sound:
  assumes "demo_system sys" and "is_cstr prefix" and "prefix \<noteq> []" and "length prefix \<le> 20" and "0 < t"
    and "t + 7200 < 2 ^ 63"
  shows "sound w \<Longrightarrow> i + n \<le> 10 ^ 4 \<Longrightarrow> \<exists>k w'. create_until sys t prefix i n w = Some (k = i + n, k, w')
    \<and> i \<le> k \<and> k \<le> i + n \<and> sound w' \<and> (solid (fst w) \<longrightarrow> solid (fst w'))"
proof (induction n arbitrary: i w)
  case (Suc n)
  have i: "i < 10 ^ 4" using Suc.prems(2) by simp
  obtain p w' where p: "demo_create sys t (plain_args (Some (prefix @ dec_digits i)) ''name'' t (t + 3600)) w = Some (p, w')"
    "sound w'" "solid (fst w) \<longrightarrow> solid (fst w')"
    using demo_create_sound [OF assms(1) Suc.prems(1) numbered_args(1) [OF assms(2-4) i assms(5,6)], of t] by blast
  show ?case
  proof (cases "p = 0")
    case True
    then show ?thesis using p by auto
  next
    case False
    then show ?thesis using Suc.IH [of w' "Suc i"] Suc.prems(2) p by auto
  qed
qed auto

lemma create_until_split:
  "create_until sys t prefix i (a + b) w =
     (case create_until sys t prefix i a w of
        None \<Rightarrow> None
      | Some (ok, j, w') \<Rightarrow> if ok then create_until sys t prefix j b w' else Some (False, j, w'))"
  by (induction a arbitrary: i w) (auto split: option.split)

text \<open>Creations while there is room.\<close>

definition has_room :: "nat \<Rightarrow> world \<Rightarrow> bool" where
  "has_room k w = (sound w \<and> arena_room (fst w) k)"

lemma has_room_mono: "has_room k w \<Longrightarrow> j \<le> k \<Longrightarrow> has_room j w"
  by (auto simp: has_room_def arena_room_def split: option.splits)

lemma demo_create_has_room:
  assumes "has_room (k + token_need r) w" and "args_ok r" and "args_valid t r" and "fields_short (string_fields r)"
  shows "\<exists>p w'. demo_create sys t r w = Some (p, w') \<and> p \<noteq> 0 \<and> has_room k w'"
  using demo_create_room [of "(chunk_count (fst w), total_used (fst w) + of_nat (k + token_need r))" k r w t sys] assms
  by (auto simp: usable_def has_room_def sound_def)

lemma create_until_room:
  assumes "is_cstr prefix" and "prefix \<noteq> []" and "length prefix \<le> 11" and "0 < t" and "t + 7200 < 2 ^ 63"
  shows "has_room (104 * n) w \<Longrightarrow> i + n \<le> 10 ^ 4 \<Longrightarrow>
    \<exists>w'. create_until sys t prefix i n w = Some (True, i + n, w') \<and> has_room 0 w'"
proof (induction n arbitrary: i w)
  case 0
  then show ?case by (auto intro: has_room_mono)
next
  case (Suc n)
  define r where "r = plain_args (Some (prefix @ dec_digits i)) ''name'' t (t + 3600)"
  have i: "i < 10 ^ 4" "length prefix \<le> 20" using Suc.prems(2) assms(3) by auto
  note r = numbered_args [OF assms(1,2) i(2,1) assms(4,5), folded r_def]
  have "has_room (104 * n + token_need r) w" using r(4) [OF assms(3)] by (intro has_room_mono [OF Suc.prems(1)]) simp
  from demo_create_has_room [OF this r(1,2,3), of sys t] obtain p w' where
    "demo_create sys t r w = Some (p, w')" "p \<noteq> 0" "has_room (104 * n) w'" by blast
  then show ?case using Suc.IH [of w' "Suc i"] Suc.prems(2) by (auto simp: r_def)
qed

lemma create_each_sound:
  assumes "demo_system sys" and "is_cstr prefix" and "prefix \<noteq> []" and "length prefix \<le> 20" and "0 < t"
    and "t + 7200 < 2 ^ 63"
  shows "sound w \<Longrightarrow> i + n \<le> 10 ^ 4 \<Longrightarrow> \<exists>failed w'. create_each sys t prefix i n w = Some (failed, w')
    \<and> sound w' \<and> (solid (fst w) \<longrightarrow> solid (fst w'))"
proof (induction n arbitrary: i w)
  case (Suc n)
  have i: "i < 10 ^ 4" using Suc.prems(2) by simp
  obtain p w' where p: "demo_create sys t (plain_args (Some (prefix @ dec_digits i)) ''name'' t (t + 3600)) w = Some (p, w')"
    "sound w'" "solid (fst w) \<longrightarrow> solid (fst w')"
    using demo_create_sound [OF assms(1) Suc.prems(1) numbered_args(1) [OF assms(2-4) i assms(5,6)], of t] by blast
  obtain failed w'' where rest: "create_each sys t prefix (Suc i) n w' = Some (failed, w'')" "sound w''"
    "solid (fst w') \<longrightarrow> solid (fst w'')"
    using Suc.IH [OF p(2), of "Suc i"] Suc.prems(2) by auto
  then show ?case using p by (intro exI [of _ "if p = 0 then i # failed else failed"] exI [of _ w'']) simp
qed auto

lemma create_each_room:
  assumes "is_cstr prefix" and "length prefix = 9" and "0 < t" and "t + 7200 < 2 ^ 63"
  shows "usable B (k + 104 * n) w \<Longrightarrow> i + n \<le> 10 \<Longrightarrow>
    \<exists>w'. create_each sys t prefix i n w = Some ([], w') \<and> usable B k w'"
proof (induction n arbitrary: i w)
  case (Suc n)
  define r where "r = plain_args (Some (prefix @ dec_digits i)) ''name'' t (t + 3600)"
  have i: "i < 10 ^ 4" "i < 10" "prefix \<noteq> []" "length prefix \<le> 20" using Suc.prems(2) assms(2) by auto
  note r = numbered_args [OF assms(1) i(3,4,1) assms(3,4), folded r_def]
  have "usable B (k + 104 * n + token_need r) w"
    using Suc.prems(1) r(5) [OF assms(2) i(2)] by (simp add: add.assoc add.commute [of "104 * n"])
  from demo_create_room [OF this r(1,2,3), of sys t] obtain p w' where
    "demo_create sys t r w = Some (p, w')" "p \<noteq> 0" "usable B (k + 104 * n) w'" by blast
  then show ?case using Suc.IH [of w' "Suc i"] Suc.prems(2) by (auto simp: r_def)
qed auto

section \<open>The scenarios\<close>

definition times_ok :: "demo_times \<Rightarrow> bool" where
  "times_ok ts = ((\<forall>t \<in> {t_create ts, t_errors ts, t_bounds ts, t_ops ts, t_perf ts}. 0 < t \<and> t + 7200 < 2 ^ 63)
     \<and> t_check ts \<le> t_create ts + 7200 \<and> t_errors ts - 3600 < t_expiry ts)"

lemma expect_nulls_invalid:
  assumes "demo_system sys" and "sound w"
  shows "\<forall>x \<in> set cs. args_ok (snd x) \<and> \<not> args_valid t (snd x) \<Longrightarrow>
    expect_nulls sys t cs (es, w) = Some (es @ map fst cs, w)"
proof (induction cs arbitrary: es)
  case (Cons x cs)
  obtain line r where x: "x = (line, r)" by fastforce
  have "expect_null sys t line r (es, w) = Some (es @ [line], w)"
    using Cons.prems expect_null_invalid [OF assms] by (simp add: x)
  then show ?case using Cons x by simp
qed simp

lemma error_cases_invalid:
  assumes "0 < t" and "t + 7200 < 2 ^ 63" and "t - 3600 < t'" and "x \<in> set (error_cases t)"
  shows "args_ok (snd x) \<and> \<not> args_valid t' (snd x)"
proof -
  have plain: "args_ok (plain_args tid ''name'' i e)" if "tid \<in> {None, Some '''', Some ''id''}" for tid i e
    using that by (intro plain_args_ok(1)) (auto simp: is_cstr_def)
  have role: "string_ok ''ROLE''" by (rule string_ok_short) (simp_all add: is_cstr_def)
  consider (fields) "x \<in> set (take 2 (error_cases t))" | (times) "x = error_cases t ! 2"
    | (many) "x = error_cases t ! 3" | (missing) "x = error_cases t ! 4" | (expired) "x = error_cases t ! 5"
    using assms(4) by (auto simp: error_cases_def)
  then show ?thesis
  proof cases
    case fields
    then have "args_ok (snd x)" using plain by (auto simp: error_cases_def)
    moreover have "\<not> args_valid t' (snd x)" using fields by (auto simp: error_cases_def args_valid_def plain_args_def)
    ultimately show ?thesis by blast
  next
    case times
    have "sint (of_int (t + 100) :: u64) = t + 100" "sint (of_int t :: u64) = t"
      using assms(1,2) by (intro sint_of_int_small; simp)+
    then have "\<not> args_valid t' (snd x)" by (simp add: times error_cases_def args_valid_def plain_args_def)
    moreover have "args_ok (snd x)" using plain by (simp add: times error_cases_def)
    ultimately show ?thesis by blast
  next
    case many
    have ok: "args_ok (plain_args (Some ''id'') ''name'' t (t + 3600))" by (rule plain) simp
    have "args_ok (snd x)" using ok role by (simp add: many error_cases_def args_ok_def string_fields_def)
    then show ?thesis by (simp add: many error_cases_def args_valid_def)
  next
    case missing
    have ok: "args_ok (plain_args (Some ''id'') ''name'' t (t + 3600))" by (rule plain) simp
    then have "args_ok (snd x)" by (simp add: missing error_cases_def args_ok_def string_fields_def plain_args_def)
    then show ?thesis by (simp add: missing error_cases_def args_valid_def plain_args_def)
  next
    case expired
    have ok: "args_ok (plain_args (Some ''id'') ''name'' (t - 7200) (t - 3600))" by (rule plain) simp
    then have "args_ok (snd x)" by (simp add: expired error_cases_def args_ok_def string_fields_def)
    moreover have "\<not> args_valid t' (snd x)"
    proof
      assume valid: "args_valid t' (snd x)"
      then have v: "t' \<le> sint (of_int (t - 3600) :: u64)" "0 < sint (of_int (t - 7200) :: u64)"
        by (simp_all add: expired error_cases_def args_valid_def plain_args_def)
      have "sint (of_int (t - 3600) :: u64) = t - 3600"
        using assms(1,2) by (intro sint_of_int_small) simp_all
      then show False using v assms(3) by simp
    qed
    ultimately show ?thesis by blast
  qed
qed

lemma test_error_cases_ok:
  assumes "demo_system sys" and "sound w" and "times_ok ts"
  shows "test_error_cases sys ts w = Some (map (Rejected 2) [1..<8], w)"
proof -
  have "expect_nulls sys (t_expiry ts) (error_cases (t_errors ts)) ([Rejected 2 1], w)
      = Some ([Rejected 2 1] @ map fst (error_cases (t_errors ts)), w)"
    using assms(3) by (intro expect_nulls_invalid [OF assms(1,2)] ballI error_cases_invalid) (auto simp: times_ok_def)
  then show ?thesis
    by (simp add: test_error_cases_def token_data_create_ex_def) (simp add: error_cases_def upt_rec)
qed

text \<open>A reset leaves at most one chunk, empty.\<close>

lemma demo_reset_sound:
  assumes "sound w"
  shows "\<exists>w'. demo_reset sys w = Some w' \<and> sound w' \<and> old_chunks (fst w') = [] \<and> total_used (fst w') = 0
    \<and> (solid (fst w) \<longrightarrow> solid (fst w') \<and> usable (1, 65536) 65536 w')"
proof -
  obtain a' where a': "arena_reset (sys (fst w)) (Some (fst w)) = Some (Some a')" "arena_inv a'" "\<not> locked a'"
    "old_chunks a' = []" "total_used a' = 0" "chunk_count a' = (if current (fst w) = None then 0 else 1)"
    using arena_reset_correct [of "fst w" "sys (fst w)"] assms by (auto simp: sound_def)
  have cur: "current a' = map_option (chunk_used_update (\<lambda>_. 0)) (current (fst w))"
    using a'(1) assms by (auto simp: arena_reset_def sound_def)
  have "solid a' \<and> usable (1, 65536) 65536 (a', snd w)" if solid: "solid (fst w)"
  proof -
    obtain c where c: "current (fst w) = Some c" "big c" using solid by (auto simp: solid_def clean_def all_big_def arena_chunks_def)
    then have "current a' = Some (c\<lparr>chunk_used := 0\<rparr>)" "big (c\<lparr>chunk_used := 0\<rparr>)" by (simp_all add: cur big_def)
    then show ?thesis using a' c
      by (simp add: solid_def clean_def all_big_def arena_chunks_def usable_def arena_room_def big_def)
  qed
  then show ?thesis using a' by (auto simp: demo_reset_def sound_def)
qed

lemma test_memory_boundaries_sound:
  assumes "demo_system sys" and "sound w" and "times_ok ts"
  shows "\<exists>k w'. test_memory_boundaries sys ts w
      = Some ([Rejected 3 1] @ (if k = 1000 then [] else [Stopped_After k]) @ [Boundaries_Done], w')
    \<and> k \<le> 1000 \<and> (has_room (104 * 600) w \<longrightarrow> 600 \<le> k) \<and> sound w' \<and> (solid (fst w) \<longrightarrow> solid (fst w'))"
proof -
  define t where "t = t_bounds ts"
  have t: "0 < t" "t + 7200 < 2 ^ 63" using assms(3) by (auto simp: times_ok_def t_def)
  have word: "is_cstr ''token_''" "''token_'' \<noteq> []" "length ''token_'' \<le> 20" "length ''token_'' \<le> 11"
    by (simp_all add: is_cstr_def)
  have "args_ok (long_args t)" unfolding long_args_def by (rule plain_args_ok(1)) (auto simp: is_cstr_def)
  moreover have "\<not> args_valid t (long_args t)" by (simp add: args_valid_def long_args_def plain_args_def)
  ultimately have first: "expect_null sys t (Rejected 3 1) (long_args t) ([], w) = Some ([Rejected 3 1], w)"
    using expect_null_invalid [OF assms(1,2)] by simp
  obtain k w2 where loop: "create_until sys t ''token_'' 0 1000 w = Some (k = 1000, k, w2)" "k \<le> 1000" "sound w2"
    "solid (fst w) \<longrightarrow> solid (fst w2)"
    using create_until_sound [OF assms(1) word(1-3) t assms(2), of 0 1000] by auto
  have "600 \<le> k" if room: "has_room (104 * 600) w"
  proof -
    obtain w1 where "create_until sys t ''token_'' 0 600 w = Some (True, 600, w1)" "has_room 0 w1"
      using create_until_room [OF word(1,2,4) t room, of 0 sys] by auto
    moreover from this(2) have "\<exists>k w'. create_until sys t ''token_'' 600 400 w1 = Some (k = 1000, k, w') \<and> 600 \<le> k"
      using create_until_sound [OF assms(1) word(1-3) t, of w1 600 400] by (auto simp: has_room_def)
    ultimately show ?thesis using create_until_split [of sys t "''token_''" 0 600 400 w] loop(1) by auto
  qed
  moreover obtain w3 where "demo_reset sys w2 = Some w3" "sound w3" "solid (fst w2) \<longrightarrow> solid (fst w3)"
    using demo_reset_sound [OF loop(3)] by blast
  ultimately show ?thesis using loop first
    by (intro exI [of _ k] exI [of _ w3]) (auto simp: test_memory_boundaries_def t_def [symmetric] Let_def)
qed

text \<open>Test 4. With a big chunk that was just reset it makes its ten tokens in 1040 bytes of that chunk.\<close>

lemma test_arena_operations_sound:
  assumes "demo_system sys" and "sound w" and "times_ok ts"
  shows "\<exists>es w'. test_arena_operations sys ts w = Some (es, w') \<and> sound w' \<and> (solid (fst w) \<longrightarrow> solid (fst w'))
    \<and> (solid (fst w) \<and> usable (1, 65536) 65536 w \<longrightarrow>
         (\<exists>g. es = [Made_Ten 1040 g 1, After_Cleanup 1, After_Reset 0 1, Operations_Done]))"
proof -
  define t where "t = t_ops ts"
  have t: "0 < t" "t + 7200 < 2 ^ 63" using assms(3) by (auto simp: times_ok_def t_def)
  have word: "is_cstr ''op_token_''" "''op_token_'' \<noteq> []" "length ''op_token_'' \<le> 20" "length ''op_token_'' = 9"
    by (simp_all add: is_cstr_def)
  obtain failed w1 where loop: "create_each sys t ''op_token_'' 0 10 w = Some (failed, w1)" "sound w1"
    "solid (fst w) \<longrightarrow> solid (fst w1)"
    using create_each_sound [OF assms(1) word(1-3) t assms(2), of 0 10] by auto
  have clean: "demo_cleanup sys 0 w1 = Some w1" by (cases w1) (simp add: demo_cleanup_def arena_cleanup_old_def)
  obtain w3 where reset: "demo_reset sys w1 = Some w3" "sound w3" "total_used (fst w3) = 0"
    "solid (fst w1) \<longrightarrow> solid (fst w3) \<and> usable (1, 65536) 65536 w3"
    using demo_reset_sound [OF loop(2)] by blast
  have "failed = [] \<and> total_used (fst w1) = 1040 \<and> chunk_count (fst w1) = 1"
    if room: "usable (1, 65536) 65536 w"
  proof -
    have "usable (1, 65536) (64496 + 104 * 10) w" using room by simp
    from create_each_room [OF word(1,4) t this, of 0 sys] have "failed = []" "usable (1, 65536) 64496 w1"
      using loop(1) by simp_all
    moreover from this(2) have "total_used (fst w1) = 65536 - 64496" "chunk_count (fst w1) = 1"
      by (simp_all add: usable_def eq_diff_eq)
    ultimately show ?thesis by simp
  qed
  moreover have "chunk_count (fst w3) = 1" if "solid (fst w)" using that loop(3) reset(4) by (simp add: usable_def)
  ultimately show ?thesis using loop clean reset
    by (auto simp: test_arena_operations_def t_def [symmetric] arena_get_total_used_def arena_get_chunk_count_def)
qed

lemma test_performance_sound:
  assumes "demo_system sys" and "sound w" and "times_ok ts"
  shows "\<exists>k w'. test_performance sys ts w = Some ((if k = 10000 then [] else [Perf_Failed k]) @ [Perf_Done], w')
    \<and> k \<le> 10000 \<and> sound w' \<and> old_chunks (fst w') = [] \<and> total_used (fst w') = 0
    \<and> (solid (fst w) \<longrightarrow> solid (fst w') \<and> chunk_count (fst w') = 1)"
proof -
  define t where "t = t_perf ts"
  have t: "0 < t" "t + 7200 < 2 ^ 63" using assms(3) by (auto simp: times_ok_def t_def)
  have word: "is_cstr ''perf_token_''" "''perf_token_'' \<noteq> []" "length ''perf_token_'' \<le> 20"
    by (simp_all add: is_cstr_def)
  obtain k w1 where loop: "create_until sys t ''perf_token_'' 0 10000 w = Some (k = 10000, k, w1)" "k \<le> 10000" "sound w1"
    "solid (fst w) \<longrightarrow> solid (fst w1)"
    using create_until_sound [OF assms(1) word t assms(2), of 0 10000] by auto
  obtain w2 where "demo_reset sys w1 = Some w2" "sound w2" "old_chunks (fst w2) = []" "total_used (fst w2) = 0"
    "solid (fst w1) \<longrightarrow> solid (fst w2) \<and> usable (1, 65536) 65536 w2"
    using demo_reset_sound [OF loop(3)] by blast
  then show ?thesis using loop
    by (intro exI [of _ k] exI [of _ w2]) (auto simp: test_performance_def t_def [symmetric] usable_def)
qed

text \<open>Test 1.\<close>

lemma creation_args_facts:
  assumes "0 < t" and "t + 7200 < 2 ^ 63"
  shows "args_ok (creation_args t)" and "args_valid t' (creation_args t)"
    and "fields_short (string_fields (creation_args t))" and "token_need (creation_args t) = 224"
    and "auth_list (creation_args t) = [''ROLE_USER'', ''ROLE_ADMIN'', ''ROLE_MODERATOR'']"
    and "sint (arg_expires_at (creation_args t)) = t + 7200"
proof -
  have e: "sint (of_int (t + 7200) :: u64) = t + 7200" "sint (of_int t :: u64) = t"
    using assms by (intro sint_of_int_small; simp)+
  then show "sint (arg_expires_at (creation_args t)) = t + 7200" by (simp only: creation_args_def token_args.simps)
  show auths: "auth_list (creation_args t) = [''ROLE_USER'', ''ROLE_ADMIN'', ''ROLE_MODERATOR'']"
    by (simp add: auth_list_def creation_args_def)
  show "args_ok (creation_args t)"
    by (simp add: args_ok_def creation_args_def fields_ok_def string_fields_def string_ok_def is_cstr_def)
  have "k < 3 \<Longrightarrow> k = 0 \<or> k = 1 \<or> k = 2" for k :: nat by auto
  then show "args_valid t' (creation_args t)"
    unfolding args_valid_def creation_args_def token_args.simps e using assms by fastforce
  show "fields_short (string_fields (creation_args t))"
    by (auto simp: fields_short_def string_fields_def creation_args_def)
  show "token_need (creation_args t) = 224"
    unfolding token_need_def auths
    by (simp add: fields_need_def string_fields_def creation_args_def str_need_def align8_def)
qed

lemma test_creation_sound:
  assumes "demo_system sys" and "sound w" and "times_ok ts"
  shows "\<exists>p w' es. demo_create sys (t_create ts) (creation_args (t_create ts)) w = Some (p, w')
    \<and> test_successful_creation sys ts w = Some (es, w') \<and> sound w'
    \<and> es = (if p = 0 then [Creation_Failed] else [Created ''test_token_123'' ''john_doe'' 3, Token_Passed, Is_Admin])"
proof -
  define t where "t = t_create ts"
  have t: "0 < t" "t + 7200 < 2 ^ 63" "t_check ts \<le> t + 7200" using assms(3) by (auto simp: times_ok_def t_def)
  note args = creation_args_facts [OF t(1,2)]
  obtain p a m where call: "demo_create sys t (creation_args t) w = Some (p, (a, m))" and "sound (a, m)"
    and created: "token_created (creation_args t) w p (a, m)"
    using demo_create_sound [OF assms(1,2) args(1), of t] by auto
  have "c_string_at m (unat (load_op m (field_at p 0))) = Some ''test_token_123''
      \<and> c_string_at m (unat (load_op m (field_at p 2))) = Some ''john_doe'' \<and> load_op m (field_at p 4) = 3
      \<and> token_validate (t_check ts) m p = Some True \<and> token_has_authority m p (Some ''ROLE_ADMIN'') = Some True"
    if "p \<noteq> 0"
  proof -
    have tok: "token_at m p (view_of (creation_args t))" using created that by (simp add: token_created_def)
    have view: "view_of (creation_args t) = \<lparr>v_id = ''test_token_123'', v_user_id = Some ''user_456'',
        v_username = Some ''john_doe'', v_authorities = [''ROLE_USER'', ''ROLE_ADMIN'', ''ROLE_MODERATOR''],
        v_device_hash = Some ''device_hash_xyz'', v_issued_at = of_int t, v_expires_at = of_int (t + 7200),
        v_client_ip = Some ''192.168.1.1''\<rparr>"
      unfolding view_of_def args(5) by (simp add: creation_args_def)
    have "sint (of_int (t + 7200) :: u64) = t + 7200" "sint (of_int t :: u64) = t"
      using t by (intro sint_of_int_small; simp)+
    then have "view_valid (t_check ts) (view_of (creation_args t))"
      unfolding view view_valid_def token_view.simps using t by simp
    then have q: "token_validate (t_check ts) m p = Some True" "token_has_authority m p (Some ''ROLE_ADMIN'') = Some True"
      using token_queries [OF tok] by (simp_all add: view)
    have "unat (load_op m (field_at p 4)) = unat (3 :: u64)" using tok by (simp add: token_at_def view)
    then have "load_op m (field_at p 4) = 3" by (simp only: word_unat_eq_iff)
    then show ?thesis using tok q by (auto simp: token_at_def view view_fields_def opt_at_def str_at_read)
  qed
  then show ?thesis using call \<open>sound (a, m)\<close>
    by (intro exI [of _ p] exI [of _ "(a, m)"]) (auto simp: test_successful_creation_def t_def [symmetric])
qed

section \<open>The program\<close>

text \<open>The first creation, when the system has memory for it.\<close>

lemma first_block:
  assumes sys: "demo_system sys" and init: "arena_init os = Some f" and gives: "system_gives (sys f)"
  shows "\<exists>q a'. token_alloc sys 72 (f, m) = Some (q, (a', m)) \<and> q \<noteq> 0 \<and> solid a' \<and> arena_room a' 65464"
proof -
  have f: "current f = None" "old_chunks f = []" "\<not> locked f" "arena_inv f" "all_big f"
    using init by (auto simp: arena_init_def arena_inv_def arena_chunks_def chunks_ok_def all_big_def split: if_splits)
  have os: "mmap_ok (sys f) f" using sys f(4) by (simp add: demo_system_def arena_system_ok_def)
  obtain r a' where call: "arena_alloc (sys f) (Some f) 72 = Some (r, Some a')" and inv: "arena_inv a'" "\<not> locked a'"
    and some: "r = None \<longrightarrow> \<not> system_gives (sys f)"
    using arena_alloc_outcome [OF f(4,3) os, of 72] by (auto split: option.splits simp: word_less_nat_alt)
  obtain q where r: "r = Some q" using some gives by auto
  have solid: "solid a'"
    using clean_alloc(2) [of sys f 72 r a'] call sys f r by (simp add: clean_def demo_system_def)
  have size: "arena_align_size 72 = 72" "arena_calculate_new_chunk_size 72 = Some 65536"
    by (simp_all add: arena_align_size_def round_up_def calc_chunk_size_eq)
  have take: "take_suitable 72 (old_chunks (f\<lparr>locked := True\<rparr>)) = None" by (simp add: f)
  have "arena_alloc_locked (sys f) (f\<lparr>locked := True\<rparr>) 72 = Some (Some q, a')"
    using call r f(3) size(1) by (auto simp: arena_alloc_def word_less_nat_alt)
  then obtain c where c: "arena_chunk_create (sys f) 65536 = Some c"
    and cut: "q = chunk_memory c + chunk_used c" "current a' = Some (c\<lparr>chunk_used := chunk_used c + 72\<rparr>)"
    using f take size(2)
    by (auto simp: arena_alloc_locked_def needs_chunk_def carve_def Let_def split: option.splits if_splits)
  have "chunk_used c = 0" using chunk_create_ok(2) [OF os c] by simp
  then have "q \<noteq> 0" "arena_room a' 65464"
    using cut solid by (auto simp: solid_def clean_def all_big_def arena_chunks_def big_def arena_room_def)
  then show ?thesis using call r solid by (auto simp: token_alloc_def)
qed

lemma first_creation:
  assumes sys: "demo_system sys" and init: "arena_init os = Some f" and gives: "system_gives (sys f)"
    and t: "0 < t" "t + 7200 < 2 ^ 63" and call: "demo_create sys t (creation_args t) (f, m) = Some (p, w)"
  shows "p \<noteq> 0" and "solid (fst w)" and "has_room (104 * 600) w"
proof -
  note args = creation_args_facts [OF t]
  obtain q a' where q: "token_alloc sys 72 (f, m) = Some (q, (a', m))" "q \<noteq> 0" and solid: "solid a'"
    and room: "arena_room a' 65464"
    using first_block [OF sys init gives] by blast
  define B where "B = (chunk_count a', total_used a' + 65464)"
  have "usable B 65464 (a', m)" using solid room by (simp add: usable_def solid_def clean_def B_def)
  moreover have need: "65312 + token_need (creation_args t) = 65464 + 72" by (simp add: args(4))
  ultimately obtain a2 m2 where create: "create_token sys (creation_args t) (f, m) = Some (q, (a2, m2))"
    and room2: "usable B 65312 (a2, m2)"
    using create_token_rest [OF q _ need args(1) args(2) [of t] args(3)] by blast
  have "p = q \<and> w = (a2, m2)"
    using call create args_checked [OF args(1), of t] args(2) [of t] by (simp add: demo_create_def token_data_create_ex_def)
  then show "p \<noteq> 0" using q by simp
  have "has_room 65312 w" using room2 \<open>p = q \<and> w = _\<close> by (simp add: has_room_def sound_def usable_def)
  then show "has_room (104 * 600) w" by (rule has_room_mono) simp
  have "clean f" using init
    by (auto simp: arena_init_def arena_inv_def arena_chunks_def chunks_ok_def all_big_def clean_def split: if_splits)
  then have "clean (fst w)" using clean_steps [OF demo_create_steps [OF call]] sys by (simp add: demo_system_def)
  then show "solid (fst w)" using \<open>has_room 65312 w\<close>
    by (auto simp: solid_def has_room_def arena_room_def split: option.splits)
qed

lemma destroy_last:
  assumes "sound w" and "old_chunks (fst w) = []"
  shows "\<exists>unmapped. arena_destroy (Some (fst w)) = Some unmapped \<and>
    (solid (fst w) \<longrightarrow> (\<exists>p u n. unmapped = [Mem_Clear p u, Mem_Unmap p n] \<and> p \<noteq> 0))"
  using assms
  by (auto simp: arena_destroy_def sound_def solid_def clean_def all_big_def arena_chunks_def big_def arena_chunk_destroy_def
      word_gt_0 split: option.split)

text \<open>The part of the performance test on the heap frees every block it takes, in the same round.\<close>

lemma malloc_rounds_balanced:
  "count_list (malloc_rounds ok) Take_Token = count_list (malloc_rounds ok) Free_Token
    \<and> count_list (malloc_rounds ok) Take_Id = count_list (malloc_rounds ok) Free_Id"
proof -
  have round: "count_list (malloc_round b) Take_Token = count_list (malloc_round b) Free_Token
      \<and> count_list (malloc_round b) Take_Id = count_list (malloc_round b) Free_Id" for b
    by (simp add: malloc_round_def)
  have "count_list (concat (map (\<lambda>i. malloc_round (ok i)) is)) Take_Token
        = count_list (concat (map (\<lambda>i. malloc_round (ok i)) is)) Free_Token
      \<and> count_list (concat (map (\<lambda>i. malloc_round (ok i)) is)) Take_Id
        = count_list (concat (map (\<lambda>i. malloc_round (ok i)) is)) Free_Id" for "is" :: "nat list"
    by (induction "is") (simp_all add: round)
  then show ?thesis unfolding malloc_rounds_def .
qed

text \<open>The example program ends with any system, with exit code 0 unless the arena cannot be initialised. When
  the system has memory for the first chunk, its token is created, validated and found to have the
  authority, all nine wrong calls are rejected, at least 600 of the 1000 tokens of test 3 are made, the ten
  tokens of test 4 take 1040 bytes of one chunk, the cleanup leaves it, and exactly one mapping is given
  back.
\<close>

lemma example_main_report:
  assumes "demo_system sys" and "times_ok ts"
  shows "\<exists>es unmapped. example_main os sys ts m = Some (if arena_init os = None then 1 else 0, es, unmapped)
    \<and> (\<forall>f. arena_init os = Some f \<and> system_gives (sys f) \<longrightarrow>
        (\<exists>k j g h p u n. 600 \<le> k \<and> k \<le> 1000 \<and> j \<le> 10000 \<and> unmapped = [Mem_Clear p u, Mem_Unmap p n] \<and> p \<noteq> 0 \<and>
          es = [Initialised, Created ''test_token_123'' ''john_doe'' 3, Token_Passed, Is_Admin]
            @ map (Rejected 2) [1..<8] @ [Rejected 3 1] @ (if k = 1000 then [] else [Stopped_After k])
            @ [Boundaries_Done, Made_Ten 1040 g 1, After_Cleanup 1, After_Reset 0 1, Operations_Done]
            @ (if j = 10000 then [] else [Perf_Failed j])
            @ [Perf_Done, Final_Statistics h 0 1, Null_Destroyed, Arena_Destroyed]))"
proof (cases "arena_init os")
  case None
  then show ?thesis by (simp add: example_main_def)
next
  case (Some f)
  have w0: "sound (f, m)"
    using Some by (auto simp: arena_init_def sound_def arena_inv_def arena_chunks_def chunks_ok_def split: if_splits)
  have t: "0 < t_create ts" "t_create ts + 7200 < 2 ^ 63" using assms(2) by (auto simp: times_ok_def)
  obtain p1 w1 where make: "demo_create sys (t_create ts) (creation_args (t_create ts)) (f, m) = Some (p1, w1)"
    and s1: "test_successful_creation sys ts (f, m) = Some (if p1 = 0 then [Creation_Failed]
      else [Created ''test_token_123'' ''john_doe'' 3, Token_Passed, Is_Admin], w1)" and w1: "sound w1"
    using test_creation_sound [OF assms(1) w0 assms(2)] by blast
  note s2 = test_error_cases_ok [OF assms(1) w1 assms(2)]
  obtain k w2 where s3: "test_memory_boundaries sys ts w1
      = Some ([Rejected 3 1] @ (if k = 1000 then [] else [Stopped_After k]) @ [Boundaries_Done], w2)"
    and k: "k \<le> 1000" "has_room (104 * 600) w1 \<longrightarrow> 600 \<le> k" and w2: "sound w2" "solid (fst w1) \<longrightarrow> solid (fst w2)"
    using test_memory_boundaries_sound [OF assms(1) w1 assms(2)] by blast
  obtain w3 where s4: "demo_reset sys w2 = Some w3" and w3: "sound w3"
    "solid (fst w2) \<longrightarrow> solid (fst w3) \<and> usable (1, 65536) 65536 w3"
    using demo_reset_sound [OF w2(1)] by blast
  obtain es4 w4 where s5: "test_arena_operations sys ts w3 = Some (es4, w4)"
    and w4: "sound w4" "solid (fst w3) \<longrightarrow> solid (fst w4)"
    and es4: "solid (fst w3) \<and> usable (1, 65536) 65536 w3 \<longrightarrow>
      (\<exists>g. es4 = [Made_Ten 1040 g 1, After_Cleanup 1, After_Reset 0 1, Operations_Done])"
    using test_arena_operations_sound [OF assms(1) w3(1) assms(2)] by blast
  obtain w5 where s6: "demo_reset sys w4 = Some w5" and w5: "sound w5" "solid (fst w4) \<longrightarrow> solid (fst w5)"
    using demo_reset_sound [OF w4(1)] by blast
  obtain j w6 where s7: "test_performance sys ts w5 = Some ((if j = 10000 then [] else [Perf_Failed j]) @ [Perf_Done], w6)"
    and j: "j \<le> 10000" and w6: "sound w6" "old_chunks (fst w6) = []" "total_used (fst w6) = 0"
      "solid (fst w5) \<longrightarrow> solid (fst w6) \<and> chunk_count (fst w6) = 1"
    using test_performance_sound [OF assms(1) w5(1) assms(2)] by blast
  from destroy_last [OF w6(1,2)] obtain unmapped where s8: "arena_destroy (Some (fst w6)) = Some unmapped"
    and last: "solid (fst w6) \<longrightarrow> (\<exists>p u n. unmapped = [Mem_Clear p u, Mem_Unmap p n] \<and> p \<noteq> 0)"
    by (elim exE conjE) (rule that)
  define es where "es = [Initialised] @ (if p1 = 0 then [Creation_Failed]
      else [Created ''test_token_123'' ''john_doe'' 3, Token_Passed, Is_Admin]) @ map (Rejected 2) [1..<8]
      @ [Rejected 3 1] @ (if k = 1000 then [] else [Stopped_After k]) @ [Boundaries_Done] @ es4
      @ (if j = 10000 then [] else [Perf_Failed j]) @ [Perf_Done,
        Final_Statistics (arena_get_total_allocated (Some (fst w6))) 0 (arena_get_chunk_count (Some (fst w6))),
        Null_Destroyed, Arena_Destroyed]"
  have run: "example_main os sys ts m = Some (0, es, unmapped)"
    using w6(3) by (simp add: example_main_def Some then_run_def run_reset_def s1 s2 s3 s4 s5 s6 s7 s8 es_def
        arena_destroy_def [of None] arena_get_total_used_def del: upt.simps)
  show ?thesis
  proof (rule exI [of _ es], rule exI [of _ unmapped], intro conjI allI impI)
    show "example_main os sys ts m = Some (if arena_init os = None then 1 else 0, es, unmapped)"
      using run Some by simp
  next
    fix f' assume "arena_init os = Some f' \<and> system_gives (sys f')"
    then have "system_gives (sys f)" using Some by simp
    note first = first_creation [OF assms(1) Some this t make]
    have solids: "solid (fst w6)" "chunk_count (fst w6) = 1" "600 \<le> k"
      using first w2 w3 w4 w5 w6 k by blast+
    obtain g where g: "es4 = [Made_Ten 1040 g 1, After_Cleanup 1, After_Reset 0 1, Operations_Done]"
      using first(2) w2(2) w3(2) es4 by blast
    obtain p u n where pn: "unmapped = [Mem_Clear p u, Mem_Unmap p n]" "p \<noteq> 0"
      using last [rule_format, OF solids(1)] by (elim exE conjE) (rule that)
    show "\<exists>k j g h p u n. 600 \<le> k \<and> k \<le> 1000 \<and> j \<le> 10000 \<and> unmapped = [Mem_Clear p u, Mem_Unmap p n] \<and> p \<noteq> 0 \<and>
          es = [Initialised, Created ''test_token_123'' ''john_doe'' 3, Token_Passed, Is_Admin]
            @ map (Rejected 2) [1..<8] @ [Rejected 3 1] @ (if k = 1000 then [] else [Stopped_After k])
            @ [Boundaries_Done, Made_Ten 1040 g 1, After_Cleanup 1, After_Reset 0 1, Operations_Done]
            @ (if j = 10000 then [] else [Perf_Failed j])
            @ [Perf_Done, Final_Statistics h 0 1, Null_Destroyed, Arena_Destroyed]"
    proof (intro exI conjI)
      show "es = [Initialised, Created ''test_token_123'' ''john_doe'' 3, Token_Passed, Is_Admin]
            @ map (Rejected 2) [1..<8] @ [Rejected 3 1] @ (if k = 1000 then [] else [Stopped_After k])
            @ [Boundaries_Done, Made_Ten 1040 g 1, After_Cleanup 1, After_Reset 0 1, Operations_Done]
            @ (if j = 10000 then [] else [Perf_Failed j])
            @ [Perf_Done, Final_Statistics (arena_get_total_allocated (Some (fst w6))) 0 1, Null_Destroyed, Arena_Destroyed]"
        using first(1) solids(2) by (simp add: es_def g arena_get_chunk_count_def del: upt.simps)
    qed (use solids(3) k(1) j pn in simp_all)
  qed
qed

text \<open>A system that maps one chunk and then nothing more.\<close>

definition one_chunk :: arena_system where
  "one_chunk a = (if arena_chunks a = [] then small_os else dry_os)"

definition demo_clock :: demo_times where
  "demo_clock = \<lparr>t_create = 8000, t_check = 8001, t_errors = 8002, t_expiry = 8003, t_bounds = 8004, t_ops = 8005,
     t_perf = 8006\<rparr>"

lemma example_main_report_witness:
  "\<exists>es p u n. example_main small_os one_chunk demo_clock (\<lambda>_. 0) = Some (0, es, [Mem_Clear p u, Mem_Unmap p n]) \<and> p \<noteq> 0"
proof -
  have "mmap_ok (one_chunk a) a" for a
    by (auto simp: one_chunk_def mmap_ok_def small_os_def dry_os_def all_bytes_def word_le_nat_alt split: if_splits)
  then have sys: "demo_system one_chunk"
    by (auto simp: demo_system_def arena_system_ok_def no_null_def one_chunk_def small_os_def dry_os_def)
  have "mmap_result small_os (round_up n (page_size small_os)) \<noteq> None" if "unat n \<le> 2097152" for n
  proof -
    have "unat (round_up n 4096) < unat n + 4096" using round_up_bounds [of 4096 n] that by simp
    then show ?thesis using that by (simp add: small_os_def word_le_nat_alt)
  qed
  then have "system_gives small_os" by (simp add: system_gives_def) (simp add: small_os_def)
  then have "system_gives (one_chunk fresh_arena)" by (simp add: one_chunk_def arena_chunks_def fresh_arena_def)
  moreover have "times_ok demo_clock" by (simp add: times_ok_def demo_clock_def)
  ultimately show ?thesis
    using example_main_report [OF sys, of demo_clock small_os "\<lambda>_. 0"] fresh_arena_facts(1) by fastforce
qed

end
