(* ===== verification/Drs_Generator.thy ===== *)
theory Drs_Generator
  imports Prelude
begin

text \<open>
  The DRS pseudo random generator of \<^verbatim>\<open>third-party/drs-generator\<close> (\<^verbatim>\<open>drs_generator.c\<close>), which
  the command white list draws its identifiers from: two linear congruential generators
  combined digit by digit. A \<^verbatim>\<open>uint64_t\<close> is a \<open>u64\<close>; the one division that can be by zero
  is the fault \<open>Div_By_Zero\<close>. The lemmas bound every output and show that the wrap-around of the
  64-bit products never shows in the two recurrences.
\<close>

section \<open>The generator\<close>

record drs_generator =
  seed1 :: u64
  seed2 :: u64
  counter :: u64

definition lcg1_next :: "u64 \<Rightarrow> u64" where
  "lcg1_next state = (1103515245 * state + 12345) mod 2147483648"

definition lcg2_next :: "u64 \<Rightarrow> u64" where
  "lcg2_next state = (1664525 * state + 1013904223) mod 4294967296"

text \<open>The decimal digits, lowest first, with room for \<open>room\<close> of them.\<close>

fun digits :: "nat \<Rightarrow> u64 \<Rightarrow> u64 list" where
  "digits 0 temp = []"
| "digits (Suc room) temp = (if temp > 0 then temp mod 10 # digits room (temp div 10) else [])"

definition nonlinearly_combine :: "u64 \<Rightarrow> u64 \<Rightarrow> u64 \<Rightarrow> u64" where
  "nonlinearly_combine a b index =
     (let digits_a = digits 20 a;
          digits_b = digits 20 b;
          max_count = (if length digits_a > length digits_b then length digits_a else length digits_b);
          max_count = (if max_count = 0 then 1 else max_count)
      in fold (\<lambda>i result.
           let digit_a = (if i < length digits_a then digits_a ! i else 0);
               digit_b = (if i < length digits_b then digits_b ! i else 0);
               combined = (digit_a + digit_b + index mod 10) mod 10
           in result * 10 + combined) [0..<max_count] 0)"

definition drs_next :: "drs_generator \<Rightarrow> u64 \<times> drs_generator" where
  "drs_next gen =
     (let gen = gen\<lparr>counter := counter gen + 1\<rparr>;
          gen = gen\<lparr>seed1 := lcg1_next (seed1 gen)\<rparr>;
          gen = gen\<lparr>seed2 := lcg2_next (seed2 gen)\<rparr>
      in (nonlinearly_combine (seed1 gen) (seed2 gen) (counter gen), gen))"

definition drs_init :: "u64 \<Rightarrow> u64 \<Rightarrow> drs_generator" where
  "drs_init s1 s2 =
     ((\<lambda>gen. snd (drs_next gen)) ^^ 10) \<lparr>seed1 = s1, seed2 = s2, counter = 0\<rparr>"

datatype drs_fault = Div_By_Zero

definition drs_range :: "drs_generator \<Rightarrow> u64 \<Rightarrow> u64 \<Rightarrow> drs_fault + u64 \<times> drs_generator" where
  "drs_range gen lo hi =
     (let (random_value, gen') = drs_next gen;
          (lo, hi) = (if lo > hi then (hi, lo) else (lo, hi));
          range = hi - lo + 1
      in if range = 0 then Inl Div_By_Zero else Inr (lo + random_value mod range, gen'))"

section \<open>The recurrences\<close>

lemma unat_mod_dvd:
  assumes "m dvd 2 ^ 64"
  shows "(a mod 2 ^ 64) mod m = a mod (m :: nat)"
  using assms by (rule mod_mod_cancel)

lemma lcg1_next_unat: "unat (lcg1_next s) = (1103515245 * unat s + 12345) mod 2 ^ 31"
proof -
  have "unat (lcg1_next s) = (unat (1103515245 * s + 12345)) mod 2147483648"
    by (simp add: lcg1_next_def unat_mod_distrib)
  also have "unat (1103515245 * s + 12345) = (1103515245 * unat s + 12345) mod 2 ^ 64"
    by (simp add: unat_word_ariths mod_simps)
  also have "\<dots> mod 2147483648 = (1103515245 * unat s + 12345) mod 2147483648"
    by (rule unat_mod_dvd) simp
  finally show ?thesis by simp
qed

lemma lcg2_next_unat: "unat (lcg2_next s) = (1664525 * unat s + 1013904223) mod 2 ^ 32"
proof -
  have "unat (lcg2_next s) = (unat (1664525 * s + 1013904223)) mod 4294967296"
    by (simp add: lcg2_next_def unat_mod_distrib)
  also have "unat (1664525 * s + 1013904223) = (1664525 * unat s + 1013904223) mod 2 ^ 64"
    by (simp add: unat_word_ariths mod_simps)
  also have "\<dots> mod 4294967296 = (1664525 * unat s + 1013904223) mod 4294967296"
    by (rule unat_mod_dvd) simp
  finally show ?thesis by simp
qed

section \<open>The digits\<close>

lemma digits_small: "unat t < 10 ^ k \<Longrightarrow> length (digits room t) \<le> k"
proof (induction room arbitrary: t k)
  case (Suc room)
  show ?case
  proof (cases "t > 0")
    case True
    then have "0 < unat t" by (simp add: word_less_nat_alt)
    with Suc.prems obtain j where k: "k = Suc j" by (cases k) auto
    have "unat (t div 10) = unat t div 10" by (simp add: unat_div_distrib)
    with Suc.prems k have "unat (t div 10) < 10 ^ j" by (simp add: less_mult_imp_div_less mult.commute)
    with Suc.IH [of "t div 10" j] True k show ?thesis by simp
  qed simp
qed simp

text \<open>Appending decimal digits stays below the power of ten while that fits in 64 bits.\<close>

lemma digit_fold_bound:
  fixes f :: "nat \<Rightarrow> u64"
  assumes "m \<le> 19" and "\<And>i. unat (f i) < 10"
  shows "unat (fold (\<lambda>i r. r * 10 + f i) [0..<m] 0) < 10 ^ m"
  using assms(1)
proof (induction m)
  case (Suc m)
  define r where "r = fold (\<lambda>i r. r * 10 + f i) [0..<m] 0"
  have IH: "unat r < 10 ^ m" using Suc by (simp add: r_def)
  have "(10 :: nat) ^ Suc m \<le> 10 ^ 19" using Suc.prems by (intro power_increasing) auto
  also have "\<dots> < 2 ^ 64" by simp
  finally have fit: "(10 :: nat) ^ Suc m < 2 ^ 64" .
  have sum: "unat r * 10 + unat (f m) < 10 ^ Suc m"
    using IH assms(2) [of m] by simp
  have "unat (r * 10) = unat r * 10"
    using unat_mult_lem [of r 10] sum fit by simp
  moreover have "unat (r * 10 + f m) = unat (r * 10) + unat (f m)"
    using unat_add_lem [of "r * 10" "f m"] sum fit calculation by simp
  ultimately show ?case using sum by (simp add: r_def)
qed simp

lemma nonlinearly_combine_bound:
  assumes "unat a < 10 ^ k" and "unat b < 10 ^ k" and "0 < k" and "k \<le> 19"
  shows "unat (nonlinearly_combine a b index) < 10 ^ k"
proof -
  define n where "n = (if length (digits 20 a) > length (digits 20 b)
    then length (digits 20 a) else length (digits 20 b))"
  define m where "m = (if n = 0 then 1 else n)"
  define f where "f i = ((if i < length (digits 20 a) then digits 20 a ! i else 0) +
    (if i < length (digits 20 b) then digits 20 b ! i else 0) + index mod 10) mod 10" for i
  have "length (digits 20 a) \<le> k" "length (digits 20 b) \<le> k"
    using assms digits_small by blast+
  then have m: "m \<le> k" using assms(3) by (simp add: m_def n_def)
  have "unat (f i) < 10" for i
  proof -
    have "f i < 10" unfolding f_def by (rule word_mod_less_divisor) simp
    then show ?thesis by (simp add: word_less_nat_alt)
  qed
  then have "unat (fold (\<lambda>i r. r * 10 + f i) [0..<m] 0) < 10 ^ m"
    using m assms(4) by (intro digit_fold_bound) auto
  also have "fold (\<lambda>i r. r * 10 + f i) [0..<m] 0 = nonlinearly_combine a b index"
    unfolding nonlinearly_combine_def Let_def f_def m_def n_def ..
  also have "(10 :: nat) ^ m \<le> 10 ^ k" using m by (intro power_increasing) auto
  finally show ?thesis .
qed

lemma lcg_small:
  "unat (lcg1_next s) < 10 ^ 10" "unat (lcg2_next s) < 10 ^ 10"
proof -
  have "unat (lcg1_next s) < 2 ^ 31" "unat (lcg2_next s) < 2 ^ 32"
    by (simp_all add: lcg1_next_unat lcg2_next_unat)
  then show "unat (lcg1_next s) < 10 ^ 10" "unat (lcg2_next s) < 10 ^ 10" by simp_all
qed

lemma drs_next_bound: "unat (fst (drs_next g)) < 10 ^ 10"
  unfolding drs_next_def Let_def fst_conv
  by (rule nonlinearly_combine_bound) (use lcg_small in simp_all)

text \<open>Each call steps the two congruences exactly, modulo \<open>2 ^ 31\<close> and \<open>2 ^ 32\<close> and
  independently of each other, counts itself, and returns less than \<open>10 ^ 10\<close>: of the 64
  bits of an output the upper 30 are always zero.
\<close>

lemma drs_next_correct:
  "case drs_next g of (out, g') \<Rightarrow>
     unat out < 10 ^ 10 \<and> counter g' = counter g + 1 \<and>
     unat (seed1 g') = (1103515245 * unat (seed1 g) + 12345) mod 2 ^ 31 \<and>
     unat (seed2 g') = (1664525 * unat (seed2 g) + 1013904223) mod 2 ^ 32"
  using drs_next_bound [of g] lcg1_next_unat [of "seed1 g"] lcg2_next_unat [of "seed2 g"]
  by (simp add: drs_next_def Let_def)

lemma range_word:
  assumes "a \<le> (b :: u64)"
  shows "b - a + 1 = 0 \<longleftrightarrow> a = 0 \<and> b = - 1"
    and "b - a + 1 \<noteq> 0 \<Longrightarrow> unat (b - a + 1) = unat b - unat a + 1"
proof -
  have d: "unat (b - a) = unat b - unat a" using assms by (simp add: unat_sub)
  have top: "unat b < 2 ^ 64" using unsigned_less [of b] by simp
  show "b - a + 1 = 0 \<longleftrightarrow> a = 0 \<and> b = - 1"
  proof
    assume "b - a + 1 = 0"
    then have "b - a = - 1" by (simp add: eq_neg_iff_add_eq_0)
    then have "unat b - unat a = 2 ^ 64 - 1"
      using d by (simp add: unsigned_minus_1_eq_mask mask_eq_exp_minus_1)
    with top have "unat a = 0" "unat b = 2 ^ 64 - 1" by auto
    then have "a = 0" "unat b = unat (- 1 :: u64)"
      by (simp_all add: unat_eq_zero unsigned_minus_1_eq_mask mask_eq_exp_minus_1)
    then show "a = 0 \<and> b = - 1" by (simp only: word_unat_eq_iff)
  qed simp
  show "unat (b - a + 1) = unat b - unat a + 1" if "b - a + 1 \<noteq> 0"
    using that d by (simp add: unatSuc add.commute)
qed

text \<open>\<open>drs_range\<close> returns a value between its two bounds, whichever is larger, and less than
  \<open>10 ^ 10\<close> above the lower one; only for the full 64-bit range does its range wrap to zero
  and the division fault.
\<close>

lemma drs_range_correct:
  "case drs_range g lo hi of
     Inl _ \<Rightarrow> min lo hi = 0 \<and> max lo hi = - 1
   | Inr (r, g') \<Rightarrow> \<not> (min lo hi = 0 \<and> max lo hi = - 1) \<and> min lo hi \<le> r \<and> r \<le> max lo hi \<and>
       unat r < unat (min lo hi) + 10 ^ 10 \<and> g' = snd (drs_next g)"
proof -
  obtain v g' where nx: "drs_next g = (v, g')" by fastforce
  define a b where "a = min lo hi" and "b = max lo hi"
  have ab: "a \<le> b" by (auto simp: a_def b_def min_def max_def)
  have run: "drs_range g lo hi = (if b - a + 1 = 0 then Inl Div_By_Zero else Inr (a + v mod (b - a + 1), g'))"
    by (auto simp: drs_range_def nx Let_def a_def b_def min_def max_def)
  show ?thesis
  proof (cases "b - a + 1 = 0")
    case True
    with range_word(1) [OF ab] run show ?thesis by (simp add: a_def b_def)
  next
    case False
    define m where "m = v mod (b - a + 1)"
    have r: "unat (b - a + 1) = unat b - unat a + 1" using range_word(2) [OF ab False] .
    have m: "unat m = unat v mod (unat b - unat a + 1)" by (simp add: m_def unat_mod_distrib r)
    have "unat m \<le> unat b - unat a" using m by (simp add: less_Suc_eq_le [symmetric])
    then have "unat a + unat m \<le> unat b" using ab by (simp add: word_le_nat_alt)
    moreover have "unat b < 2 ^ 64" using unsigned_less [of b] by simp
    ultimately have sum: "unat (a + m) = unat a + unat m" "unat (a + m) \<le> unat b"
      using unat_add_lem [of a m] by simp_all
    have "unat m \<le> unat v" by (simp add: m)
    moreover have "unat v < 10 ^ 10" using drs_next_bound [of g] by (simp add: nx)
    ultimately have "unat (a + m) < unat a + 10 ^ 10" using sum by simp
    with False run sum range_word(1) [OF ab] show ?thesis
      by (simp add: nx m_def [symmetric] a_def [symmetric] b_def [symmetric] word_le_nat_alt)
  qed
qed

end
