(* ===== verification/Command_System.thy ===== *)
theory Command_System
  imports Drs_Generator
begin

text \<open>
  The command system of \<^verbatim>\<open>kryocache/white_list/client\<close>: the generated command identifiers
  and their validation, the table of the six valid commands, its initialisation and lookup
  (\<^verbatim>\<open>white_list_client.c\<close>), the argument validators (\<^verbatim>\<open>command_stubs.c\<close>) and the error
  codes (\<^verbatim>\<open>command_errors.c\<close>). The handlers are in \<^verbatim>\<open>White_List\<close>.

  \<^item> The static variables of the file are the record \<open>command_system\<close>; a pointer into the
    table is the entry it points to, function pointers are the datatypes \<open>cmd_validator\<close>
    and \<open>cmd_handler\<close>.
  \<^item> \<^verbatim>\<open>secure_cmd_id_t\<close>, an integer hidden in a pointer, is the integer; NULL is 0.
  \<^item> An argument vector is a \<open>string option list\<close> as long as its count; NULL is \<open>None\<close>.
\<close>

section \<open>Data\<close>

type_synonym cmd_args = "string option list"

datatype cmd_validator = validate_key | validate_kv | validate_keys | validate_auth

datatype cmd_handler =
    handle_get | handle_set | handle_delete | handle_ping | handle_quit | handle_auth

record enum_system =
  sys_gen :: drs_generator
  generated_ids :: "u64 list"
  validation_keys :: "u64 list"
  init_time :: int
  system_magic :: u32

record command_definition =
  cmd_name :: "string option"
  cmd_id :: u64
  min_args :: nat
  max_args :: nat
  validator :: "cmd_validator option"
  handler :: "cmd_handler option"
  sec_front :: u32
  sec_back :: u32

record command_system =
  g_global_cmd_system :: "enum_system option"
  g_valid_commands :: "command_definition list"
  g_command_system_initialized :: bool

definition zero_command :: command_definition where
  "zero_command = \<lparr>cmd_name = None, cmd_id = 0, min_args = 0, max_args = 0, validator = None,
     handler = None, sec_front = 0, sec_back = 0\<rparr>"

text \<open>The static variables at program start.\<close>

definition command_system_start :: command_system where
  "command_system_start = \<lparr>g_global_cmd_system = None,
     g_valid_commands = replicate 6 zero_command, g_command_system_initialized = False\<rparr>"

definition CMD_SEEDS :: "(u64 \<times> u64) list" where
  "CMD_SEEDS =
    [(0xDEADBEEF12345678, 0xCAFEBABE87654321),
     (0xBEEFDEAD56781234, 0xFACEFACE43218765),
     (0xFEEDFACE87654321, 0xDECAFBAD12345678),
     (0xCAFEDEAD43218765, 0xBEEFFACE56781234),
     (0xDEADC0DE56781234, 0xFACEB00C43218765),
     (0xBADCAFE87654321, 0xDEADC0DE12345678),
     (0xC0FFEE12345678, 0xFEABA687654321),
     (0xBABEFACE43218765, 0xDEADD00D56781234),
     (0xFACEFEED87654321, 0xCAFEB0BA12345678),
     (0xDEADFACE56781234, 0xFEEDBEEF43218765)]"

definition CMD_NAMES :: "string list" where
  "CMD_NAMES = [''GET'', ''SET'', ''DELETE'', ''EXISTS'', ''KEYS'',
     ''PING'', ''INFO'', ''QUIT'', ''AUTH'', ''SELECT'']"

text \<open>\<^verbatim>\<open>"CMDS"\<close> and \<^verbatim>\<open>"SECU"\<close>.\<close>

abbreviation (input) SEC_FRONT :: u32 where "SEC_FRONT \<equiv> 0x434D4453"
abbreviation (input) SEC_BACK :: u32 where "SEC_BACK \<equiv> 0x53454355"

section \<open>Identifiers\<close>

definition generate_secure_id :: "drs_generator \<Rightarrow> nat \<Rightarrow> drs_fault + u64 \<times> drs_generator" where
  "generate_secure_id gen cmd_index =
     (let (base, gen) = drs_next gen;
          transformed = base XOR (of_nat cmd_index * 0x9e3779b9);
          shift = unat (base mod 61) + 3;
          transformed = push_bit shift transformed OR drop_bit (64 - shift) transformed
      in bindR (drs_range gen 0x10000000 0xFFFFFFFF) (\<lambda>(magic, gen).
         Inr (transformed XOR magic, gen)))"

text \<open>One round of the loop of \<^verbatim>\<open>enum_system_init\<close>: identifier and validation key.\<close>

definition make_id :: "nat \<Rightarrow> u64 \<times> u64 \<Rightarrow> drs_fault + u64 \<times> u64" where
  "make_id i seeds =
     bindR (generate_secure_id (drs_init (fst seeds) (snd seeds)) i) (\<lambda>(cid, cmd_gen).
     bindR (drs_range cmd_gen 0x1000 0xFFFF) (\<lambda>(r, cmd_gen).
       let key = r XOR cid
       in Inr (cid, push_bit 16 key OR drop_bit 48 key)))"

fun make_ids :: "nat \<Rightarrow> (u64 \<times> u64) list \<Rightarrow> drs_fault + (u64 \<times> u64) list" where
  "make_ids i [] = Inr []"
| "make_ids i (seeds # rest) =
     bindR (make_id i seeds) (\<lambda>x. bindR (make_ids (i + 1) rest) (\<lambda>xs. Inr (x # xs)))"

text \<open>The assignment to the 32-bit \<^verbatim>\<open>system_magic\<close> keeps the low half of the constant.\<close>

definition SYSTEM_MAGIC :: u64 where
  "SYSTEM_MAGIC = 0x454E554D53454300"

definition enum_system_init :: "bool \<Rightarrow> int \<Rightarrow> u64 \<Rightarrow> drs_fault + enum_system option" where
  "enum_system_init calloc_ok time seed =
     (if \<not> calloc_ok then Inr None
      else
        let s1 = seed XOR 0xDEADBEEFCAFEBABE;
            s2 = (NOT seed) XOR 0xBEEFDEADFACEFACE
        in bindR (make_ids 0 CMD_SEEDS) (\<lambda>ids.
           Inr (Some \<lparr>sys_gen = drs_init s1 s2, generated_ids = map fst ids,
             validation_keys = map snd ids, init_time = time,
             system_magic = ucast SYSTEM_MAGIC\<rparr>)))"

definition cmd_system_init :: "bool \<Rightarrow> int \<Rightarrow> u64 \<Rightarrow> drs_fault + enum_system option" where
  "cmd_system_init calloc_ok time seed = enum_system_init calloc_ok time seed"

text \<open>The test of one slot.\<close>

definition id_check :: "u64 \<Rightarrow> u64 \<times> u64 \<Rightarrow> bool" where
  "id_check cmd_value slot =
     (fst slot = cmd_value \<and>
      (let check = cmd_value XOR snd slot;
           check = drop_bit 16 check OR push_bit 48 check
       in check AND 0xFFFF = snd slot AND 0xFFFF))"

definition secure_validate_cmd_id :: "enum_system option \<Rightarrow> u64 \<Rightarrow> bool" where
  "secure_validate_cmd_id sys cid =
     (case sys of
        None \<Rightarrow> False
      | Some s \<Rightarrow>
          if ucast (system_magic s) \<noteq> SYSTEM_MAGIC then False
          else list_ex (id_check cid) (zip (generated_ids s) (validation_keys s)))"

section \<open>Validators and error codes\<close>

definition nonempty_arg :: "string option \<Rightarrow> bool" where
  "nonempty_arg a = (case a of None \<Rightarrow> False | Some s \<Rightarrow> length s > 0)"

fun run_validator :: "cmd_validator \<Rightarrow> cmd_args \<Rightarrow> bool" where
  "run_validator validate_key args = (length args = 1 \<and> nonempty_arg (args ! 0))"
| "run_validator validate_kv args =
     (length args = 2 \<and> args ! 0 \<noteq> None \<and> args ! 1 \<noteq> None \<and> nonempty_arg (args ! 0))"
| "run_validator validate_keys args =
     (if length args < 1 \<or> length args > 5 then False else list_all nonempty_arg args)"
| "run_validator validate_auth args = (length args = 1 \<and> nonempty_arg (args ! 0))"

definition get_error_success :: int where "get_error_success = 0"
definition get_error_system_not_initialized :: int where "get_error_system_not_initialized = -1"
definition get_error_invalid_parameters :: int where "get_error_invalid_parameters = -2"
definition get_error_command_not_found :: int where "get_error_command_not_found = -3"
definition get_error_command_corrupted :: int where "get_error_command_corrupted = -4"
definition get_error_command_invalid :: int where "get_error_command_invalid = -5"
definition get_error_invalid_arg_count :: int where "get_error_invalid_arg_count = -6"
definition get_error_arg_validation_failed :: int where "get_error_arg_validation_failed = -7"
definition get_error_no_handler :: int where "get_error_no_handler = -8"

lemmas error_codes = get_error_success_def get_error_system_not_initialized_def
  get_error_invalid_parameters_def get_error_command_not_found_def get_error_command_corrupted_def
  get_error_command_invalid_def get_error_invalid_arg_count_def
  get_error_arg_validation_failed_def get_error_no_handler_def

definition get_error_message :: "int \<Rightarrow> string" where
  "get_error_message code =
     (if code = get_error_success then ''Success''
      else if code = get_error_system_not_initialized then ''Command system not initialized''
      else if code = get_error_invalid_parameters then ''Invalid parameters provided''
      else if code = get_error_command_not_found then ''Command not found''
      else if code = get_error_command_corrupted then ''Command structure corrupted''
      else if code = get_error_command_invalid then ''Invalid command ID detected''
      else if code = get_error_invalid_arg_count then ''Invalid number of arguments''
      else if code = get_error_arg_validation_failed then ''Argument validation failed''
      else if code = get_error_no_handler then ''No handler for command''
      else ''Unknown error code'')"

definition error_code_to_string :: "int \<Rightarrow> string" where
  "error_code_to_string code =
     (if code = get_error_success then ''SUCCESS''
      else if code = get_error_system_not_initialized then ''ERROR_SYSTEM_NOT_INITIALIZED''
      else if code = get_error_invalid_parameters then ''ERROR_INVALID_PARAMETERS''
      else if code = get_error_command_not_found then ''ERROR_COMMAND_NOT_FOUND''
      else if code = get_error_command_corrupted then ''ERROR_COMMAND_CORRUPTED''
      else if code = get_error_command_invalid then ''ERROR_COMMAND_INVALID''
      else if code = get_error_invalid_arg_count then ''ERROR_INVALID_ARG_COUNT''
      else if code = get_error_arg_validation_failed then ''ERROR_ARG_VALIDATION_FAILED''
      else if code = get_error_no_handler then ''ERROR_NO_HANDLER''
      else ''ERROR_UNKNOWN'')"

definition is_error_code :: "int \<Rightarrow> bool" where
  "is_error_code code = (code < get_error_success)"

definition is_success_code :: "int \<Rightarrow> bool" where
  "is_success_code code = (code = get_error_success)"

section \<open>The command table\<close>

record cmd_template =
  t_name :: string
  t_min :: nat
  t_max :: nat
  t_validator :: "cmd_validator option"
  t_handler :: "cmd_handler option"

definition cmd_templates :: "cmd_template list" where
  "cmd_templates =
    [\<lparr>t_name = ''GET'', t_min = 1, t_max = 1, t_validator = Some validate_key, t_handler = Some handle_get\<rparr>,
     \<lparr>t_name = ''SET'', t_min = 2, t_max = 2, t_validator = Some validate_kv, t_handler = Some handle_set\<rparr>,
     \<lparr>t_name = ''DELETE'', t_min = 1, t_max = 5, t_validator = Some validate_keys, t_handler = Some handle_delete\<rparr>,
     \<lparr>t_name = ''PING'', t_min = 0, t_max = 0, t_validator = None, t_handler = Some handle_ping\<rparr>,
     \<lparr>t_name = ''QUIT'', t_min = 0, t_max = 0, t_validator = None, t_handler = Some handle_quit\<rparr>,
     \<lparr>t_name = ''AUTH'', t_min = 1, t_max = 1, t_validator = Some validate_auth, t_handler = Some handle_auth\<rparr>]"

definition command_system_global_cleanup :: "command_system \<Rightarrow> command_system" where
  "command_system_global_cleanup g = \<lparr>g_global_cmd_system = None,
     g_valid_commands = replicate 6 zero_command, g_command_system_initialized = False\<rparr>"

fun find_name :: "nat \<Rightarrow> string list \<Rightarrow> string \<Rightarrow> nat option" where
  "find_name j [] name = None"
| "find_name j (n # ns) name = (if strcmp n name = 0 then Some j else find_name (j + 1) ns name)"

definition template_command :: "cmd_template \<Rightarrow> u64 \<Rightarrow> command_definition" where
  "template_command t cid = \<lparr>cmd_name = Some (t_name t), cmd_id = cid, min_args = t_min t,
     max_args = t_max t, validator = t_validator t, handler = t_handler t,
     sec_front = SEC_FRONT, sec_back = SEC_BACK\<rparr>"

text \<open>The loop over the templates, from slot \<open>i\<close> on.\<close>

fun init_commands ::
  "nat \<Rightarrow> cmd_template list \<Rightarrow> enum_system \<Rightarrow> command_system \<Rightarrow> bool \<times> command_system" where
  "init_commands i [] sys g = (True, g\<lparr>g_command_system_initialized := True\<rparr>)"
| "init_commands i (t # ts) sys g =
     (case find_name 0 CMD_NAMES (t_name t) of
        None \<Rightarrow> (False, command_system_global_cleanup g)
      | Some cmd_index \<Rightarrow>
          let cid = generated_ids sys ! cmd_index
          in if cid = 0 then (False, command_system_global_cleanup g)
             else init_commands (i + 1) ts sys
                    (g\<lparr>g_valid_commands := (g_valid_commands g)[i := template_command t cid]\<rparr>))"

definition command_system_global_init ::
  "bool \<Rightarrow> int \<Rightarrow> u64 \<Rightarrow> command_system \<Rightarrow> drs_fault + bool \<times> command_system" where
  "command_system_global_init calloc_ok time seed g =
     (if seed = 0 then Inr (False, g)
      else if g_command_system_initialized g then Inr (True, g)
      else bindR (enum_system_init calloc_ok time seed) (\<lambda>sys.
        case sys of
          None \<Rightarrow> Inr (False, g\<lparr>g_global_cmd_system := None\<rparr>)
        | Some s \<Rightarrow> Inr (init_commands 0 cmd_templates s (g\<lparr>g_global_cmd_system := Some s\<rparr>))))"

definition is_command_system_initialized :: "command_system \<Rightarrow> bool" where
  "is_command_system_initialized g = g_command_system_initialized g"

section \<open>Lookup\<close>

definition upper_char :: "char \<Rightarrow> char" where
  "upper_char c = (if (97 :: nat) \<le> of_char c \<and> of_char c \<le> (122 :: nat)
     then char_of ((of_char c :: nat) - 32) else c)"

text \<open>
  \<open>safe_to_upper_string dest dest_size src\<close> for arrays that exist; source and destination
  may be the same array, since every byte is read before it is written.
\<close>

definition safe_to_upper_string :: "string \<Rightarrow> nat \<Rightarrow> string \<Rightarrow> string" where
  "safe_to_upper_string dest dest_size src =
     (if dest_size \<le> 1 then dest
      else let s = take (dest_size - 1) (cstr src)
           in map upper_char s @ NUL # drop (length s + 1) dest)"

definition command_intact :: "command_definition \<Rightarrow> bool" where
  "command_intact cmd = (sec_front cmd = SEC_FRONT \<and> sec_back cmd = SEC_BACK)"

definition entry_matches :: "string \<Rightarrow> command_definition \<Rightarrow> bool" where
  "entry_matches upper_cmd cmd = (command_intact cmd
     \<and> strcmp (case cmd_name cmd of Some s \<Rightarrow> s | None \<Rightarrow> []) upper_cmd = 0)"

definition get_command_secure :: "command_system \<Rightarrow> string option \<Rightarrow> command_definition option" where
  "get_command_secure g name =
     (case name of
        None \<Rightarrow> None
      | Some n \<Rightarrow>
          if \<not> g_command_system_initialized g then None
          else let upper_cmd = copy_field 32 (replicate 32 NUL) n;
                   upper_cmd = safe_to_upper_string upper_cmd 32 upper_cmd
               in find (entry_matches (cstr upper_cmd)) (g_valid_commands g))"

definition find_command_safe :: "command_system \<Rightarrow> string option \<Rightarrow> command_definition option" where
  "find_command_safe g name =
     (case name of
        None \<Rightarrow> None
      | Some n \<Rightarrow> get_command_secure g (Some (cstr (safe_to_upper_string (replicate 32 NUL) 32 n))))"

subsection \<open>Accessors\<close>

definition cmd_def_get_name :: "command_definition option \<Rightarrow> string option" where
  "cmd_def_get_name cmd = (case cmd of None \<Rightarrow> None | Some c \<Rightarrow> cmd_name c)"

definition cmd_def_get_id :: "command_definition option \<Rightarrow> u64" where
  "cmd_def_get_id cmd = (case cmd of None \<Rightarrow> 0 | Some c \<Rightarrow> cmd_id c)"

definition cmd_def_get_min_args :: "command_definition option \<Rightarrow> nat" where
  "cmd_def_get_min_args cmd = (case cmd of None \<Rightarrow> 0 | Some c \<Rightarrow> min_args c)"

definition cmd_def_get_max_args :: "command_definition option \<Rightarrow> nat" where
  "cmd_def_get_max_args cmd = (case cmd of None \<Rightarrow> 0 | Some c \<Rightarrow> max_args c)"

definition cmd_def_has_validator :: "command_definition option \<Rightarrow> bool" where
  "cmd_def_has_validator cmd = (case cmd of None \<Rightarrow> False | Some c \<Rightarrow> validator c \<noteq> None)"

definition cmd_def_validate :: "command_definition option \<Rightarrow> cmd_args \<Rightarrow> bool" where
  "cmd_def_validate cmd args =
     (case cmd of
        None \<Rightarrow> True
      | Some c \<Rightarrow> (case validator c of None \<Rightarrow> True | Some v \<Rightarrow> run_validator v args))"

definition cmd_def_get_sec_front :: "command_definition option \<Rightarrow> u32" where
  "cmd_def_get_sec_front cmd = (case cmd of None \<Rightarrow> 0 | Some c \<Rightarrow> sec_front c)"

definition cmd_def_get_sec_back :: "command_definition option \<Rightarrow> u32" where
  "cmd_def_get_sec_back cmd = (case cmd of None \<Rightarrow> 0 | Some c \<Rightarrow> sec_back c)"

definition cmd_def_check_integrity :: "command_definition option \<Rightarrow> bool" where
  "cmd_def_check_integrity cmd = (case cmd of None \<Rightarrow> False | Some c \<Rightarrow> command_intact c)"

end
