(* ===== verification/Client.thy ===== *)
theory Client
  imports Command_System
begin

text \<open>
  The cache client of \<^verbatim>\<open>kryocache/src/core/client\<close> (\<^verbatim>\<open>client.c\<close>, \<^verbatim>\<open>constants.c\<close>): its state,
  the connection with its retry loop, and one definition per API function.

  \<^item> A function takes the client as \<open>client_instance option\<close> (\<open>None\<close> is NULL) and returns
    its result, the client afterwards and the socket calls it made and lines it printed, oldest
    first. \<^verbatim>\<open>setsockopt\<close> and \<^verbatim>\<open>fcntl\<close>, whose failure the code only logs, are recorded with their
    outcome. The mutex is left out: every path that takes it releases it, and calls are sequential.
  \<^item> One call meets the world described by the record \<open>net\<close>: what each system call returns.
    \<open>recv_reply\<close> depends on the bytes sent before it in the same call; \<open>stack_bytes\<close> is what
    an uninitialised response buffer holds; \<open>socket_flags\<close> is the mode of the new socket, which
    \<^verbatim>\<open>F_GETFL\<close> returns. One \<open>strerror\<close> stands for the text of every error.
  \<^item> \<^verbatim>\<open>sin6_port\<close> is kept in host order. \<^verbatim>\<open>double\<close> seconds, always a sum of whole seconds here, are
    \<open>int\<close>. The back-off delay of an attempt is \<open>None\<close> where its product overflows \<^verbatim>\<open>int\<close>, from
    attempt 15 on, which C leaves undefined.
\<close>

section \<open>Constants\<close>

definition get_client_default_host :: string where "get_client_default_host = ''::1''"
definition get_client_default_port :: u32 where "get_client_default_port = 6898"
definition get_client_default_timeout :: u32 where "get_client_default_timeout = 5000"
definition get_client_max_retries :: u32 where "get_client_max_retries = 3"
definition get_client_auto_reconnect :: bool where "get_client_auto_reconnect = True"
definition get_max_command_length :: nat where "get_max_command_length = 4096"
definition get_client_buffer_size :: nat where "get_client_buffer_size = 4096"
definition get_client_max_key_length :: nat where "get_client_max_key_length = 256"
definition get_client_max_value_length :: nat where "get_client_max_value_length = 1048576"

text \<open>Linux's values of two constants of the system headers.\<close>

definition AF_INET6 :: nat where "AF_INET6 = 10"
definition O_NONBLOCK :: u32 where "O_NONBLOCK = 2048"

lemmas client_limits [simp] = get_max_command_length_def get_client_buffer_size_def
  get_client_max_key_length_def get_client_max_value_length_def

section \<open>Data\<close>

datatype client_status =
    STATUS_DISCONNECTED | STATUS_CONNECTING | STATUS_CONNECTED | STATUS_ERROR

text \<open>\<open>Client_Result_Minus_One\<close> is the \<^verbatim>\<open>return -1\<close> that no enumerator names.\<close>

datatype client_result =
    CLIENT_SUCCESS | CLIENT_SUCCESS_ENCRYPTED | CLIENT_ERROR_CONNECTION | CLIENT_ERROR_TIMEOUT
  | CLIENT_ERROR_PROTOCOL | CLIENT_ERROR_SERVER | CLIENT_ERROR_MEMORY | CLIENT_ERROR_INVALID_PARAM
  | CLIENT_ERROR_ENCRYPTED | Client_Result_Minus_One

record client_config =
  host :: "string option"
  port :: u32
  timeout_ms :: u32
  max_retries :: u32
  auto_reconnect :: bool

record client_stats =
  operations_total :: u64
  operations_failed :: u64
  bytes_sent :: u64
  bytes_received :: u64
  reconnect_count :: u32
  connection_time_seconds :: int

record sockaddr_in6 =
  sin6_family :: nat
  sin6_port :: "16 word"
  sin6_addr :: "128 word"

record client_instance =
  config :: client_config
  status :: client_status
  sockfd :: int
  server_addr :: sockaddr_in6
  stats :: client_stats
  last_error :: string
  connect_time :: int
  last_activity :: int
  cmd_system :: "enum_system option"

datatype errno =
    EINPROGRESS | EALREADY | EISCONN | ECONNREFUSED | ETIMEDOUT | ENETUNREACH | EHOSTUNREACH
  | EACCES | EAGAIN | Other_Errno

datatype connect_outcome = Connect_Ok | Connect_Error errno

record poll_outcome =
  poll_result :: int
  poll_bad_events :: bool
  poll_writable :: bool
  getsockopt_result :: int
  so_error :: int

record net =
  inet_pton6 :: "string \<Rightarrow> 128 word option"
  socket_fd :: int
  socket_flags :: u32
  rcvtimeo_ok :: bool
  sndtimeo_ok :: bool
  nonblock_ok :: bool
  restore_ok :: bool
  connect_outcome :: "nat \<Rightarrow> connect_outcome"
  poll_outcome :: "nat \<Rightarrow> poll_outcome"
  errno_after_poll :: "nat \<Rightarrow> errno"
  send_result :: "string \<Rightarrow> int"
  recv_reply :: "string \<Rightarrow> string option"
  strerror :: string
  stack_bytes :: string
  time_now :: int

datatype sock_event =
    Sock_Open int | Sock_Rcv_Timeout int nat nat bool | Sock_Snd_Timeout int nat nat bool
  | Sock_Set_Flags int u32 bool | Sock_Connect int sockaddr_in6 | Sock_Poll int int
  | Sock_Sleep "int option" | Sock_Send int string | Sock_Close int | Sock_Print string

text \<open>\<^verbatim>\<open>snprintf(client->last_error, sizeof(client->last_error), ...)\<close>.\<close>

definition set_error :: "string \<Rightarrow> client_instance \<Rightarrow> client_instance" where
  "set_error msg c = c\<lparr>last_error := snprintf 256 msg\<rparr>"

section \<open>Lifecycle\<close>

definition client_config_default :: client_config where
  "client_config_default = \<lparr>host = Some get_client_default_host, port = get_client_default_port,
     timeout_ms = get_client_default_timeout, max_retries = get_client_max_retries,
     auto_reconnect = get_client_auto_reconnect\<rparr>"

definition client_init ::
  "bool \<Rightarrow> bool \<Rightarrow> bool \<Rightarrow> int \<Rightarrow> client_config option \<Rightarrow> u64 \<Rightarrow> drs_fault + client_instance option" where
  "client_init calloc_ok sys_calloc_ok mutex_ok time conf seed =
     (case conf of
        None \<Rightarrow> Inr None
      | Some cfg \<Rightarrow>
          if \<not> calloc_ok then Inr None
          else bindR (cmd_system_init sys_calloc_ok time seed) (\<lambda>sys.
            case sys of
              None \<Rightarrow> Inr None
            | Some s \<Rightarrow>
                if \<not> mutex_ok then Inr None
                else Inr (Some \<lparr>config = cfg, status = STATUS_DISCONNECTED, sockfd = -1,
                  server_addr = \<lparr>sin6_family = 0, sin6_port = 0, sin6_addr = 0\<rparr>,
                  stats = \<lparr>operations_total = 0, operations_failed = 0, bytes_sent = 0,
                    bytes_received = 0, reconnect_count = 0, connection_time_seconds = 0\<rparr>,
                  last_error = [], connect_time = 0, last_activity = 0, cmd_system = Some s\<rparr>)))"

definition client_init_default ::
  "bool \<Rightarrow> bool \<Rightarrow> bool \<Rightarrow> int \<Rightarrow> drs_fault + client_instance option" where
  "client_init_default calloc_ok sys_calloc_ok mutex_ok time =
     client_init calloc_ok sys_calloc_ok mutex_ok time (Some client_config_default) 0"

section \<open>Connecting\<close>

definition check_connection_complete_poll :: "poll_outcome \<Rightarrow> bool" where
  "check_connection_complete_poll p =
     (if poll_result p \<le> 0 then False
      else if poll_bad_events p then False
      else if poll_writable p then
        (if getsockopt_result p < 0 then False else so_error p = 0)
      else False)"

definition set_connected :: "net \<Rightarrow> client_instance \<Rightarrow> client_instance" where
  "set_connected net c =
     c\<lparr>status := STATUS_CONNECTED, connect_time := time_now net, last_activity := time_now net\<rparr>"

definition server_address :: "client_config \<Rightarrow> 128 word \<Rightarrow> sockaddr_in6" where
  "server_address cfg addr =
     \<lparr>sin6_family = AF_INET6, sin6_port = ucast (port cfg), sin6_addr = addr\<rparr>"

text \<open>The time-outs of receiving and sending, then the non-blocking mode for connecting, each with its log line.\<close>

definition newline :: string where "newline = [CHR 0x0A]"

definition socket_setup :: "net \<Rightarrow> int \<Rightarrow> client_config \<Rightarrow> sock_event list" where
  "socket_setup net fd cfg =
     (let tv_sec = unat (timeout_ms cfg div 1000);
          tv_usec = unat ((timeout_ms cfg mod 1000) * 1000)
      in Sock_Rcv_Timeout fd tv_sec tv_usec (rcvtimeo_ok net)
         # (if rcvtimeo_ok net then []
            else [Sock_Print (''DEBUG: SO_RCVTIMEO setsockopt failed: '' @ strerror net @ newline)])
         @ Sock_Snd_Timeout fd tv_sec tv_usec (sndtimeo_ok net)
         # (if sndtimeo_ok net then []
            else [Sock_Print (''DEBUG: SO_SNDTIMEO setsockopt failed: '' @ strerror net @ newline)])
         @ [Sock_Set_Flags fd (socket_flags net OR O_NONBLOCK) (nonblock_ok net),
            Sock_Print (if nonblock_ok net then ''DEBUG: Socket set to non-blocking mode'' @ newline
              else ''DEBUG: Setting O_NONBLOCK failed: '' @ strerror net @ newline)])"

text \<open>\<^verbatim>\<open>100 * (1 << attempt) * 1000\<close> in \<^verbatim>\<open>int\<close>.\<close>

definition backoff_us :: "nat \<Rightarrow> int option" where
  "backoff_us attempt =
     (if 100 * 2 ^ attempt * 1000 < (2 :: int) ^ 31 then Some (100 * 2 ^ attempt * 1000) else None)"

definition retry_pause :: "nat \<Rightarrow> nat \<Rightarrow> sock_event list" where
  "retry_pause k todo = (if todo > 0 then [Sock_Sleep (backoff_us k)] else [])"

text \<open>
  The retry loop from attempt \<open>k\<close> with \<open>todo\<close> attempts left: what it returned with, if it
  returned from inside, the client, and the socket calls.
\<close>

fun connect_loop ::
  "net \<Rightarrow> client_instance \<Rightarrow> nat \<Rightarrow> nat \<Rightarrow> client_result option \<times> client_instance \<times> sock_event list" where
  "connect_loop net c k 0 = (None, c, [])"
| "connect_loop net c k (Suc todo) =
     (let call = Sock_Connect (sockfd c) (server_addr c);
          poll = Sock_Poll (sockfd c) (sint (timeout_ms (config c)));
          restore = Sock_Set_Flags (sockfd c) (socket_flags net) (restore_ok net);
          (r, c', es) = connect_loop net c (k + 1) todo
      in case connect_outcome net k of
           Connect_Ok \<Rightarrow> (Some CLIENT_SUCCESS, set_connected net c,
             [call, restore, Sock_Print (if restore_ok net then ''DEBUG: Socket restored to blocking mode'' @ newline
                else ''DEBUG: WARNING: Failed to restore blocking mode: '' @ strerror net @ newline)])
         | Connect_Error e \<Rightarrow>
             if e = EINPROGRESS \<or> e = EALREADY then
               (if check_connection_complete_poll (poll_outcome net k) then
                  (if errno_after_poll net k = EACCES \<or> errno_after_poll net k = EAGAIN
                   then (Some Client_Result_Minus_One, c, [call, poll, restore,
                     Sock_Print ''Operation is prohibited by locks held by other processes''])
                   else (Some CLIENT_SUCCESS, set_connected net c, [call, poll, restore]))
                else (r, c', [call, poll, Sock_Print (''DEBUG: Poll check FAILED'' @ newline)] @ retry_pause k todo @ es))
             else if e = EISCONN then (Some CLIENT_SUCCESS, set_connected net c, [call, restore])
             else if e = ECONNREFUSED \<or> e = ETIMEDOUT \<or> e = ENETUNREACH \<or> e = EHOSTUNREACH then
               (r, c', [call] @ retry_pause k todo @ es)
             else (None, set_error (''Critical connection error: '' @ strerror net) c, [call]))"

text \<open>The end of the function once the loop is over: no attempt succeeded.\<close>

definition connection_failed ::
  "net \<Rightarrow> client_instance \<Rightarrow> client_result \<times> client_instance \<times> sock_event list" where
  "connection_failed net c =
     (CLIENT_ERROR_CONNECTION,
      (set_error (''Connection failed after '' @ signed_digits (max_retries (config c))
         @ '' attempts: '' @ strerror net) c)\<lparr>sockfd := -1\<rparr>,
      [Sock_Set_Flags (sockfd c) (socket_flags net) (restore_ok net), Sock_Close (sockfd c)])"

definition client_establish_connection ::
  "net \<Rightarrow> client_instance \<Rightarrow> client_result \<times> client_instance \<times> sock_event list" where
  "client_establish_connection net c =
     (case host (config c) of
        None \<Rightarrow> (CLIENT_ERROR_PROTOCOL, set_error ''Host is NULL or empty'' c, [])
      | Some h \<Rightarrow>
          if h = [] then (CLIENT_ERROR_PROTOCOL, set_error ''Host is NULL or empty'' c, [])
          else (case inet_pton6 net h of
            None \<Rightarrow> (CLIENT_ERROR_PROTOCOL, set_error (''Invalid IPv6 address: '' @ h) c, [])
          | Some addr \<Rightarrow>
              let c = c\<lparr>sockfd := socket_fd net\<rparr>
              in if sockfd c < 0 then
                   (CLIENT_ERROR_CONNECTION, set_error (''Socket creation failed: '' @ strerror net) c, [])
                 else
                   let c = c\<lparr>server_addr := server_address (config c) addr\<rparr>;
                       prep = Sock_Open (sockfd c) # socket_setup net (sockfd c) (config c)
                   in (case connect_loop net c 0 (unat (max_retries (config c))) of
                         (Some r, c', es) \<Rightarrow> (r, c', prep @ es)
                       | (None, c', es) \<Rightarrow>
                           (case connection_failed net c' of
                              (r, c'', es') \<Rightarrow> (r, c'', prep @ es @ es')))))"

text \<open>An operation on a client that may be NULL.\<close>

definition on_client ::
  "client_instance option \<Rightarrow> (client_instance \<Rightarrow> client_result \<times> client_instance \<times> sock_event list) \<Rightarrow>
     client_result \<times> client_instance option \<times> sock_event list" where
  "on_client client f =
     (case client of
        None \<Rightarrow> (CLIENT_ERROR_CONNECTION, None, [])
      | Some c \<Rightarrow> (case f c of (r, c', es) \<Rightarrow> (r, Some c', es)))"

definition connect_locked ::
  "net \<Rightarrow> client_instance \<Rightarrow> client_result \<times> client_instance \<times> sock_event list" where
  "connect_locked net c =
     (if status c = STATUS_CONNECTED then (CLIENT_SUCCESS, c, [])
      else case client_establish_connection net (c\<lparr>status := STATUS_CONNECTING\<rparr>) of
        (r, c', es) \<Rightarrow>
          if r = CLIENT_SUCCESS then
            (r, (set_connected net c')\<lparr>last_error := []\<rparr>, es)
          else
            (r, c'\<lparr>status := STATUS_ERROR,
                   stats := (stats c')\<lparr>operations_failed := operations_failed (stats c') + 1\<rparr>\<rparr>, es))"

definition client_connect ::
  "net \<Rightarrow> client_instance option \<Rightarrow> client_result \<times> client_instance option \<times> sock_event list" where
  "client_connect net client = on_client client (connect_locked net)"

definition client_disconnect ::
  "net \<Rightarrow> client_instance option \<Rightarrow> client_result \<times> client_instance option \<times> sock_event list" where
  "client_disconnect net client = on_client client (\<lambda>c.
     if status c \<noteq> STATUS_CONNECTED then (CLIENT_SUCCESS, c, [])
     else
       let (c1, es) = (if sockfd c \<ge> 0 then (c\<lparr>sockfd := -1\<rparr>, [Sock_Close (sockfd c)]) else (c, []));
           c2 = (if connect_time c1 > 0
                 then c1\<lparr>stats := (stats c1)\<lparr>connection_time_seconds :=
                          connection_time_seconds (stats c1) + (time_now net - connect_time c1)\<rparr>,
                        connect_time := 0\<rparr>
                 else c1)
       in (CLIENT_SUCCESS, c2\<lparr>status := STATUS_DISCONNECTED, last_error := []\<rparr>, es))"

text \<open>What is left of a destroyed client is what its sockets saw.\<close>

definition client_destroy :: "net \<Rightarrow> client_instance option \<Rightarrow> sock_event list" where
  "client_destroy net client =
     (case client of
        None \<Rightarrow> []
      | Some c \<Rightarrow>
          if status c = STATUS_CONNECTED
          then snd (snd (client_disconnect net (Some c))) else [])"

end
