(* ===== verification/Client_Ops.thy ===== *)
theory Client_Ops
  imports Client
begin

text \<open>
  The operations of the client (\<^verbatim>\<open>client.c\<close>): sending one command and reading one reply, the
  six cache operations on top of it, and the information and utility functions. The command
  table of the process is the parameter \<open>g\<close> of the one operation that looks into it.
\<close>

section \<open>One command, one reply\<close>

text \<open>
  The response buffer holds what the stack held until a reply is received; it is returned
  because callers read it on failure as well.
\<close>

definition client_send_command ::
  "net \<Rightarrow> client_instance \<Rightarrow> string \<Rightarrow> string \<Rightarrow> nat \<Rightarrow>
     client_result \<times> client_instance \<times> string \<times> sock_event list" where
  "client_send_command net c command response_buffer response_size =
     (if response_size = 0 \<or> response_size > get_client_buffer_size then
        (CLIENT_ERROR_INVALID_PARAM, c, response_buffer, [])
      else if status c \<noteq> STATUS_CONNECTED then (CLIENT_ERROR_CONNECTION, c, response_buffer, [])
      else if length command = 0 \<or> length command > get_max_command_length then
        (CLIENT_ERROR_INVALID_PARAM,
         set_error (''Invalid command length: '' @ dec_digits (length command)) c, response_buffer, [])
      else
        let sent = send_result net command;
            es = [Sock_Send (sockfd c) command]
        in if sent < 0 then
             (CLIENT_ERROR_CONNECTION, set_error (''Send failed: '' @ strerror net) c, response_buffer, es)
           else
             let c = c\<lparr>stats := (stats c)\<lparr>bytes_sent := bytes_sent (stats c) + word_of_int sent\<rparr>\<rparr>
             in case recv_reply net command of
                  None \<Rightarrow>
                    (CLIENT_ERROR_CONNECTION, set_error (''Receive failed: '' @ strerror net) c,
                     response_buffer, es)
                | Some reply \<Rightarrow>
                    let received = take (response_size - 1) reply
                    in (CLIENT_SUCCESS,
                        c\<lparr>stats := (stats c)\<lparr>bytes_received := bytes_received (stats c) + of_nat (length received)\<rparr>,
                          last_activity := time_now net\<rparr>,
                        received @ NUL # drop (length received + 1) response_buffer, es))"

definition count_operation :: "client_result \<Rightarrow> client_instance \<Rightarrow> client_instance" where
  "count_operation r c =
     c\<lparr>stats := (stats c)\<lparr>operations_total := operations_total (stats c) + 1,
        operations_failed := operations_failed (stats c) + (if r = CLIENT_SUCCESS then 0 else 1)\<rparr>\<rparr>"

text \<open>Connect, then send \<open>command\<close>; the buffer is returned for the caller to look at.\<close>

definition connect_and_send ::
  "net \<Rightarrow> client_instance \<Rightarrow> string \<Rightarrow>
     client_result \<times> client_instance \<times> string option \<times> sock_event list" where
  "connect_and_send net c command =
     (case connect_locked net c of
        (r, c, es) \<Rightarrow>
          if r \<noteq> CLIENT_SUCCESS then (r, c, None, es)
          else case client_send_command net c command (stack_bytes net) get_client_buffer_size of
            (r, c, response, es') \<Rightarrow> (r, count_operation r c, Some response, es @ es'))"

section \<open>Cache operations\<close>

definition key_too_long :: "string \<Rightarrow> client_instance \<Rightarrow> client_instance" where
  "key_too_long k = set_error (''Key too long: '' @ dec_digits (length k) @ '' bytes (max: ''
     @ dec_digits get_client_max_key_length @ '')'')"

text \<open>The checks \<open>client_set\<close> makes before it connects: a result to return at once, or none.\<close>

definition set_checks ::
  "command_system \<Rightarrow> client_instance \<Rightarrow> string \<Rightarrow> string \<Rightarrow> (client_result \<times> client_instance) option" where
  "set_checks g c key val =
     (if cmd_system c = None then
        Some (CLIENT_ERROR_PROTOCOL, set_error ''Client command system not initialized'' c)
      else
        let cmd_def = get_command_secure g (Some ''SET'')
        in if cmd_def = None then
             Some (CLIENT_ERROR_PROTOCOL, set_error ''Command 'SET' not found in system'' c)
           else if cmd_def_get_sec_front cmd_def \<noteq> SEC_FRONT \<or> cmd_def_get_sec_back cmd_def \<noteq> SEC_BACK then
             Some (CLIENT_ERROR_PROTOCOL, set_error ''Command 'SET' structure corrupted'' c)
           else if cmd_def_has_validator cmd_def \<and> \<not> cmd_def_validate cmd_def [Some key, Some val] then
             Some (CLIENT_ERROR_INVALID_PARAM, set_error ''SET command arguments validation failed'' c)
           else if length key > get_client_max_key_length then
             Some (CLIENT_ERROR_PROTOCOL, key_too_long key c)
           else if length val > get_client_max_value_length then
             Some (CLIENT_ERROR_PROTOCOL, set_error (''Value too long: '' @ dec_digits (length val)
               @ '' bytes (max: '' @ dec_digits get_client_max_value_length @ '')'') c)
           else None)"

definition client_set_body ::
  "net \<Rightarrow> command_system \<Rightarrow> client_instance \<Rightarrow> string \<Rightarrow> string \<Rightarrow>
     client_result \<times> client_instance \<times> sock_event list" where
  "client_set_body net g c key val =
     (case set_checks g c key val of
        Some (r, c') \<Rightarrow> (r, c', [])
      | None \<Rightarrow>
          (case connect_locked net c of
             (r, c, es) \<Rightarrow>
               if r \<noteq> CLIENT_SUCCESS then (r, c, es)
               else
                 let cmd_len = length key + length val + 32
                 in if cmd_len > get_max_command_length then
                      (CLIENT_ERROR_PROTOCOL, set_error (''Command too long: '' @ dec_digits cmd_len
                         @ '' bytes (max: '' @ dec_digits get_max_command_length @ '')'') c, es)
                    else
                      let line = ''SET '' @ key @ '' '' @ val @ crlf
                      in if length line \<ge> get_max_command_length then
                           (CLIENT_ERROR_PROTOCOL, set_error ''Failed to format SET command'' c, es)
                         else
                           (case client_send_command net c line (stack_bytes net) get_client_buffer_size of
                              (r, c, response, es') \<Rightarrow>
                                let c = count_operation r c
                                in (r,
                                    (if r \<noteq> CLIENT_SUCCESS then
                                       (if cstr response \<noteq> [] then c\<lparr>last_error := take 255 (cstr response)\<rparr>
                                        else c)
                                     else c\<lparr>last_error := []\<rparr>),
                                    es @ es'))))"

definition client_set ::
  "net \<Rightarrow> command_system \<Rightarrow> client_instance option \<Rightarrow> string option \<Rightarrow> string option \<Rightarrow>
     client_result \<times> client_instance option \<times> sock_event list" where
  "client_set net g client key val =
     (case (key, val) of
        (Some k, Some v) \<Rightarrow> on_client client (\<lambda>c. client_set_body net g c k v)
      | _ \<Rightarrow> (CLIENT_ERROR_CONNECTION, client, []))"

text \<open>\<open>client_get\<close> also returns the caller's value buffer, an array of \<open>buffer_size\<close> bytes.\<close>

definition client_get_body ::
  "net \<Rightarrow> client_instance \<Rightarrow> string \<Rightarrow> string \<Rightarrow> nat \<Rightarrow>
     client_result \<times> client_instance \<times> string \<times> sock_event list" where
  "client_get_body net c key value_buffer buffer_size =
     (if length key > get_client_max_key_length then
        (CLIENT_ERROR_PROTOCOL, key_too_long key c, value_buffer, [])
      else
        (case connect_and_send net c (snprintf (get_client_max_key_length + 32) (''GET '' @ key @ crlf)) of
           (r, c, response, es) \<Rightarrow>
             (r, c,
              (case response of
                 Some buf \<Rightarrow> if r = CLIENT_SUCCESS then copy_field buffer_size value_buffer (cstr buf)
                             else value_buffer
               | None \<Rightarrow> value_buffer),
              es)))"

definition client_get ::
  "net \<Rightarrow> client_instance option \<Rightarrow> string option \<Rightarrow> string option \<Rightarrow> nat \<Rightarrow>
     client_result \<times> client_instance option \<times> string option \<times> sock_event list" where
  "client_get net client key value_buffer buffer_size =
     (case (client, key, value_buffer) of
        (Some c, Some k, Some buf) \<Rightarrow>
          if buffer_size = 0 then (CLIENT_ERROR_CONNECTION, client, value_buffer, [])
          else (case client_get_body net c k buf buffer_size of
                  (r, c', buf', es) \<Rightarrow> (r, Some c', Some buf', es))
      | _ \<Rightarrow> (CLIENT_ERROR_CONNECTION, client, value_buffer, []))"

text \<open>Operations that send one line and only look at whether a reply came.\<close>

definition send_line ::
  "net \<Rightarrow> string \<Rightarrow> client_instance \<Rightarrow> client_result \<times> client_instance \<times> sock_event list" where
  "send_line net line c = (case connect_and_send net c line of (r, c', _, es) \<Rightarrow> (r, c', es))"

definition keyed_line ::
  "net \<Rightarrow> nat \<Rightarrow> string \<Rightarrow> string \<Rightarrow> client_instance \<Rightarrow> client_result \<times> client_instance \<times> sock_event list" where
  "keyed_line net room word key c =
     (if length key > get_client_max_key_length then (CLIENT_ERROR_PROTOCOL, key_too_long key c, [])
      else send_line net (snprintf room (word @ key @ crlf)) c)"

definition client_exists ::
  "net \<Rightarrow> client_instance option \<Rightarrow> string option \<Rightarrow> client_result \<times> client_instance option \<times> sock_event list" where
  "client_exists net client key =
     (case key of
        None \<Rightarrow> (CLIENT_ERROR_CONNECTION, client, [])
      | Some k \<Rightarrow> on_client client (keyed_line net (get_client_max_key_length + 32) ''EXISTS '' k))"

definition client_delete ::
  "net \<Rightarrow> client_instance option \<Rightarrow> string option \<Rightarrow> client_result \<times> client_instance option \<times> sock_event list" where
  "client_delete net client key =
     (case key of
        None \<Rightarrow> (CLIENT_ERROR_CONNECTION, client, [])
      | Some k \<Rightarrow> on_client client (keyed_line net 512 ''DELETE '' k))"

definition client_flush ::
  "net \<Rightarrow> client_instance option \<Rightarrow> client_result \<times> client_instance option \<times> sock_event list" where
  "client_flush net client = on_client client (send_line net (''FLUSH'' @ crlf))"

definition client_ping ::
  "net \<Rightarrow> client_instance option \<Rightarrow> client_result \<times> client_instance option \<times> sock_event list" where
  "client_ping net client = on_client client (send_line net (''PING'' @ crlf))"

section \<open>Information and utilities\<close>

definition client_get_status :: "client_instance option \<Rightarrow> client_status" where
  "client_get_status client = (case client of None \<Rightarrow> STATUS_DISCONNECTED | Some c \<Rightarrow> status c)"

text \<open>The second argument is whether the caller passed a place for the statistics.\<close>

definition client_get_stats :: "net \<Rightarrow> client_instance option \<Rightarrow> bool \<Rightarrow> client_stats option" where
  "client_get_stats net client wanted =
     (case client of
        None \<Rightarrow> None
      | Some c \<Rightarrow>
          if \<not> wanted then None
          else Some (if status c = STATUS_CONNECTED \<and> connect_time c > 0
            then (stats c)\<lparr>connection_time_seconds :=
                   connection_time_seconds (stats c) + (time_now net - connect_time c)\<rparr>
            else stats c))"

definition client_get_config :: "client_instance option \<Rightarrow> client_config option" where
  "client_get_config client = map_option config client"

definition client_get_last_error :: "client_instance option \<Rightarrow> string" where
  "client_get_last_error client =
     (case client of
        None \<Rightarrow> ''No error''
      | Some c \<Rightarrow> if last_error c = [] then ''No error'' else last_error c)"

definition client_is_connected :: "client_instance option \<Rightarrow> bool" where
  "client_is_connected client = (case client of None \<Rightarrow> False | Some c \<Rightarrow> status c = STATUS_CONNECTED)"

text \<open>The result and, when it is false, the message left in a buffer of \<open>error_size\<close> bytes.\<close>

definition client_config_validate :: "client_config option \<Rightarrow> nat \<Rightarrow> bool \<times> string" where
  "client_config_validate conf error_size =
     (case conf of
        None \<Rightarrow> (False, snprintf error_size ''Configuration is NULL'')
      | Some cfg \<Rightarrow>
          if (case host cfg of None \<Rightarrow> True | Some h \<Rightarrow> length h = 0) then
            (False, snprintf error_size ''Host cannot be empty'')
          else if port cfg < 1 \<or> port cfg > 65535 then
            (False, snprintf error_size (''Invalid port: '' @ dec_digits (unat (port cfg)) @ '' (must be 1-65535)''))
          else if timeout_ms cfg = 0 then (False, snprintf error_size ''Timeout cannot be zero'')
          else (True, []))"

fun client_result_to_string :: "client_result \<Rightarrow> string" where
  "client_result_to_string CLIENT_SUCCESS = ''Success''"
| "client_result_to_string CLIENT_ERROR_CONNECTION = ''Connection error''"
| "client_result_to_string CLIENT_ERROR_TIMEOUT = ''Timeout error''"
| "client_result_to_string CLIENT_ERROR_PROTOCOL = ''Protocol error''"
| "client_result_to_string CLIENT_ERROR_SERVER = ''Server error''"
| "client_result_to_string CLIENT_ERROR_MEMORY = ''Memory error''"
| "client_result_to_string _ = ''Unknown error''"

end
