(* ===== verification/Drs_Eval.thy ===== *)
theory Drs_Eval
  imports Drs_Generator
begin

text \<open>
  Rules that evaluate the DRS generator in the logic: the digit loop as a recursion over the two lists of
  digits, and the warm-up of \<open>drs_init\<close>, which only steps the two congruences.
\<close>

section \<open>Evaluation rules\<close>

lemma digits_numeral [simp]:
  "digits (numeral k) temp =
     (if temp > 0 then temp mod 10 # digits (pred_numeral k) (temp div 10) else [])"
  by (simp add: numeral_eq_Suc)

fun combine_digits :: "u64 list \<Rightarrow> u64 list \<Rightarrow> u64 \<Rightarrow> u64 \<Rightarrow> u64" where
  "combine_digits [] [] d r = r"
| "combine_digits (a # as) [] d r = combine_digits as [] d (r * 10 + (a + d) mod 10)"
| "combine_digits [] (b # bs) d r = combine_digits [] bs d (r * 10 + (b + d) mod 10)"
| "combine_digits (a # as) (b # bs) d r = combine_digits as bs d (r * 10 + (a + b + d) mod 10)"

fun nth0 :: "u64 list \<Rightarrow> nat \<Rightarrow> u64" where
  "nth0 [] i = 0"
| "nth0 (x # xs) 0 = x"
| "nth0 (x # xs) (Suc i) = nth0 xs i"

lemma nth0_eq: "(if i < length xs then xs ! i else 0) = nth0 xs i"
  by (induction xs i rule: nth0.induct) auto

lemma fold_upt_Suc:
  "fold f [0..<Suc m] r = fold (\<lambda>i. f (Suc i)) [0..<m] (f 0 r)"
proof -
  have "[0..<Suc m] = 0 # map Suc [0..<m]" by (simp add: map_Suc_upt upt_conv_Cons)
  then show ?thesis by (simp add: fold_map o_def)
qed

lemma combine_digits_fold:
  "fold (\<lambda>i r. r * 10 + (nth0 as i + nth0 bs i + d) mod 10) [0..<max (length as) (length bs)] r
     = combine_digits as bs d r"
proof (induction as bs d r rule: combine_digits.induct)
  case (2 a as d r)
  have m: "max (length (a # as)) (length ([] :: u64 list)) = Suc (max (length as) (length ([] :: u64 list)))"
    by simp
  show ?case using 2 unfolding m fold_upt_Suc by simp
next
  case (3 b bs d r)
  have m: "max (length ([] :: u64 list)) (length (b # bs)) = Suc (max (length ([] :: u64 list)) (length bs))"
    by simp
  show ?case using 3 unfolding m fold_upt_Suc by simp
next
  case (4 a as b bs d r)
  have m: "max (length (a # as)) (length (b # bs)) = Suc (max (length as) (length bs))" by simp
  show ?case using 4 unfolding m fold_upt_Suc by simp
qed simp

lemma nonlinearly_combine_digits:
  assumes "digits 20 a \<noteq> []"
  shows "nonlinearly_combine a b index = combine_digits (digits 20 a) (digits 20 b) (index mod 10) 0"
proof -
  define n where "n = max (length (digits 20 a)) (length (digits 20 b))"
  have n: "(if length (digits 20 a) > length (digits 20 b) then length (digits 20 a)
      else length (digits 20 b)) = n" "n \<noteq> 0"
    using assms by (auto simp: n_def max_def)
  show ?thesis
    unfolding nonlinearly_combine_def Let_def n(1) nth0_eq
    using n(2) by (simp only: if_False combine_digits_fold [symmetric] n_def)
qed

lemma funpow_ten: "(f ^^ 10) x = f (f (f (f (f (f (f (f (f (f x)))))))))"
  by (simp add: eval_nat_numeral)

text \<open>The warm-up calls only step the congruences.\<close>

lemma drs_init_eq:
  "drs_init s1 s2 = \<lparr>seed1 = (lcg1_next ^^ 10) s1, seed2 = (lcg2_next ^^ 10) s2, counter = 10\<rparr>"
proof -
  have "snd (drs_next \<lparr>seed1 = a, seed2 = b, counter = c\<rparr>) =
      \<lparr>seed1 = lcg1_next a, seed2 = lcg2_next b, counter = c + 1\<rparr>" for a b c
    by (simp add: drs_next_def Let_def del: digits_numeral)
  then show ?thesis by (simp add: drs_init_def funpow_ten)
qed

lemma drs_next_eval:
  "digits 20 (lcg1_next s1) \<noteq> [] \<Longrightarrow>
   drs_next \<lparr>seed1 = s1, seed2 = s2, counter = c\<rparr> =
     (combine_digits (digits 20 (lcg1_next s1)) (digits 20 (lcg2_next s2)) ((c + 1) mod 10) 0,
      \<lparr>seed1 = lcg1_next s1, seed2 = lcg2_next s2, counter = c + 1\<rparr>)"
  by (simp add: drs_next_def Let_def nonlinearly_combine_digits del: digits_numeral)

lemma drs_init_eval:
  "drs_init s1 s2 =
     \<lparr>seed1 = lcg1_next (lcg1_next (lcg1_next (lcg1_next (lcg1_next
        (lcg1_next (lcg1_next (lcg1_next (lcg1_next (lcg1_next s1))))))))),
      seed2 = lcg2_next (lcg2_next (lcg2_next (lcg2_next (lcg2_next
        (lcg2_next (lcg2_next (lcg2_next (lcg2_next (lcg2_next s2))))))))), counter = 10\<rparr>"
  by (simp only: drs_init_eq funpow_ten)

lemma lcg_values:
  "lcg1_next (numeral s) = (1103515245 * numeral s + 12345) mod 2147483648"
  "lcg2_next (numeral s) = (1664525 * numeral s + 1013904223) mod 4294967296"
  by (simp_all only: lcg1_next_def lcg2_next_def)

lemmas drs_next_values = drs_next_eval lcg_values

end
