(* ===== verification/Command_Ids.thy ===== *)
theory Command_Ids
  imports Command_System Drs_Eval
begin

text \<open>
  The identifiers \<open>enum_system_init\<close> generates. They depend on constants only, so they are
  evaluated here once: none is NULL, they are distinct, and none passes the test that
  \<open>secure_validate_cmd_id\<close> applies to it.
\<close>

section \<open>Identifiers from outputs\<close>

text \<open>Identifier and key from the three outputs that go into them.\<close>

definition id_value :: "nat \<Rightarrow> u64 \<Rightarrow> u64 \<Rightarrow> u64" where
  "id_value i base v =
     (let t = base XOR (of_nat i * 0x9e3779b9); shift = unat (base mod 61) + 3
      in (push_bit shift t OR drop_bit (64 - shift) t) XOR (0x10000000 + v mod 0xF0000000))"

definition key_value :: "u64 \<Rightarrow> u64 \<Rightarrow> u64" where
  "key_value cid v =
     (let key = (0x1000 + v mod 0xF000) XOR cid in push_bit 16 key OR drop_bit 48 key)"

lemma make_id_eval:
  assumes "drs_init (fst s) (snd s) = g0" and "drs_next g0 = (base, g1)"
    and "drs_next g1 = (v, g2)" and "drs_next g2 = (w, g3)"
  shows "make_id i s = Inr (id_value i base v, key_value (id_value i base v) w)"
  using assms
  by (simp add: make_id_def generate_secure_id_def drs_range_def Let_def id_value_def key_value_def)

section \<open>The ten identifiers\<close>

lemma id_0: "make_id 0 (0xDEADBEEF12345678, 0xCAFEBABE87654321) = Inr (0x604A4702A586A91, 0xA4702A5820410604)"
proof (rule trans [OF make_id_eval])
  show "drs_init (fst (0xDEADBEEF12345678, 0xCAFEBABE87654321)) (snd (0xDEADBEEF12345678, 0xCAFEBABE87654321)) =
      \<lparr>seed1 = 331140494, seed2 = 953709827, counter = 10\<rparr>"
    by (simp add: drs_init_eval lcg_values)
  show "drs_next \<lparr>seed1 = 331140494, seed2 = 953709827, counter = 10\<rparr> =
      (6461922356, \<lparr>seed1 = 2010708399, seed2 = 3411482246, counter = 11\<rparr>)"
    by (simp add: drs_next_values)
  show "drs_next \<lparr>seed1 = 2010708399, seed2 = 3411482246, counter = 11\<rparr> =
      (3931662993, \<lparr>seed1 = 802148796, seed2 = 1978301485, counter = 12\<rparr>)"
    by (simp add: drs_next_values)
  show "drs_next \<lparr>seed1 = 802148796, seed2 = 1978301485, counter = 12\<rparr> =
      (2765675216, \<lparr>seed1 = 550225221, seed2 = 3342217128, counter = 13\<rparr>)"
    by (simp add: drs_next_values)
qed (simp add: id_value_def key_value_def)

lemma id_1: "make_id 1 (0xBEEFDEAD56781234, 0xFACEFACE43218765) = Inr (0xBA3825ED757, 0xBA3825EE6B90000)"
proof (rule trans [OF make_id_eval])
  show "drs_init (fst (0xBEEFDEAD56781234, 0xFACEFACE43218765)) (snd (0xBEEFDEAD56781234, 0xFACEFACE43218765)) =
      \<lparr>seed1 = 125521194, seed2 = 2478707303, counter = 10\<rparr>"
    by (simp add: drs_init_eval lcg_values)
  show "drs_next \<lparr>seed1 = 125521194, seed2 = 2478707303, counter = 10\<rparr> =
      (8225966762, \<lparr>seed1 = 427743003, seed2 = 1148841114, counter = 11\<rparr>)"
    by (simp add: drs_next_values)
  show "drs_next \<lparr>seed1 = 427743003, seed2 = 1148841114, counter = 11\<rparr> =
      (1002852183, \<lparr>seed1 = 980287672, seed2 = 1710183217, counter = 12\<rparr>)"
    by (simp add: drs_next_values)
  show "drs_next \<lparr>seed1 = 980287672, seed2 = 1710183217, counter = 12\<rparr> =
      (711483886, \<lparr>seed1 = 727617169, seed2 = 3833901788, counter = 13\<rparr>)"
    by (simp add: drs_next_values)
qed (simp add: id_value_def key_value_def)

lemma id_2: "make_id 2 (0xFEEDFACE87654321, 0xDECAFBAD12345678) = Inr (0x863FFBA9E62885F, 0xFFBA9E622EB40863)"
proof (rule trans [OF make_id_eval])
  show "drs_init (fst (0xFEEDFACE87654321, 0xDECAFBAD12345678)) (snd (0xFEEDFACE87654321, 0xDECAFBAD12345678)) =
      \<lparr>seed1 = 1800241663, seed2 = 2177862482, counter = 10\<rparr>"
    by (simp add: drs_init_eval lcg_values)
  show "drs_next \<lparr>seed1 = 1800241663, seed2 = 2177862482, counter = 10\<rparr> =
      (806421549, \<lparr>seed1 = 399915980, seed2 = 545108617, counter = 11\<rparr>)"
    by (simp add: drs_next_values)
  show "drs_next \<lparr>seed1 = 399915980, seed2 = 545108617, counter = 11\<rparr> =
      (9502361695, \<lparr>seed1 = 2016923157, seed2 = 1733597780, counter = 12\<rparr>)"
    by (simp add: drs_next_values)
  show "drs_next \<lparr>seed1 = 2016923157, seed2 = 1733597780, counter = 12\<rparr> =
      (6864238315, \<lparr>seed1 = 1774933290, seed2 = 1131168163, counter = 13\<rparr>)"
    by (simp add: drs_next_values)
qed (simp add: id_value_def key_value_def)

lemma id_3: "make_id 3 (0xCAFEDEAD43218765, 0xBEEFFACE56781234) = Inr (0xCC0000006757DDB6, 0x67573C7ECC00)"
proof (rule trans [OF make_id_eval])
  show "drs_init (fst (0xCAFEDEAD43218765, 0xBEEFFACE56781234)) (snd (0xCAFEDEAD43218765, 0xBEEFFACE56781234)) =
      \<lparr>seed1 = 2005860963, seed2 = 652865006, counter = 10\<rparr>"
    by (simp add: drs_init_eval lcg_values)
  show "drs_next \<lparr>seed1 = 2005860963, seed2 = 652865006, counter = 10\<rparr> =
      (6211360984, \<lparr>seed1 = 1982881376, seed2 = 2807749749, counter = 11\<rparr>)"
    by (simp add: drs_next_values)
  show "drs_next \<lparr>seed1 = 1982881376, seed2 = 2807749749, counter = 11\<rparr> =
      (1442161505, \<lparr>seed1 = 1838784281, seed2 = 2001716048, counter = 12\<rparr>)"
    by (simp add: drs_next_values)
  show "drs_next \<lparr>seed1 = 1838784281, seed2 = 2001716048, counter = 12\<rparr> =
      (8717529544, \<lparr>seed1 = 1597541342, seed2 = 639483503, counter = 13\<rparr>)"
    by (simp add: drs_next_values)
qed (simp add: id_value_def key_value_def)

lemma id_4: "make_id 4 (0xDEADC0DE56781234, 0xFACEB00C43218765) = Inr (0x1C94D6A43F57, 0x1C94D6A40EB90000)"
proof (rule trans [OF make_id_eval])
  show "drs_init (fst (0xDEADC0DE56781234, 0xFACEB00C43218765)) (snd (0xDEADC0DE56781234, 0xFACEB00C43218765)) =
      \<lparr>seed1 = 125521194, seed2 = 2478707303, counter = 10\<rparr>"
    by (simp add: drs_init_eval lcg_values)
  show "drs_next \<lparr>seed1 = 125521194, seed2 = 2478707303, counter = 10\<rparr> =
      (8225966762, \<lparr>seed1 = 427743003, seed2 = 1148841114, counter = 11\<rparr>)"
    by (simp add: drs_next_values)
  show "drs_next \<lparr>seed1 = 427743003, seed2 = 1148841114, counter = 11\<rparr> =
      (1002852183, \<lparr>seed1 = 980287672, seed2 = 1710183217, counter = 12\<rparr>)"
    by (simp add: drs_next_values)
  show "drs_next \<lparr>seed1 = 980287672, seed2 = 1710183217, counter = 12\<rparr> =
      (711483886, \<lparr>seed1 = 727617169, seed2 = 3833901788, counter = 13\<rparr>)"
    by (simp add: drs_next_values)
qed (simp add: id_value_def key_value_def)

lemma id_5: "make_id 5 (0xBADCAFE87654321, 0xDEADC0DE12345678) = Inr (0x19382325E662885F, 0x2325E6622EB41938)"
proof (rule trans [OF make_id_eval])
  show "drs_init (fst (0xBADCAFE87654321, 0xDEADC0DE12345678)) (snd (0xBADCAFE87654321, 0xDEADC0DE12345678)) =
      \<lparr>seed1 = 1800241663, seed2 = 2177862482, counter = 10\<rparr>"
    by (simp add: drs_init_eval lcg_values)
  show "drs_next \<lparr>seed1 = 1800241663, seed2 = 2177862482, counter = 10\<rparr> =
      (806421549, \<lparr>seed1 = 399915980, seed2 = 545108617, counter = 11\<rparr>)"
    by (simp add: drs_next_values)
  show "drs_next \<lparr>seed1 = 399915980, seed2 = 545108617, counter = 11\<rparr> =
      (9502361695, \<lparr>seed1 = 2016923157, seed2 = 1733597780, counter = 12\<rparr>)"
    by (simp add: drs_next_values)
  show "drs_next \<lparr>seed1 = 2016923157, seed2 = 1733597780, counter = 12\<rparr> =
      (6864238315, \<lparr>seed1 = 1774933290, seed2 = 1131168163, counter = 13\<rparr>)"
    by (simp add: drs_next_values)
qed (simp add: id_value_def key_value_def)

lemma id_6: "make_id 6 (0xC0FFEE12345678, 0xFEABA687654321) = Inr (0x8D1971972586A91, 0x97197258204108D1)"
proof (rule trans [OF make_id_eval])
  show "drs_init (fst (0xC0FFEE12345678, 0xFEABA687654321)) (snd (0xC0FFEE12345678, 0xFEABA687654321)) =
      \<lparr>seed1 = 331140494, seed2 = 953709827, counter = 10\<rparr>"
    by (simp add: drs_init_eval lcg_values)
  show "drs_next \<lparr>seed1 = 331140494, seed2 = 953709827, counter = 10\<rparr> =
      (6461922356, \<lparr>seed1 = 2010708399, seed2 = 3411482246, counter = 11\<rparr>)"
    by (simp add: drs_next_values)
  show "drs_next \<lparr>seed1 = 2010708399, seed2 = 3411482246, counter = 11\<rparr> =
      (3931662993, \<lparr>seed1 = 802148796, seed2 = 1978301485, counter = 12\<rparr>)"
    by (simp add: drs_next_values)
  show "drs_next \<lparr>seed1 = 802148796, seed2 = 1978301485, counter = 12\<rparr> =
      (2765675216, \<lparr>seed1 = 550225221, seed2 = 3342217128, counter = 13\<rparr>)"
    by (simp add: drs_next_values)
qed (simp add: id_value_def key_value_def)

lemma id_7: "make_id 7 (0xBABEFACE43218765, 0xDEADD00D56781234) = Inr (0x5C00000071735552, 0x7173B49A5C00)"
proof (rule trans [OF make_id_eval])
  show "drs_init (fst (0xBABEFACE43218765, 0xDEADD00D56781234)) (snd (0xBABEFACE43218765, 0xDEADD00D56781234)) =
      \<lparr>seed1 = 2005860963, seed2 = 652865006, counter = 10\<rparr>"
    by (simp add: drs_init_eval lcg_values)
  show "drs_next \<lparr>seed1 = 2005860963, seed2 = 652865006, counter = 10\<rparr> =
      (6211360984, \<lparr>seed1 = 1982881376, seed2 = 2807749749, counter = 11\<rparr>)"
    by (simp add: drs_next_values)
  show "drs_next \<lparr>seed1 = 1982881376, seed2 = 2807749749, counter = 11\<rparr> =
      (1442161505, \<lparr>seed1 = 1838784281, seed2 = 2001716048, counter = 12\<rparr>)"
    by (simp add: drs_next_values)
  show "drs_next \<lparr>seed1 = 1838784281, seed2 = 2001716048, counter = 12\<rparr> =
      (8717529544, \<lparr>seed1 = 1597541342, seed2 = 639483503, counter = 13\<rparr>)"
    by (simp add: drs_next_values)
qed (simp add: id_value_def key_value_def)

lemma id_8: "make_id 8 (0xFACEFEED87654321, 0xCAFEB0BA12345678) = Inr (0x260D564F4E62885F, 0x564F4E622EB4260D)"
proof (rule trans [OF make_id_eval])
  show "drs_init (fst (0xFACEFEED87654321, 0xCAFEB0BA12345678)) (snd (0xFACEFEED87654321, 0xCAFEB0BA12345678)) =
      \<lparr>seed1 = 1800241663, seed2 = 2177862482, counter = 10\<rparr>"
    by (simp add: drs_init_eval lcg_values)
  show "drs_next \<lparr>seed1 = 1800241663, seed2 = 2177862482, counter = 10\<rparr> =
      (806421549, \<lparr>seed1 = 399915980, seed2 = 545108617, counter = 11\<rparr>)"
    by (simp add: drs_next_values)
  show "drs_next \<lparr>seed1 = 399915980, seed2 = 545108617, counter = 11\<rparr> =
      (9502361695, \<lparr>seed1 = 2016923157, seed2 = 1733597780, counter = 12\<rparr>)"
    by (simp add: drs_next_values)
  show "drs_next \<lparr>seed1 = 2016923157, seed2 = 1733597780, counter = 12\<rparr> =
      (6864238315, \<lparr>seed1 = 1774933290, seed2 = 1131168163, counter = 13\<rparr>)"
    by (simp add: drs_next_values)
qed (simp add: id_value_def key_value_def)

lemma id_9: "make_id 9 (0xDEADFACE56781234, 0xFEEDBEEF43218765) = Inr (0x232DA3AF1757, 0x232DA3AF26B90000)"
proof (rule trans [OF make_id_eval])
  show "drs_init (fst (0xDEADFACE56781234, 0xFEEDBEEF43218765)) (snd (0xDEADFACE56781234, 0xFEEDBEEF43218765)) =
      \<lparr>seed1 = 125521194, seed2 = 2478707303, counter = 10\<rparr>"
    by (simp add: drs_init_eval lcg_values)
  show "drs_next \<lparr>seed1 = 125521194, seed2 = 2478707303, counter = 10\<rparr> =
      (8225966762, \<lparr>seed1 = 427743003, seed2 = 1148841114, counter = 11\<rparr>)"
    by (simp add: drs_next_values)
  show "drs_next \<lparr>seed1 = 427743003, seed2 = 1148841114, counter = 11\<rparr> =
      (1002852183, \<lparr>seed1 = 980287672, seed2 = 1710183217, counter = 12\<rparr>)"
    by (simp add: drs_next_values)
  show "drs_next \<lparr>seed1 = 980287672, seed2 = 1710183217, counter = 12\<rparr> =
      (711483886, \<lparr>seed1 = 727617169, seed2 = 3833901788, counter = 13\<rparr>)"
    by (simp add: drs_next_values)
qed (simp add: id_value_def key_value_def)

definition all_ids :: "(u64 \<times> u64) list" where
  "all_ids =
    [(0x604A4702A586A91, 0xA4702A5820410604),
     (0xBA3825ED757, 0xBA3825EE6B90000),
     (0x863FFBA9E62885F, 0xFFBA9E622EB40863),
     (0xCC0000006757DDB6, 0x67573C7ECC00),
     (0x1C94D6A43F57, 0x1C94D6A40EB90000),
     (0x19382325E662885F, 0x2325E6622EB41938),
     (0x8D1971972586A91, 0x97197258204108D1),
     (0x5C00000071735552, 0x7173B49A5C00),
     (0x260D564F4E62885F, 0x564F4E622EB4260D),
     (0x232DA3AF1757, 0x232DA3AF26B90000)]"

lemma make_ids_all: "make_ids 0 CMD_SEEDS = Inr all_ids"
  by (simp add: CMD_SEEDS_def all_ids_def id_0 id_1 [simplified] id_2 id_3 id_4 id_5 id_6 id_7 id_8 id_9
      numeral_2_eq_2 [symmetric])

text \<open>Creating the command system never faults, whatever the seed: its ten identifiers and keys
  are the same in every process, the identifiers are pairwise distinct and none is NULL, and
  the stored magic is the low half of the constant it is compared with.
\<close>

lemma enum_system_init_constant:
  "\<exists>s. enum_system_init True time seed = Inr (Some s) \<and> init_time s = time \<and>
     generated_ids s = map fst all_ids \<and> validation_keys s = map snd all_ids \<and>
     distinct (generated_ids s) \<and> 0 \<notin> set (generated_ids s) \<and> system_magic s = 0x53454300"
  by (simp add: enum_system_init_def make_ids_all SYSTEM_MAGIC_def Let_def) (simp add: all_ids_def)

end
