(* ===== verification/Command_Table.thy ===== *)
theory Command_Table
  imports Command_Ids
begin

text \<open>
  The command table after \<open>command_system_global_init\<close>, the lookup in it, and the validation
  of identifiers, which fails for every identifier and every system.
\<close>

section \<open>Initialisation\<close>

definition the_system :: "int \<Rightarrow> u64 \<Rightarrow> enum_system" where
  "the_system time seed = \<lparr>sys_gen = drs_init (seed XOR 0xDEADBEEFCAFEBABE) ((NOT seed) XOR 0xBEEFDEADFACEFACE),
     generated_ids = map fst all_ids, validation_keys = map snd all_ids, init_time = time,
     system_magic = 0x53454300\<rparr>"

lemma enum_system_init_eq: "enum_system_init True time seed = Inr (Some (the_system time seed))"
  by (simp add: enum_system_init_def make_ids_all SYSTEM_MAGIC_def Let_def the_system_def)

text \<open>The six entries, with the identifiers of their names.\<close>

definition ready_commands :: "command_definition list" where
  "ready_commands = map2 template_command cmd_templates
     (map (\<lambda>j. fst (all_ids ! j)) [0, 1, 2, 5, 7, 8])"

definition ready_system :: "int \<Rightarrow> u64 \<Rightarrow> command_system" where
  "ready_system time seed = \<lparr>g_global_cmd_system = Some (the_system time seed),
     g_valid_commands = ready_commands, g_command_system_initialized = True\<rparr>"

lemma list_numeral:
  "(x # xs)[numeral v := y] = x # xs[pred_numeral v := y]"
  "replicate (numeral v) x = x # replicate (pred_numeral v) x"
  by (simp_all add: numeral_eq_Suc)

lemma global_init_start:
  assumes "seed \<noteq> 0"
  shows "command_system_global_init True time seed command_system_start =
    Inr (True, ready_system time seed)"
proof -
  have "init_commands 0 cmd_templates (the_system time seed)
      (command_system_start\<lparr>g_global_cmd_system := Some (the_system time seed)\<rparr>)
      = (True, ready_system time seed)"
    by (simp add: cmd_templates_def CMD_NAMES_def the_system_def all_ids_def command_system_start_def
        ready_system_def ready_commands_def list_numeral)
  then show ?thesis
    using assms by (simp add: command_system_global_init_def enum_system_init_eq
        command_system_start_def)
qed

section \<open>Lookup\<close>

lemma upper_char_NUL [simp]: "upper_char c = NUL \<longleftrightarrow> c = NUL"
proof -
  have "(of_char (char_of n :: char) :: nat) = n" if "n < 256" for n :: nat
    using that by simp
  then show ?thesis
    by (auto simp: upper_char_def dest: arg_cong [where f = "of_char :: char \<Rightarrow> nat"])
qed

lemma is_cstr_map_upper [simp]: "is_cstr (map upper_char s) \<longleftrightarrow> is_cstr s"
  by (induction s) auto

lemma upper_lookup_name:
  assumes "is_cstr name"
  shows "cstr (safe_to_upper_string (copy_field 32 (replicate 32 NUL) name) 32
      (copy_field 32 (replicate 32 NUL) name)) = map upper_char (take 31 name)"
  using assms by (simp add: safe_to_upper_string_def)

definition command_names :: "string list" where
  "command_names = [''GET'', ''SET'', ''DELETE'', ''PING'', ''QUIT'', ''AUTH'']"

lemma ready_commands_facts:
  "map cmd_name ready_commands = map Some command_names"
  "\<forall>c \<in> set ready_commands. command_intact c"
  by (simp_all add: ready_commands_def cmd_templates_def command_names_def template_command_def
      command_intact_def)

lemma entry_matches_name:
  "cmd_name c = Some m \<Longrightarrow> entry_matches n c \<longleftrightarrow> command_intact c \<and> m = n"
  by (simp add: entry_matches_def)

lemma find_by_name:
  "map cmd_name cs = map Some ns \<Longrightarrow> \<forall>c \<in> set cs. command_intact c \<Longrightarrow>
   (case find (entry_matches name) cs of
     None \<Rightarrow> name \<notin> set ns
   | Some c \<Rightarrow> c \<in> set cs \<and> cmd_name c = Some name \<and> name \<in> set ns)"
proof (induction cs arbitrary: ns)
  case (Cons c cs)
  then obtain n ns' where ns: "ns = n # ns'" "cmd_name c = Some n" "map cmd_name cs = map Some ns'"
    by (cases ns) auto
  with Cons.IH [OF ns(3)] Cons.prems show ?case
    by (auto simp: entry_matches_name split: option.splits)
qed simp

text \<open>C27:
  From program start and with a seed other than 0, the initialisation succeeds, and then
  the lookup finds exactly the six commands GET, SET, DELETE, PING, QUIT and AUTH, in any
  mixture of upper and lower case, as an intact entry of that name; EXISTS, KEYS, INFO and
  SELECT, which have identifiers and handlers, are not in the table.
\<close>

theorem get_command_secure_correct:
  assumes "seed \<noteq> 0" and "is_cstr name"
  shows "\<exists>g. command_system_global_init True time seed command_system_start = Inr (True, g) \<and>
    is_command_system_initialized g \<and>
    (case get_command_secure g (Some name) of
       None \<Rightarrow> map upper_char (take 31 name) \<notin> set command_names
     | Some c \<Rightarrow> cmd_name c = Some (map upper_char (take 31 name)) \<and> command_intact c \<and>
         map upper_char (take 31 name) \<in> set command_names)"
proof -
  have "get_command_secure (ready_system time seed) (Some name) =
      find (entry_matches (map upper_char (take 31 name))) ready_commands"
    using assms(2) by (simp add: get_command_secure_def ready_system_def upper_lookup_name Let_def)
  with find_by_name [OF ready_commands_facts, of "map upper_char (take 31 name)"]
  have "case get_command_secure (ready_system time seed) (Some name) of
       None \<Rightarrow> map upper_char (take 31 name) \<notin> set command_names
     | Some c \<Rightarrow> cmd_name c = Some (map upper_char (take 31 name)) \<and> command_intact c \<and>
         map upper_char (take 31 name) \<in> set command_names"
    using ready_commands_facts(2) by (auto split: option.splits)
  then show ?thesis
    using global_init_start [OF assms(1)]
    by (simp add: is_command_system_initialized_def ready_system_def)
qed

lemma get_command_secure_correct_witness:
  "\<exists>g c. command_system_global_init True 0 1 command_system_start = Inr (True, g) \<and>
     get_command_secure g (Some ''Get'') = Some c \<and> cmd_name c = Some ''GET'' \<and> command_intact c"
proof -
  have up: "map upper_char (take 31 ''Get'') = ''GET''" by code_simp
  have mem: "''GET'' \<in> set command_names" by (simp add: command_names_def)
  have "(1 :: u64) \<noteq> 0" "is_cstr ''Get''" by simp_all
  from get_command_secure_correct [OF this, of 0, unfolded up] mem show ?thesis
    by (auto split: option.splits)
qed

section \<open>Validation\<close>

lemma validate_never: "\<not> secure_validate_cmd_id sys cid"
proof -
  have "unat (ucast w :: u64) \<noteq> unat SYSTEM_MAGIC" for w :: u32
  proof -
    have w: "unat w < 2 ^ 32" using unsigned_less [of w] by simp
    then have "unat w < 2 ^ 64" by simp
    then have "unat (ucast w :: u64) = unat w"
      by (simp add: unsigned_ucast_eq take_bit_nat_eq_self_iff)
    moreover note w
    moreover have "unat SYSTEM_MAGIC = 0x454E554D53454300" by (simp add: SYSTEM_MAGIC_def)
    ultimately show ?thesis by simp
  qed
  then have "ucast w \<noteq> SYSTEM_MAGIC" for w :: u32 by metis
  then show ?thesis
    by (simp add: secure_validate_cmd_id_def split: option.split)
qed

text \<open>\<open>secure_validate_cmd_id\<close> accepts no identifier of any system: the 32-bit field never
  equals the 64-bit constant it is compared with. And were that comparison left out, it
  would still reject each of the ten identifiers the program generates.
\<close>

lemma secure_validate_rejects_all:
  "\<not> secure_validate_cmd_id sys cid \<and> list_all (\<lambda>slot. \<not> id_check (fst slot) slot) all_ids"
  by (rule conjI [OF validate_never]) (simp add: all_ids_def id_check_def Let_def)

end
