(* ===== verification/White_List.thy ===== *)
theory White_List
  imports Client_Ops Command_Table
begin

text \<open>
  Executing a whitelisted command (\<^verbatim>\<open>white_list_client.c\<close>): the ten handlers, which reach the
  server through the client, and \<open>execute_command_safely\<close>, which checks a command and runs
  its handler.

  \<^item> \<open>send_response_to_client\<close> of \<^verbatim>\<open>command_stubs.c\<close> prints; a run is the list of responses
    and socket events, oldest first. The \<open>k\<close>-th client operation of a run meets the world
    \<open>nets k\<close>.
  \<^item> An argument vector that exists has as many entries as its count \<open>n\<close> says; reading an
    entry of a NULL vector, or a NULL string, is the fault \<open>Null_Deref\<close>.
  \<^item> The handlers of EXISTS, KEYS, INFO and SELECT are in no table and nothing calls them.
\<close>

section \<open>Vocabulary\<close>

datatype white_event = Response string | Socket sock_event

datatype white_fault = Null_Deref

type_synonym handled = "white_fault + client_instance option \<times> white_event list"

definition send_response_to_client :: "client_instance option \<Rightarrow> string \<Rightarrow> white_event list" where
  "send_response_to_client client response = (if client \<noteq> None then [Response response] else [])"

definition quoted :: "string \<Rightarrow> string" where
  "quoted s = CHR 0x22 # s @ [CHR 0x22]"

text \<open>The numbers behind the enumerators of \<^verbatim>\<open>client_result_t\<close>, as \<^verbatim>\<open>%d\<close> prints them.\<close>

fun result_code :: "client_result \<Rightarrow> string" where
  "result_code CLIENT_SUCCESS = ''0''"
| "result_code CLIENT_SUCCESS_ENCRYPTED = ''1''"
| "result_code CLIENT_ERROR_CONNECTION = ''2''"
| "result_code CLIENT_ERROR_TIMEOUT = ''3''"
| "result_code CLIENT_ERROR_PROTOCOL = ''4''"
| "result_code CLIENT_ERROR_SERVER = ''5''"
| "result_code CLIENT_ERROR_MEMORY = ''6''"
| "result_code CLIENT_ERROR_INVALID_PARAM = ''7''"
| "result_code CLIENT_ERROR_ENCRYPTED = ''8''"
| "result_code Client_Result_Minus_One = ''-1''"

text \<open>The three tests each handler begins with: the entry exists, is intact, and is valid.\<close>

definition checked_command :: "command_system \<Rightarrow> string \<Rightarrow> command_definition option" where
  "checked_command g name =
     (case get_command_secure g (Some name) of
        None \<Rightarrow> None
      | Some cmd \<Rightarrow>
          if \<not> command_intact cmd then None
          else if \<not> secure_validate_cmd_id (g_global_cmd_system g) (cmd_id cmd) then None
          else Some cmd)"

text \<open>One operation per argument, counting those that succeed.\<close>

fun count_successes ::
  "(net \<Rightarrow> client_instance option \<Rightarrow> string option \<Rightarrow>
      client_result \<times> client_instance option \<times> sock_event list) \<Rightarrow>
   (nat \<Rightarrow> net) \<Rightarrow> nat \<Rightarrow> cmd_args \<Rightarrow> client_instance option \<Rightarrow>
   nat \<times> client_instance option \<times> sock_event list" where
  "count_successes operation nets i [] client = (0, client, [])"
| "count_successes operation nets i (a # rest) client =
     (case operation (nets i) client a of
        (r, client, es) \<Rightarrow>
          (case count_successes operation nets (i + 1) rest client of
             (k, client, es') \<Rightarrow> ((if r = CLIENT_SUCCESS then k + 1 else k), client, es @ es')))"

section \<open>The handlers in the table\<close>

definition do_get ::
  "command_system \<Rightarrow> (nat \<Rightarrow> net) \<Rightarrow> client_instance option \<Rightarrow> cmd_args option \<Rightarrow> nat \<Rightarrow> handled" where
  "do_get g nets client args n =
     (if client = None then Inr (client, [])
      else case args of
        None \<Rightarrow> Inr (client, [])
      | Some xs \<Rightarrow>
          if n < 1 then Inr (client, [])
          else case checked_command g ''GET'' of
            None \<Rightarrow> Inr (client, [])
          | Some cmd \<Rightarrow>
              if \<not> cmd_def_validate (Some cmd) xs then Inr (client, [])
              else case client_get (nets 0) client (xs ! 0) (Some (stack_bytes (nets 0))) 4096 of
                (r, client, buffer, es) \<Rightarrow>
                  let found = (case buffer of Some b \<Rightarrow> cstr b | None \<Rightarrow> [])
                  in Inr (client, map Socket es @ send_response_to_client client
                       (if r \<noteq> CLIENT_SUCCESS then ''(error)''
                        else if length found > 0 then snprintf (4096 + 64) (quoted found)
                        else ''(nil)'')))"

definition do_set ::
  "command_system \<Rightarrow> (nat \<Rightarrow> net) \<Rightarrow> client_instance option \<Rightarrow> cmd_args option \<Rightarrow> nat \<Rightarrow> handled" where
  "do_set g nets client args n =
     (if client = None then Inr (client, [])
      else case args of
        None \<Rightarrow> Inr (client, [])
      | Some xs \<Rightarrow>
          if n < 2 then Inr (client, [])
          else case checked_command g ''SET'' of
            None \<Rightarrow> Inr (client, [])
          | Some cmd \<Rightarrow>
              if \<not> cmd_def_validate (Some cmd) xs then Inr (client, [])
              else case client_set (nets 0) g client (xs ! 0) (xs ! 1) of
                (r, client, es) \<Rightarrow>
                  Inr (client, map Socket es @ send_response_to_client client
                    (if r = CLIENT_SUCCESS then ''OK''
                     else snprintf 256 (''(error: '' @ result_code r @ '')''))))"

definition do_delete ::
  "command_system \<Rightarrow> (nat \<Rightarrow> net) \<Rightarrow> client_instance option \<Rightarrow> cmd_args option \<Rightarrow> nat \<Rightarrow> handled" where
  "do_delete g nets client args n =
     (if client = None then Inr (client, [])
      else case args of
        None \<Rightarrow> Inr (client, [])
      | Some xs \<Rightarrow>
          if n < 1 then Inr (client, [])
          else case checked_command g ''DELETE'' of
            None \<Rightarrow> Inr (client, [])
          | Some cmd \<Rightarrow>
              if \<not> cmd_def_validate (Some cmd) xs then Inr (client, [])
              else case count_successes client_delete nets 0 xs client of
                (k, client, es) \<Rightarrow>
                  Inr (client, map Socket es @ send_response_to_client client
                    (snprintf 64 (''('' @ dec_digits k @ '')''))))"

definition do_ping ::
  "command_system \<Rightarrow> (nat \<Rightarrow> net) \<Rightarrow> client_instance option \<Rightarrow> cmd_args option \<Rightarrow> nat \<Rightarrow> handled" where
  "do_ping g nets client args n =
     (if client = None then Inr (client, [])
      else case checked_command g ''PING'' of
        None \<Rightarrow> Inr (client, [])
      | Some cmd \<Rightarrow>
          if n > 1 then
            Inr (client, send_response_to_client client
              ''ERR wrong number of arguments for 'ping' command'')
          else case client_ping (nets 0) client of
            (r, client, es) \<Rightarrow>
              if r \<noteq> CLIENT_SUCCESS then
                Inr (client, map Socket es @ send_response_to_client client ''(error)'')
              else if n = 1 then
                (case args of
                   None \<Rightarrow> Inl Null_Deref
                 | Some xs \<Rightarrow> Inr (client, map Socket es @ send_response_to_client client
                     (case xs ! 0 of Some a \<Rightarrow> a | None \<Rightarrow> ''PONG'')))
              else Inr (client, map Socket es @ send_response_to_client client ''PONG''))"

definition do_quit ::
  "command_system \<Rightarrow> (nat \<Rightarrow> net) \<Rightarrow> client_instance option \<Rightarrow> cmd_args option \<Rightarrow> nat \<Rightarrow> handled" where
  "do_quit g nets client args n =
     (if client = None then Inr (client, [])
      else case checked_command g ''QUIT'' of
        None \<Rightarrow> Inr (client, [])
      | Some cmd \<Rightarrow>
          if n > 0 then
            Inr (client, send_response_to_client client
              ''ERR wrong number of arguments for 'quit' command'')
          else case client_disconnect (nets 0) client of
            (r, client', es) \<Rightarrow>
              Inr (client', send_response_to_client client ''OK'' @ map Socket es))"

definition do_auth ::
  "command_system \<Rightarrow> (nat \<Rightarrow> net) \<Rightarrow> client_instance option \<Rightarrow> cmd_args option \<Rightarrow> nat \<Rightarrow> handled" where
  "do_auth g nets client args n =
     (if client = None then Inr (client, [])
      else case args of
        None \<Rightarrow> Inr (client, [])
      | Some xs \<Rightarrow>
          if n < 1 then Inr (client, [])
          else case checked_command g ''AUTH'' of
            None \<Rightarrow> Inr (client, [])
          | Some cmd \<Rightarrow>
              if \<not> cmd_def_validate (Some cmd) xs then
                Inr (client, send_response_to_client client ''ERR invalid password'')
              else case xs ! 0 of
                None \<Rightarrow> Inl Null_Deref
              | Some password \<Rightarrow>
                  Inr (client, send_response_to_client client
                    (if strcmp password ''secret123'' = 0 then ''OK'' else ''ERR invalid password'')))"

fun run_handler ::
  "cmd_handler \<Rightarrow> command_system \<Rightarrow> (nat \<Rightarrow> net) \<Rightarrow> client_instance option \<Rightarrow> cmd_args option \<Rightarrow>
     nat \<Rightarrow> handled" where
  "run_handler handle_get = do_get"
| "run_handler handle_set = do_set"
| "run_handler handle_delete = do_delete"
| "run_handler handle_ping = do_ping"
| "run_handler handle_quit = do_quit"
| "run_handler handle_auth = do_auth"

section \<open>The handlers nothing calls\<close>

definition do_exists ::
  "command_system \<Rightarrow> (nat \<Rightarrow> net) \<Rightarrow> client_instance option \<Rightarrow> cmd_args option \<Rightarrow> nat \<Rightarrow> handled" where
  "do_exists g nets client args n =
     (if client = None then Inr (client, [])
      else case args of
        None \<Rightarrow> Inr (client, [])
      | Some xs \<Rightarrow>
          if n < 1 then Inr (client, [])
          else case checked_command g ''EXISTS'' of
            None \<Rightarrow> Inr (client, [])
          | Some cmd \<Rightarrow>
              (case count_successes client_exists nets 0 xs client of
                 (k, client, es) \<Rightarrow>
                   Inr (client, map Socket es @ send_response_to_client client
                     (snprintf 32 (''('' @ dec_digits k @ '')'')))))"

definition do_keys ::
  "command_system \<Rightarrow> (nat \<Rightarrow> net) \<Rightarrow> client_instance option \<Rightarrow> cmd_args option \<Rightarrow> nat \<Rightarrow> handled" where
  "do_keys g nets client args n =
     (if client = None \<or> args = None \<or> n < 1 then Inr (client, [])
      else case checked_command g ''KEYS'' of
        None \<Rightarrow> Inr (client, [])
      | Some cmd \<Rightarrow> Inr (client, send_response_to_client client ''(error: KEYS not implemented)''))"

definition info_text :: "client_instance \<Rightarrow> string" where
  "info_text c =
     ''# Client Information'' @ crlf @
     ''status:'' @ (if status c = STATUS_CONNECTED then ''connected'' else ''disconnected'') @ crlf @
     ''operations_total:'' @ dec_digits (unat (operations_total (stats c))) @ crlf @
     ''operations_failed:'' @ dec_digits (unat (operations_failed (stats c))) @ crlf @
     ''bytes_sent:'' @ dec_digits (unat (bytes_sent (stats c))) @ crlf @
     ''bytes_received:'' @ dec_digits (unat (bytes_received (stats c))) @ crlf @
     ''authenticated:unknown'' @ crlf"

definition do_info ::
  "command_system \<Rightarrow> (nat \<Rightarrow> net) \<Rightarrow> client_instance option \<Rightarrow> cmd_args option \<Rightarrow> nat \<Rightarrow> handled" where
  "do_info g nets client args n =
     (case client of
        None \<Rightarrow> Inr (client, [])
      | Some c \<Rightarrow>
          (case checked_command g ''INFO'' of
             None \<Rightarrow> Inr (client, [])
           | Some cmd \<Rightarrow> Inr (client, send_response_to_client client (snprintf 1024 (info_text c)))))"

text \<open>
  \<^verbatim>\<open>strtol(s, &end, 10)\<close>: white space, a sign and digits; without digits nothing is read.
  The result is clamped to the range of \<^verbatim>\<open>long\<close>.
\<close>

definition is_digit_char :: "char \<Rightarrow> bool" where
  "is_digit_char c = (48 \<le> (of_char c :: nat) \<and> (of_char c :: nat) \<le> 57)"

definition is_space_char :: "char \<Rightarrow> bool" where
  "is_space_char c = ((of_char c :: nat) = 32 \<or> (9 \<le> (of_char c :: nat) \<and> (of_char c :: nat) \<le> 13))"

definition digits_value :: "string \<Rightarrow> int" where
  "digits_value s = foldl (\<lambda>v c. v * 10 + (of_char c - 48)) 0 s"

definition strtol10 :: "string \<Rightarrow> int \<times> string" where
  "strtol10 s =
     (let body = dropWhile is_space_char s;
          negative = (body \<noteq> [] \<and> hd body = CHR ''-'');
          unsigned = (if body \<noteq> [] \<and> (hd body = CHR ''-'' \<or> hd body = CHR ''+'') then tl body else body);
          ds = takeWhile is_digit_char unsigned
      in if ds = [] then (0, s)
         else (max (- (2 ^ 63)) (min (2 ^ 63 - 1) (if negative then - digits_value ds else digits_value ds)),
               dropWhile is_digit_char unsigned))"

definition do_select ::
  "command_system \<Rightarrow> (nat \<Rightarrow> net) \<Rightarrow> client_instance option \<Rightarrow> cmd_args option \<Rightarrow> nat \<Rightarrow> handled" where
  "do_select g nets client args n =
     (if client = None then Inr (client, [])
      else case args of
        None \<Rightarrow> Inr (client, [])
      | Some xs \<Rightarrow>
          if n < 1 then Inr (client, [])
          else case checked_command g ''SELECT'' of
            None \<Rightarrow> Inr (client, [])
          | Some cmd \<Rightarrow>
              (case xs ! 0 of
                 None \<Rightarrow> Inl Null_Deref
               | Some text_arg \<Rightarrow>
                   (case strtol10 text_arg of
                      (db_index, endptr) \<Rightarrow>
                        Inr (client, send_response_to_client client
                          (if endptr \<noteq> [] \<or> db_index < 0 \<or> db_index > 15 then ''ERR invalid DB index''
                           else snprintf 32 (''OK (selected DB '' @ dec_digits (nat db_index) @ '')''))))))"

section \<open>Execution\<close>

text \<open>\<open>cmd_def_execute\<close>, and the whole of \<open>execute_command_safely\<close>.\<close>

definition cmd_def_execute ::
  "command_system \<Rightarrow> (nat \<Rightarrow> net) \<Rightarrow> command_definition option \<Rightarrow> client_instance option \<Rightarrow>
     cmd_args option \<Rightarrow> nat \<Rightarrow> handled" where
  "cmd_def_execute g nets cmd client args n =
     (case cmd of
        None \<Rightarrow> Inr (client, [])
      | Some c \<Rightarrow> (case handler c of None \<Rightarrow> Inr (client, []) | Some h \<Rightarrow> run_handler h g nets client args n))"

definition execute_command_safely ::
  "command_system \<Rightarrow> (nat \<Rightarrow> net) \<Rightarrow> client_instance option \<Rightarrow> string option \<Rightarrow> cmd_args option \<Rightarrow> nat \<Rightarrow>
     white_fault + int \<times> client_instance option \<times> white_event list" where
  "execute_command_safely g nets client name args n =
     (if \<not> is_command_system_initialized g then Inr (get_error_system_not_initialized, client, [])
      else if client = None \<or> name = None then Inr (get_error_invalid_parameters, client, [])
      else case args of
        None \<Rightarrow> Inr (get_error_invalid_parameters, client, [])
      | Some xs \<Rightarrow>
          (case get_command_secure g name of
             None \<Rightarrow> Inr (get_error_command_not_found, client, [])
           | Some cmd \<Rightarrow>
               if \<not> command_intact cmd then Inr (get_error_command_corrupted, client, [])
               else if \<not> secure_validate_cmd_id (g_global_cmd_system g) (cmd_id cmd) then
                 Inr (get_error_command_invalid, client, [])
               else if n < min_args cmd \<or> n > max_args cmd then
                 Inr (get_error_invalid_arg_count, client, [])
               else if \<not> cmd_def_validate (Some cmd) xs then
                 Inr (get_error_arg_validation_failed, client, [])
               else case handler cmd of
                 None \<Rightarrow> Inr (get_error_no_handler, client, [])
               | Some h \<Rightarrow>
                   bindR (run_handler h g nets client args n) (\<lambda>(client, es).
                     Inr (get_error_success, client, es))))"

section \<open>What is ever executed\<close>

lemma checked_command_None [simp]: "checked_command g name = None"
  by (simp add: checked_command_def validate_never split: option.split)

lemma get_command_secure_intact: "get_command_secure g name = Some cmd \<Longrightarrow> command_intact cmd"
  by (auto simp: get_command_secure_def entry_matches_def find_Some_iff Let_def
      split: option.splits if_splits)

lemma handlers_idle [simp]:
  "do_get g nets client args n = Inr (client, [])"
  "do_set g nets client args n = Inr (client, [])"
  "do_delete g nets client args n = Inr (client, [])"
  "do_ping g nets client args n = Inr (client, [])"
  "do_quit g nets client args n = Inr (client, [])"
  "do_auth g nets client args n = Inr (client, [])"
  by (simp_all add: do_get_def do_set_def do_delete_def do_ping_def do_quit_def do_auth_def
      split: option.split)

text \<open>C20:
  The command layer executes nothing: whatever the state of the command system, the command
  and its arguments, \<open>execute_command_safely\<close> returns an error, after which client and sockets
  are as before and no response was sent; the error tells why it stopped (not initialised,
  a NULL argument, no such command, or the identifier of an existing one rejected). Calling
  a handler directly, or through \<open>cmd_def_execute\<close>, does nothing either.
\<close>

theorem execute_refuses_all:
  "(\<exists>code. execute_command_safely g nets client name args n = Inr (code, client, [])
     \<and> is_error_code code
     \<and> code = (if \<not> is_command_system_initialized g then -1
              else if client = None \<or> name = None \<or> args = None then -2
              else if get_command_secure g name = None then -3 else -5))
   \<and> cmd_def_execute g nets cmd client args n = Inr (client, [])"
proof
  show "cmd_def_execute g nets cmd client args n = Inr (client, [])"
  proof (cases "case cmd of None \<Rightarrow> None | Some c \<Rightarrow> handler c")
    case (Some h)
    then show ?thesis by (cases h) (auto simp: cmd_def_execute_def split: option.splits)
  qed (auto simp: cmd_def_execute_def split: option.splits)
  show "\<exists>code. execute_command_safely g nets client name args n = Inr (code, client, [])
     \<and> is_error_code code
     \<and> code = (if \<not> is_command_system_initialized g then -1
              else if client = None \<or> name = None \<or> args = None then -2
              else if get_command_secure g name = None then -3 else -5)"
    by (auto simp: execute_command_safely_def error_codes is_error_code_def validate_never
        get_command_secure_intact split: option.split)
qed

end
