(* ===== verification/Client_CLI.thy ===== *)
theory Client_CLI
  imports White_List
begin

text \<open>
  The command-line client (\<^verbatim>\<open>kryocache/src/core/client/main.c\<close>): its command handlers and the
  program around them.

  \<^item> A run is its exit status and what it printed and did to sockets, oldest first, with the
    lines the client library and the command system print. The text of the usage message, the
    decimal form of the two floating-point figures and the form of a \<^verbatim>\<open>%p\<close> are left out: the
    events \<open>Usage\<close>, \<open>Out_Rate\<close>, \<open>Out_Seconds\<close> and \<open>Out_Command_Id\<close> carry the numbers.
  \<^item> \<^verbatim>\<open>getopt_long\<close> is the C library's: the program is given the options it returns, in
    order, and the arguments it leaves.
\<close>

section \<open>Vocabulary\<close>

datatype app_result =
    APP_SUCCESS | APP_ERROR_USAGE | APP_ERROR_CONNECTION | APP_ERROR_OPERATION | APP_ERROR_MEMORY

datatype cli_event =
    Out string | Err string | Usage | Out_Rate u64 u64 | Out_Seconds int | Out_Command_Id string u64
  | Sock sock_event

datatype cli_option =
    Opt_Host string | Opt_Port string | Opt_Timeout string | Opt_Verbose | Opt_Help | Opt_Other

definition check_mark :: string where "check_mark = [CHR 0xE2, CHR 0x9C, CHR 0x85]"
definition cross_mark :: string where "cross_mark = [CHR 0xE2, CHR 0x9D, CHR 0x8C]"

definition MAX_VALUE_LENGTH :: nat where "MAX_VALUE_LENGTH = 1024"

type_synonym handler_result = "app_result \<times> client_instance option \<times> cli_event list"

section \<open>Printing\<close>

text \<open>The lines the client library prints, among its socket calls.\<close>

fun sock_out :: "sock_event \<Rightarrow> cli_event" where
  "sock_out (Sock_Print s) = Out s"
| "sock_out e = Sock e"

text \<open>
  What \<open>enum_system_init\<close>, the loop over the templates, \<open>command_system_global_init\<close> and \<open>client_init\<close>
  print; \<open>Out_Command_Id\<close> is the line \<^verbatim>\<open>DEBUG: Initialized command '%s' with ID %p\<close>.
\<close>

definition enum_output :: "bool \<Rightarrow> cli_event list" where
  "enum_output calloc_ok =
     Out (''DEBUG client_init: enum'' @ newline) # (if calloc_ok then [] else [Out ''not sys''])"

fun init_output :: "cmd_template list \<Rightarrow> enum_system \<Rightarrow> cli_event list" where
  "init_output [] sys = [Out (''DEBUG: command_system_global_init completed successfully'' @ newline)]"
| "init_output (t # ts) sys =
     (case find_name 0 CMD_NAMES (t_name t) of
        None \<Rightarrow> [Out (''ERROR: Command '' @ [CHR 0x27] @ t_name t @ [CHR 0x27] @ '' not found in CMD_NAMES'' @ newline)]
      | Some cmd_index \<Rightarrow>
          if generated_ids sys ! cmd_index = 0 then
            [Out (''ERROR: Command ID for '' @ [CHR 0x27] @ t_name t @ [CHR 0x27] @ '' is NULL'' @ newline)]
          else Out_Command_Id (t_name t) (generated_ids sys ! cmd_index) # init_output ts sys)"

definition global_init_output :: "bool \<Rightarrow> int \<Rightarrow> u64 \<Rightarrow> command_system \<Rightarrow> cli_event list" where
  "global_init_output calloc_ok time seed g =
     (if seed = 0 \<or> g_command_system_initialized g then []
      else enum_output calloc_ok @
        (case enum_system_init calloc_ok time seed of
           Inr (Some sys) \<Rightarrow> init_output cmd_templates sys | _ \<Rightarrow> []))"

definition client_init_output :: "bool \<Rightarrow> bool \<Rightarrow> client_config option \<Rightarrow> cli_event list" where
  "client_init_output calloc_ok sys_calloc_ok conf =
     (if conf = None \<or> \<not> calloc_ok then [] else enum_output sys_calloc_ok)"

definition status_word :: "client_status \<Rightarrow> string" where
  "status_word st =
     (if st = STATUS_CONNECTED then ''Connected''
      else if st = STATUS_CONNECTING then ''Connecting''
      else if st = STATUS_DISCONNECTED then ''Disconnected'' else ''Error'')"

definition host_text :: "client_config \<Rightarrow> string" where
  "host_text cfg = (case host cfg of Some h \<Rightarrow> h | None \<Rightarrow> ''(null)'')"

definition print_connection_info :: "client_instance \<Rightarrow> bool \<Rightarrow> cli_event list" where
  "print_connection_info c verbose =
     (if \<not> verbose then []
      else
        [Out ([CHR 0xF0, CHR 0x9F, CHR 0x94, CHR 0x97] @ '' Connection Information:'' @ newline),
         Out (''   Host: '' @ host_text (config c) @ newline),
         Out (''   Port: '' @ dec_digits (unat (port (config c))) @ newline),
         Out (''   Status: '' @ status_word (client_get_status (Some c)) @ newline),
         Out (''   Timeout: '' @ dec_digits (unat (timeout_ms (config c))) @ ''ms'' @ newline),
         Out (''   Auto-reconnect: '' @ (if auto_reconnect (config c) then ''Yes'' else ''No'') @ newline),
         Out newline])"

definition print_statistics :: "net \<Rightarrow> client_instance \<Rightarrow> cli_event list" where
  "print_statistics net c =
     (case client_get_stats net (Some c) True of
        None \<Rightarrow> []
      | Some st \<Rightarrow>
          [Out ([CHR 0xF0, CHR 0x9F, CHR 0x93, CHR 0x8A] @ '' Client Statistics:'' @ newline),
           Out (''   Operations Total: '' @ dec_digits (unat (operations_total st)) @ newline),
           Out (''   Operations Failed: '' @ dec_digits (unat (operations_failed st)) @ newline),
           Out ''   Success Rate: '', Out_Rate (operations_total st) (operations_failed st),
           Out (''   Bytes Sent: '' @ dec_digits (unat (bytes_sent st)) @ newline),
           Out (''   Bytes Received: '' @ dec_digits (unat (bytes_received st)) @ newline),
           Out (''   Reconnect Count: '' @ dec_digits (unat (reconnect_count st)) @ newline),
           Out ''   Connection Time: '', Out_Seconds (connection_time_seconds st)])"

definition print_result :: "client_result \<Rightarrow> string \<Rightarrow> string option \<Rightarrow> bool \<Rightarrow> cli_event list" where
  "print_result r operation additional_info verbose =
     (if verbose then
        [Out ((if r = CLIENT_SUCCESS then check_mark else cross_mark) @ '' '' @ operation @ '': ''
            @ client_result_to_string r)]
        @ (case additional_info of
             Some info \<Rightarrow> if info \<noteq> [] then [Out ('' ('' @ info @ '')'')] else []
           | None \<Rightarrow> [])
        @ [Out newline]
      else if r \<noteq> CLIENT_SUCCESS \<or> additional_info \<noteq> None then
        [Out ((case additional_info of Some info \<Rightarrow> info | None \<Rightarrow> client_result_to_string r) @ newline)]
      else [])"

section \<open>Command handlers\<close>

definition key_too_long_message :: cli_event where
  "key_too_long_message = Err (''Error: Key too long (max '' @ dec_digits get_client_max_key_length
     @ '' characters)'' @ newline)"

definition operation_status :: "client_result \<Rightarrow> app_result" where
  "operation_status r = (if r = CLIENT_SUCCESS then APP_SUCCESS else APP_ERROR_OPERATION)"

definition handle_set_command ::
  "net \<Rightarrow> command_system \<Rightarrow> client_instance \<Rightarrow> string list \<Rightarrow> bool \<Rightarrow> handler_result" where
  "handle_set_command net g c argv verbose =
     (case argv of
        key # val # _ \<Rightarrow>
          if length key > get_client_max_key_length then
            (APP_ERROR_USAGE, Some c, [key_too_long_message])
          else if length val > get_client_max_value_length then
            (APP_ERROR_USAGE, Some c, [Err (''Error: Value too long (max ''
               @ dec_digits get_client_max_value_length @ '' characters)'' @ newline)])
          else (case client_set net g (Some c) (Some key) (Some val) of
            (r, c', es) \<Rightarrow>
              (operation_status r, c', print_connection_info c verbose @ map sock_out es
                 @ print_result r ''SET'' (if verbose then Some ''Stored key-value pair'' else None) verbose))
      | _ \<Rightarrow> (APP_ERROR_USAGE, Some c,
          [Err (''Error: SET command requires KEY and VALUE arguments'' @ newline)]))"

definition handle_get_command ::
  "net \<Rightarrow> client_instance \<Rightarrow> string list \<Rightarrow> bool \<Rightarrow> handler_result" where
  "handle_get_command net c argv verbose =
     (case argv of
        [] \<Rightarrow> (APP_ERROR_USAGE, Some c, [Err (''Error: GET command requires KEY argument'' @ newline)])
      | key # _ \<Rightarrow>
          if length key > get_client_max_key_length then
            (APP_ERROR_USAGE, Some c, [key_too_long_message])
          else (case client_get net (Some c) (Some key)
                  (Some (take MAX_VALUE_LENGTH (stack_bytes net))) MAX_VALUE_LENGTH of
            (r, c', buffer, es) \<Rightarrow>
              let value = (case buffer of Some b \<Rightarrow> cstr b | None \<Rightarrow> [])
              in (operation_status r, c', print_connection_info c verbose @ map sock_out es
                   @ (if r = CLIENT_SUCCESS then
                        (if verbose then
                           [Out (check_mark @ '' GET: Retrieved value for key '' @ [CHR 0x27] @ key @ [CHR 0x27] @ newline),
                            Out (''Value: '' @ value @ newline)]
                         else [Out (value @ newline)])
                      else print_result r ''GET''
                        (if verbose then Some ''Failed to retrieve value'' else None) verbose))))"

definition handle_delete_command ::
  "net \<Rightarrow> client_instance \<Rightarrow> string list \<Rightarrow> bool \<Rightarrow> handler_result" where
  "handle_delete_command net c argv verbose =
     (case argv of
        [] \<Rightarrow> (APP_ERROR_USAGE, Some c, [Err (''Error: DELETE command requires KEY argument'' @ newline)])
      | key # _ \<Rightarrow>
          if length key > get_client_max_key_length then
            (APP_ERROR_USAGE, Some c, [key_too_long_message])
          else (case client_delete net (Some c) (Some key) of
            (r, c', es) \<Rightarrow>
              (operation_status r, c', print_connection_info c verbose @ map sock_out es
                 @ print_result r ''DELETE'' (if verbose then Some ''Removed key from cache'' else None) verbose)))"

definition handle_exists_command ::
  "net \<Rightarrow> client_instance \<Rightarrow> string list \<Rightarrow> bool \<Rightarrow> handler_result" where
  "handle_exists_command net c argv verbose =
     (case argv of
        [] \<Rightarrow> (APP_ERROR_USAGE, Some c, [Err (''Error: EXISTS command requires KEY argument'' @ newline)])
      | key # _ \<Rightarrow>
          if length key > get_client_max_key_length then
            (APP_ERROR_USAGE, Some c, [key_too_long_message])
          else (case client_exists net (Some c) (Some key) of
            (r, c', es) \<Rightarrow>
              (APP_SUCCESS, c', print_connection_info c verbose @ map sock_out es
                 @ (if verbose then
                      print_result r ''EXISTS''
                        (Some (if r = CLIENT_SUCCESS then ''Key exists'' else ''Key does not exist'')) verbose
                    else [Out ((if r = CLIENT_SUCCESS then ''true'' else ''false'') @ newline)]))))"

definition handle_flush_command :: "net \<Rightarrow> client_instance \<Rightarrow> bool \<Rightarrow> handler_result" where
  "handle_flush_command net c verbose =
     (case client_flush net (Some c) of
        (r, c', es) \<Rightarrow>
          (operation_status r, c', print_connection_info c verbose @ map sock_out es
             @ print_result r ''FLUSH'' (if verbose then Some ''Cleared all cache entries'' else None) verbose))"

definition handle_ping_command :: "net \<Rightarrow> client_instance \<Rightarrow> bool \<Rightarrow> handler_result" where
  "handle_ping_command net c verbose =
     (case client_ping net (Some c) of
        (r, c', es) \<Rightarrow>
          (operation_status r, c', print_connection_info c verbose @ map sock_out es
             @ print_result r ''PING'' (if verbose then Some ''Server responded'' else None) verbose))"

definition handle_stats_command :: "net \<Rightarrow> client_instance \<Rightarrow> bool \<Rightarrow> handler_result" where
  "handle_stats_command net c verbose =
     (if client_get_stats net (Some c) True \<noteq> None then
        (APP_SUCCESS, Some c, print_connection_info c verbose @ print_statistics net c)
      else
        (APP_ERROR_OPERATION, Some c, print_connection_info c verbose
           @ [Err (''Error: Failed to retrieve statistics'' @ newline)]))"

definition handle_status_command :: "net \<Rightarrow> client_instance \<Rightarrow> bool \<Rightarrow> handler_result" where
  "handle_status_command net c verbose =
     (let st = client_get_status (Some c);
          err = client_get_last_error (Some c)
      in (APP_SUCCESS, Some c,
          [Out ([CHR 0xF0, CHR 0x9F, CHR 0x94, CHR 0x84] @ '' Client Status:'' @ newline),
           Out (''   Connection: '' @ status_word st @ newline),
           Out (''   Server: '' @ host_text (config c) @ '':'' @ dec_digits (unat (port (config c))) @ newline),
           Out (''   Timeout: '' @ dec_digits (unat (timeout_ms (config c))) @ ''ms'' @ newline)]
          @ (if st = STATUS_ERROR \<or> (verbose \<and> err \<noteq> []) then [Out (''   Last Error: '' @ err @ newline)] else [])
          @ (if verbose then print_statistics net c else [])))"

section \<open>The program\<close>

text \<open>\<^verbatim>\<open>(uint32_t)atoi(s)\<close>.\<close>

definition atoi_u32 :: "string \<Rightarrow> u32" where
  "atoi_u32 s = word_of_int (fst (strtol10 s))"

text \<open>The option loop: the configuration and verbosity, or a status to return at once.\<close>

fun parse_options ::
  "cli_option list \<Rightarrow> client_config \<Rightarrow> bool \<Rightarrow> app_result + client_config \<times> bool" where
  "parse_options [] cfg verbose = Inr (cfg, verbose)"
| "parse_options (Opt_Host h # os) cfg verbose = parse_options os (cfg\<lparr>host := Some h\<rparr>) verbose"
| "parse_options (Opt_Port p # os) cfg verbose = parse_options os (cfg\<lparr>port := atoi_u32 p\<rparr>) verbose"
| "parse_options (Opt_Timeout t # os) cfg verbose = parse_options os (cfg\<lparr>timeout_ms := atoi_u32 t\<rparr>) verbose"
| "parse_options (Opt_Verbose # os) cfg verbose = parse_options os cfg True"
| "parse_options (Opt_Help # os) cfg verbose = Inl APP_SUCCESS"
| "parse_options (Opt_Other # os) cfg verbose = Inl APP_ERROR_USAGE"

definition dispatch ::
  "net \<Rightarrow> command_system \<Rightarrow> client_instance \<Rightarrow> string \<Rightarrow> string list \<Rightarrow> bool \<Rightarrow> handler_result" where
  "dispatch net g c command argv verbose =
     (if strcmp command ''set'' = 0 then handle_set_command net g c argv verbose
      else if strcmp command ''get'' = 0 then handle_get_command net c argv verbose
      else if strcmp command ''delete'' = 0 then handle_delete_command net c argv verbose
      else if strcmp command ''exists'' = 0 then handle_exists_command net c argv verbose
      else if strcmp command ''flush'' = 0 then handle_flush_command net c verbose
      else if strcmp command ''ping'' = 0 then handle_ping_command net c verbose
      else if strcmp command ''stats'' = 0 then handle_stats_command net c verbose
      else if strcmp command ''status'' = 0 then handle_status_command net c verbose
      else (APP_ERROR_USAGE, Some c,
        [Err (''Error: Unknown command '' @ [CHR 0x27] @ command @ [CHR 0x27] @ newline @ newline), Usage]))"

text \<open>Whether the four allocations of the program succeed.\<close>

record cli_env =
  table_calloc_ok :: bool
  client_calloc_ok :: bool
  sys_calloc_ok :: bool
  mutex_init_ok :: bool

definition cli_main ::
  "net \<Rightarrow> cli_env \<Rightarrow> cli_option list \<Rightarrow> string list \<Rightarrow> drs_fault + app_result \<times> cli_event list" where
  "cli_main net env opts argv =
     (let seed = word_of_int (time_now net);
          started = global_init_output (table_calloc_ok env) (time_now net) seed command_system_start
      in bindR (command_system_global_init (table_calloc_ok env) (time_now net) seed command_system_start) (\<lambda>(ready, g).
       if \<not> ready then
         Inr (APP_SUCCESS, started @ [Err (''Error: Failed to initialize command system'' @ newline)])
       else case parse_options opts client_config_default False of
         Inl app \<Rightarrow> Inr (app, started @ [Usage])
       | Inr (cfg, verbose) \<Rightarrow>
           (case argv of
              [] \<Rightarrow> Inr (APP_ERROR_USAGE, started @ [Err (''Error: No command specified'' @ newline @ newline), Usage])
            | command # command_args \<Rightarrow>
                (case client_config_validate (Some cfg) 256 of
                   (valid, message) \<Rightarrow>
                     if \<not> valid then
                       Inr (APP_ERROR_USAGE, started @ [Err (''Configuration error: '' @ message @ newline)])
                     else
                       let created = client_init_output (client_calloc_ok env) (sys_calloc_ok env) (Some cfg)
                       in bindR (client_init (client_calloc_ok env) (sys_calloc_ok env) (mutex_init_ok env)
                           (time_now net) (Some cfg) 0) (\<lambda>client.
                         case client of
                           None \<Rightarrow> Inr (APP_ERROR_MEMORY, started @ created @
                             [Err (''Error: Failed to initialize client'' @ newline)])
                         | Some c \<Rightarrow>
                             (case dispatch net g c command command_args verbose of
                                (app, c', es) \<Rightarrow>
                                  Inr (app, started @ created @ es @ map sock_out (client_destroy net c'))))))))"

end
