(* ===== verification/Client_Correct.thy ===== *)
theory Client_Correct
  imports Client_Ops Command_Table
begin

text \<open>
  What the client's operations guarantee: the outcome of connecting and its retries, which
  sockets stay open, and that an operation's result says only whether a reply was received.
\<close>

section \<open>The retry loop\<close>

text \<open>A call or print that leaves the socket as it is.\<close>

fun idle_call :: "sock_event \<Rightarrow> bool" where
  "idle_call (Sock_Poll fd ms) = True"
| "idle_call (Sock_Print s) = True"
| "idle_call _ = False"

lemma connect_loop_step:
  assumes "connect_loop net c (k + 1) todo = (r1, c1, es1)"
  obtains (left) r c' before after where "connect_loop net c k (Suc todo) = (Some r, c',
      Sock_Connect (sockfd c) (server_addr c) # before @ Sock_Set_Flags (sockfd c) (socket_flags net) (restore_ok net) # after)"
      "(r = CLIENT_SUCCESS \<and> c' = set_connected net c) \<or> (r = Client_Result_Minus_One \<and> c' = c)"
      "list_all idle_call before" "list_all idle_call after"
  | (critical) "connect_loop net c k (Suc todo) =
      (None, set_error (''Critical connection error: '' @ strerror net) c, [Sock_Connect (sockfd c) (server_addr c)])"
  | (again) before where "connect_loop net c k (Suc todo) =
      (r1, c1, Sock_Connect (sockfd c) (server_addr c) # before @ retry_pause k todo @ es1)"
      "list_all idle_call before"
proof -
  let ?call = "Sock_Connect (sockfd c) (server_addr c)" and ?poll = "Sock_Poll (sockfd c) (sint (timeout_ms (config c)))"
    and ?restore = "Sock_Set_Flags (sockfd c) (socket_flags net) (restore_ok net)"
  define step where "step = connect_loop net c k (Suc todo)"
  have "(\<exists>before after. step = (Some CLIENT_SUCCESS, set_connected net c, ?call # before @ ?restore # after)
        \<and> list_all idle_call before \<and> list_all idle_call after)
    \<or> (\<exists>before after. step = (Some Client_Result_Minus_One, c, ?call # before @ ?restore # after)
        \<and> list_all idle_call before \<and> list_all idle_call after)
    \<or> step = (None, set_error (''Critical connection error: '' @ strerror net) c, [?call])
    \<or> (\<exists>before. step = (r1, c1, ?call # before @ retry_pause k todo @ es1) \<and> list_all idle_call before)"
  proof (cases "connect_outcome net k")
    case Connect_Ok
    then obtain p where "step = (Some CLIENT_SUCCESS, set_connected net c, ?call # [] @ ?restore # [Sock_Print p])"
      using assms by (simp add: step_def Let_def)
    moreover have "list_all idle_call []" "list_all idle_call [Sock_Print p]" by simp_all
    ultimately show ?thesis by blast
  next
    case (Connect_Error e)
    have "step \<in>
      {(Some CLIENT_SUCCESS, set_connected net c, ?call # [] @ ?restore # []),
       (Some CLIENT_SUCCESS, set_connected net c, ?call # [?poll] @ ?restore # []),
       (Some Client_Result_Minus_One, c, ?call # [?poll] @ ?restore #
          [Sock_Print ''Operation is prohibited by locks held by other processes'']),
       (None, set_error (''Critical connection error: '' @ strerror net) c, [?call]),
       (r1, c1, ?call # [] @ retry_pause k todo @ es1),
       (r1, c1, ?call # [?poll, Sock_Print (''DEBUG: Poll check FAILED'' @ newline)] @ retry_pause k todo @ es1)}"
      using assms Connect_Error by (simp add: step_def Let_def)
    moreover have "list_all idle_call []" "list_all idle_call [?poll]"
      "list_all idle_call [Sock_Print ''Operation is prohibited by locks held by other processes'']"
      "list_all idle_call [?poll, Sock_Print (''DEBUG: Poll check FAILED'' @ newline)]" by simp_all
    ultimately show ?thesis by (elim insertE emptyE) blast+
  qed
  then show ?thesis using that unfolding step_def by blast
qed

text \<open>What the loop can do to the client.\<close>

definition loop_result :: "net \<Rightarrow> client_instance \<Rightarrow> client_result option \<Rightarrow> client_instance \<Rightarrow> bool" where
  "loop_result net c r c' \<longleftrightarrow> (r = Some CLIENT_SUCCESS \<and> c' = set_connected net c)
     \<or> (r = Some Client_Result_Minus_One \<and> c' = c)
     \<or> (r = None \<and> (c' = c \<or> c' = set_error (''Critical connection error: '' @ strerror net) c))"

lemma connect_loop_result:
  "connect_loop net c k todo = (r, c', es) \<Longrightarrow> loop_result net c r c'"
proof (induction todo arbitrary: k r c' es)
  case (Suc todo)
  obtain r1 c1 es1 where n: "connect_loop net c (k + 1) todo = (r1, c1, es1)"
    by (cases "connect_loop net c (k + 1) todo") auto
  show ?case
    by (rule connect_loop_step [OF n])
      (use Suc.IH [OF n] Suc.prems in \<open>auto simp: loop_result_def simp del: connect_loop.simps\<close>)
qed (simp add: loop_result_def)

text \<open>
  What a run of socket calls comes to: the pauses, the mode and time-outs the calls that succeeded
  leave (a new socket has none), and the descriptors opened and not closed again.
\<close>

fun is_sleep :: "sock_event \<Rightarrow> bool" where
  "is_sleep (Sock_Sleep _) = True"
| "is_sleep _ = False"

record socket_mode =
  mode_flags :: u32
  rcv_limit :: "(nat \<times> nat) option"
  snd_limit :: "(nat \<times> nat) option"

fun mode_after :: "socket_mode \<Rightarrow> sock_event list \<Rightarrow> socket_mode" where
  "mode_after m [] = m"
| "mode_after m (Sock_Set_Flags _ g done # es) = mode_after (if done then m\<lparr>mode_flags := g\<rparr> else m) es"
| "mode_after m (Sock_Rcv_Timeout _ s us done # es) = mode_after (if done then m\<lparr>rcv_limit := Some (s, us)\<rparr> else m) es"
| "mode_after m (Sock_Snd_Timeout _ s us done # es) = mode_after (if done then m\<lparr>snd_limit := Some (s, us)\<rparr> else m) es"
| "mode_after m (_ # es) = mode_after m es"

fun open_after :: "int set \<Rightarrow> sock_event list \<Rightarrow> int set" where
  "open_after F [] = F"
| "open_after F (Sock_Open fd # es) = open_after (insert fd F) es"
| "open_after F (Sock_Close fd # es) = open_after (F - {fd}) es"
| "open_after F (_ # es) = open_after F es"

lemma mode_after_append [simp]: "mode_after m (es @ es') = mode_after (mode_after m es) es'"
  by (induction m es rule: mode_after.induct) auto

lemma open_after_append [simp]: "open_after F (es @ es') = open_after (open_after F es) es'"
  by (induction F es rule: open_after.induct) auto

lemma idle_call_iff: "idle_call e \<longleftrightarrow> (\<exists>fd ms. e = Sock_Poll fd ms) \<or> (\<exists>s. e = Sock_Print s)"
  by (cases e) auto

lemma idle_calls:
  "list_all idle_call es \<Longrightarrow> filter is_sleep es = [] \<and> mode_after m es = m \<and> open_after F es = F
    \<and> Sock_Connect fd a \<notin> set es"
proof (induction es)
  case (Cons e es)
  then have "idle_call e" and es: "filter is_sleep es = []" "mode_after m es = m" "open_after F es = F"
    "Sock_Connect fd a \<notin> set es" by simp_all
  then show ?case by (cases e) simp_all
qed simp

text \<open>The pauses: one between two attempts, each twice as long as the one before until the product overflows.\<close>

definition backoff :: "nat \<Rightarrow> nat \<Rightarrow> sock_event list" where
  "backoff k m = map (\<lambda>j. Sock_Sleep (backoff_us j)) [k..<k + m]"

lemma backoff_0 [simp]: "backoff k 0 = []"
  by (simp add: backoff_def)

lemma backoff_Suc: "backoff k (Suc m) = Sock_Sleep (backoff_us k) # backoff (k + 1) m"
  by (simp add: backoff_def upt_conv_Cons del: upt_Suc)

lemma backoff_us_defined: "backoff_us k = Some (100000 * 2 ^ k) \<longleftrightarrow> k \<le> 14"
proof -
  have "(100000 :: int) * 2 ^ k < 2 ^ 31 \<longleftrightarrow> k \<le> 14"
  proof
    assume small: "(100000 :: int) * 2 ^ k < 2 ^ 31"
    have "(2 :: int) ^ 15 \<le> 2 ^ k" if "15 \<le> k" using that by (rule power_increasing) simp
    then show "k \<le> 14" using small by (cases "15 \<le> k") auto
  next
    assume "k \<le> 14"
    then have "(2 :: int) ^ k \<le> 2 ^ 14" by (rule power_increasing) simp
    then show "(100000 :: int) * 2 ^ k < 2 ^ 31" by simp
  qed
  then show ?thesis by (auto simp: backoff_us_def)
qed

lemma backoff_short: "m \<le> 15 \<Longrightarrow> backoff 0 m = map (\<lambda>j. Sock_Sleep (Some (100000 * 2 ^ j))) [0..<m]"
  unfolding backoff_def add_0 by (rule map_cong [OF refl]) (simp add: backoff_us_defined)

text \<open>The calls of a loop that ran to \<open>r\<close> with \<open>todo\<close> attempts left.\<close>

definition loop_calls ::
  "net \<Rightarrow> client_instance \<Rightarrow> nat \<Rightarrow> nat \<Rightarrow> client_result option \<Rightarrow> sock_event list \<Rightarrow> bool" where
  "loop_calls net c k todo r es \<longleftrightarrow>
     (\<exists>m. filter is_sleep es = backoff k m \<and> m \<le> todo - 1)
     \<and> (\<forall>F. open_after F es = F)
     \<and> (r \<noteq> None \<longrightarrow> (\<forall>m. mode_after m es = (if restore_ok net then m\<lparr>mode_flags := socket_flags net\<rparr> else m)))
     \<and> (\<forall>fd a. Sock_Connect fd a \<in> set es \<longrightarrow> fd = sockfd c \<and> a = server_addr c)"

lemma retry_pause_simps [simp]:
  "filter is_sleep (retry_pause k todo) = retry_pause k todo"
  "open_after F (retry_pause k todo) = F" "mode_after m (retry_pause k todo) = m"
  "Sock_Connect fd a \<notin> set (retry_pause k todo)"
  by (simp_all add: retry_pause_def)

lemma loop_calls_again:
  assumes "loop_calls net c (k + 1) todo r es1" and "todo = 0 \<longrightarrow> r = None \<and> es1 = []"
    and "list_all idle_call before"
  shows "loop_calls net c k (Suc todo) r
    (Sock_Connect (sockfd c) (server_addr c) # before @ retry_pause k todo @ es1)"
proof -
  obtain m where m: "filter is_sleep es1 = backoff (k + 1) m" "m \<le> todo - 1"
    using assms(1) by (auto simp: loop_calls_def)
  have "\<exists>m. retry_pause k todo @ filter is_sleep es1 = backoff k m \<and> m \<le> todo"
  proof (cases todo)
    case 0
    with assms(2) show ?thesis by (auto simp: retry_pause_def intro: exI [of _ 0])
  next
    case (Suc t)
    with m show ?thesis
      by (intro exI [of _ "Suc m"]) (simp add: retry_pause_def backoff_Suc)
  qed
  then show ?thesis using assms(1) idle_calls [OF assms(3)] by (auto simp: loop_calls_def)
qed

lemma connect_loop_calls:
  "connect_loop net c k todo = (r, c', es) \<Longrightarrow> loop_calls net c k todo r es"
proof (induction todo arbitrary: k r c' es)
  case 0
  then show ?case by (auto simp: loop_calls_def intro: exI [of _ 0])
next
  case (Suc todo)
  obtain r1 c1 es1 where n: "connect_loop net c (k + 1) todo = (r1, c1, es1)"
    by (cases "connect_loop net c (k + 1) todo") auto
  have none: "todo = 0 \<longrightarrow> r1 = None \<and> es1 = []" using n by auto
  show ?case
  proof (rule connect_loop_step [OF n])
    fix before
    assume "connect_loop net c k (Suc todo) =
        (r1, c1, Sock_Connect (sockfd c) (server_addr c) # before @ retry_pause k todo @ es1)"
      and before: "list_all idle_call before"
    with Suc.prems loop_calls_again [OF Suc.IH [OF n] none before] show ?thesis by simp
  next
    fix res d before after
    assume run: "connect_loop net c k (Suc todo) = (Some res, d, Sock_Connect (sockfd c) (server_addr c)
        # before @ Sock_Set_Flags (sockfd c) (socket_flags net) (restore_ok net) # after)"
      and quiet: "list_all idle_call before" "list_all idle_call after"
    show ?thesis
      using run Suc.prems idle_calls [OF quiet(1)] idle_calls [OF quiet(2)]
      by (auto simp: loop_calls_def intro: exI [of _ 0])
  qed (use Suc.prems in \<open>auto simp: loop_calls_def intro: exI [of _ 0]\<close>)
qed

section \<open>Connecting\<close>

text \<open>
  The mode of a socket once it is connected: what the calls of the setup that succeeded set, and
  blocking again unless the mode was changed and could not be changed back.
\<close>

definition connected_mode :: "net \<Rightarrow> client_config \<Rightarrow> socket_mode" where
  "connected_mode net cfg =
     (let limit = (unat (timeout_ms cfg div 1000), unat ((timeout_ms cfg mod 1000) * 1000))
      in \<lparr>mode_flags = (if nonblock_ok net \<and> \<not> restore_ok net then socket_flags net OR O_NONBLOCK else socket_flags net),
          rcv_limit = (if rcvtimeo_ok net then Some limit else None),
          snd_limit = (if sndtimeo_ok net then Some limit else None)\<rparr>)"

definition new_mode :: "net \<Rightarrow> socket_mode" where
  "new_mode net = \<lparr>mode_flags = socket_flags net, rcv_limit = None, snd_limit = None\<rparr>"

text \<open>
  What establishing a connection comes to: a result, the client and the socket calls.
\<close>

definition keeps_socket :: "net \<Rightarrow> client_instance \<Rightarrow> client_instance \<Rightarrow> sock_event list \<Rightarrow> bool" where
  "keeps_socket net c c' es \<longleftrightarrow> sockfd c' = socket_fd net \<and> socket_fd net \<ge> 0
     \<and> open_after {} es = {socket_fd net} \<and> mode_after (new_mode net) es = connected_mode net (config c)
     \<and> (\<exists>m. filter is_sleep es = backoff 0 m \<and> m \<le> unat (max_retries (config c)) - 1)
     \<and> (\<exists>addr. server_addr c' = server_address (config c) addr \<and>
          (\<exists>h. host (config c) = Some h \<and> inet_pton6 net h = Some addr))
     \<and> (\<forall>fd a. Sock_Connect fd a \<in> set es \<longrightarrow> fd = socket_fd net \<and> a = server_addr c')"

lemma socket_setup_calls [simp]:
  "filter is_sleep (socket_setup net fd cfg) = []" "open_after F (socket_setup net fd cfg) = F"
  "Sock_Connect fd' a \<notin> set (socket_setup net fd cfg)"
  by (simp_all add: socket_setup_def Let_def)

lemma socket_setup_mode:
  "mode_after (new_mode net) (socket_setup net fd cfg @ es) =
    mode_after (connected_mode (net\<lparr>restore_ok := False\<rparr>) cfg) es"
  by (simp add: socket_setup_def connected_mode_def new_mode_def Let_def)

lemma establish_outcome:
  assumes "client_establish_connection net c = (r, c', es)"
  shows "(r = CLIENT_SUCCESS \<and> status c' = STATUS_CONNECTED \<and> config c' = config c \<and> stats c' = stats c
        \<and> cmd_system c' = cmd_system c \<and> keeps_socket net c c' es)
    \<or> (r = Client_Result_Minus_One \<and> keeps_socket net c c' es)
    \<or> (r = CLIENT_ERROR_CONNECTION \<and> sockfd c' = -1 \<and> socket_fd net \<ge> 0 \<and> open_after {} es = {})
    \<or> (r = CLIENT_ERROR_CONNECTION \<and> socket_fd net < 0 \<and> sockfd c' = socket_fd net \<and> es = [])
    \<or> (r = CLIENT_ERROR_PROTOCOL \<and> sockfd c' = sockfd c \<and> es = [])"
proof (cases "\<exists>h addr. host (config c) = Some h \<and> h \<noteq> [] \<and> inet_pton6 net h = Some addr \<and> socket_fd net \<ge> 0")
  case False
  with assms show ?thesis
    by (auto simp: client_establish_connection_def set_error_def Let_def split: option.splits if_splits)
next
  case True
  then obtain h addr where h: "host (config c) = Some h" "h \<noteq> []" "inet_pton6 net h = Some addr" "socket_fd net \<ge> 0"
    by blast
  define c0 where "c0 = c\<lparr>sockfd := socket_fd net, server_addr := server_address (config c) addr\<rparr>"
  define prep where "prep = Sock_Open (socket_fd net) # socket_setup net (socket_fd net) (config c)"
  obtain lr lc les where loop: "connect_loop net c0 0 (unat (max_retries (config c))) = (lr, lc, les)"
    by (cases "connect_loop net c0 0 (unat (max_retries (config c)))") auto
  have run: "(case (lr, lc, les) of
      (Some r, c', es) \<Rightarrow> (r, c', prep @ es)
    | (None, c', es) \<Rightarrow> (case connection_failed net c' of (r, c'', es') \<Rightarrow> (r, c'', prep @ es @ es')))
      = (r, c', es)"
    using assms h loop
    by (simp add: client_establish_connection_def Let_def c0_def prep_def split: option.splits)
  have calls: "loop_calls net c0 0 (unat (max_retries (config c))) lr les" using connect_loop_calls [OF loop] .
  have kept: "keeps_socket net c lc (prep @ les)" if "lr \<noteq> None" "sockfd lc = sockfd c0" "server_addr lc = server_addr c0"
    using that calls h unfolding keeps_socket_def loop_calls_def
    by (auto simp: prep_def c0_def socket_setup_mode [where es = "[]", simplified] connected_mode_def Let_def simp del: ex_simps)
  have closed: "open_after {} (prep @ les @ [Sock_Set_Flags fd f b, Sock_Close (socket_fd net)]) = {}" for fd f b
    using calls by (simp add: loop_calls_def prep_def)
  from connect_loop_result [OF loop] show ?thesis
    unfolding loop_result_def
  proof (elim disjE conjE)
    assume "lr = Some CLIENT_SUCCESS" "lc = set_connected net c0"
    with run kept show ?thesis by (auto simp: set_connected_def c0_def)
  next
    assume "lr = Some Client_Result_Minus_One" "lc = c0"
    with run kept show ?thesis by auto
  next
    assume "lr = None" "lc = c0"
    with run closed h(4) show ?thesis by (auto simp: connection_failed_def c0_def)
  next
    assume "lr = None" "lc = set_error (''Critical connection error: '' @ strerror net) c0"
    with run closed h(4) show ?thesis by (auto simp: connection_failed_def c0_def set_error_def)
  qed
qed

text \<open>
  The descriptors a client accounts for: its socket while the field is not negative.
\<close>

definition held_sockets :: "client_instance \<Rightarrow> int set" where
  "held_sockets c = (if sockfd c \<ge> 0 then {sockfd c} else {})"

text \<open>C18:
  Connecting a client that holds no socket, with at most 16 retries (one more and a pause overflows \<^verbatim>\<open>int\<close>):
  it ends CONNECTED exactly when the result is success, with ERROR otherwise; the sockets left open are
  exactly the one the client then holds. On success that socket was connected to the configured address and
  the low 16 bits of the port, after at most \<open>max_retries - 1\<close> pauses that double from 0.1 s; it has each
  configured time-out whose \<^verbatim>\<open>setsockopt\<close> succeeded, and the mode it was created with unless \<^verbatim>\<open>fcntl\<close> made it
  non-blocking and failed to make it blocking again: the code only logs these failures.
\<close>

theorem client_connect_correct:
  assumes "status c \<noteq> STATUS_CONNECTED" and "sockfd c < 0" and "max_retries (config c) \<le> 16"
  shows "case client_connect net (Some c) of
    (r, Some c', es) \<Rightarrow>
      (r = CLIENT_SUCCESS \<longleftrightarrow> status c' = STATUS_CONNECTED) \<and>
      (r = CLIENT_SUCCESS \<longrightarrow> last_error c' = [] \<and> config c' = config c \<and> stats c' = stats c \<and>
         cmd_system c' = cmd_system c \<and> sockfd c' \<ge> 0 \<and>
         mode_after \<lparr>mode_flags = socket_flags net, rcv_limit = None, snd_limit = None\<rparr> es =
           \<lparr>mode_flags = (if nonblock_ok net \<and> \<not> restore_ok net then socket_flags net OR O_NONBLOCK else socket_flags net),
            rcv_limit = (if rcvtimeo_ok net
              then Some (unat (timeout_ms (config c) div 1000), unat ((timeout_ms (config c) mod 1000) * 1000)) else None),
            snd_limit = (if sndtimeo_ok net
              then Some (unat (timeout_ms (config c) div 1000), unat ((timeout_ms (config c) mod 1000) * 1000)) else None)\<rparr> \<and>
         (\<exists>h addr. host (config c) = Some h \<and> inet_pton6 net h = Some addr \<and>
            server_addr c' = \<lparr>sin6_family = AF_INET6, sin6_port = ucast (port (config c)), sin6_addr = addr\<rparr>) \<and>
         (\<forall>fd a. Sock_Connect fd a \<in> set es \<longrightarrow> fd = sockfd c' \<and> a = server_addr c') \<and>
         (\<exists>m \<le> unat (max_retries (config c)) - 1.
            filter is_sleep es = map (\<lambda>j. Sock_Sleep (Some (100000 * 2 ^ j))) [0..<m])) \<and>
      (r \<noteq> CLIENT_SUCCESS \<longrightarrow> status c' = STATUS_ERROR) \<and>
      open_after {} es = held_sockets c'
  | (r, None, es) \<Rightarrow> False"
proof -
  define c0 where "c0 = c\<lparr>status := STATUS_CONNECTING\<rparr>"
  obtain r c1 es where e: "client_establish_connection net c0 = (r, c1, es)"
    by (cases "client_establish_connection net c0") auto
  note out = establish_outcome [OF e]
  have run: "client_connect net (Some c) = (r, Some (if r = CLIENT_SUCCESS
        then (set_connected net c1)\<lparr>last_error := []\<rparr>
        else c1\<lparr>status := STATUS_ERROR,
          stats := (stats c1)\<lparr>operations_failed := operations_failed (stats c1) + 1\<rparr>\<rparr>), es)"
    using assms(1) e by (simp add: client_connect_def on_client_def connect_locked_def c0_def)
  show ?thesis
  proof (cases "r = CLIENT_SUCCESS")
    case True
    with out have kept: "keeps_socket net c c1 es" "config c1 = config c" "stats c1 = stats c" "cmd_system c1 = cmd_system c"
      by (simp_all add: c0_def keeps_socket_def)
    then obtain m where m: "filter is_sleep es = backoff 0 m" "m \<le> unat (max_retries (config c)) - 1"
      unfolding keeps_socket_def by blast
    have "unat (max_retries (config c)) \<le> 16" using assms(3) by (simp add: word_le_nat_alt)
    then have "m \<le> 15" using m(2) by linarith
    then have "backoff 0 m = map (\<lambda>j. Sock_Sleep (Some (100000 * 2 ^ j))) [0..<m]" by (rule backoff_short)
    with m have pauses: "\<exists>m \<le> unat (max_retries (config c)) - 1.
        filter is_sleep es = map (\<lambda>j. Sock_Sleep (Some (100000 * 2 ^ j))) [0..<m]" by auto
    have sock: "sockfd c1 \<ge> 0" "open_after {} es = {sockfd c1}"
      "\<forall>fd a. Sock_Connect fd a \<in> set es \<longrightarrow> fd = sockfd c1 \<and> a = server_addr c1"
      using kept(1) unfolding keeps_socket_def by auto
    have mode: "mode_after (new_mode net) es = connected_mode net (config c)"
      using kept(1) unfolding keeps_socket_def by blast
    have address: "\<exists>h addr. host (config c) = Some h \<and> inet_pton6 net h = Some addr \<and>
        server_addr c1 = server_address (config c) addr"
      using kept(1) unfolding keeps_socket_def by blast
    have now: "status (set_connected net c1) = STATUS_CONNECTED" "stats (set_connected net c1) = stats c1"
      "config (set_connected net c1) = config c1" "sockfd (set_connected net c1) = sockfd c1"
      "cmd_system (set_connected net c1) = cmd_system c1" "server_addr (set_connected net c1) = server_addr c1"
      by (simp_all add: set_connected_def)
    have held: "open_after {} es = held_sockets ((set_connected net c1)\<lparr>last_error := []\<rparr>)"
      using sock(1,2) now(4) by (simp add: held_sockets_def)
    show ?thesis
      unfolding run option.case prod.case if_P [OF True]
    proof (intro conjI impI)
      show "mode_after \<lparr>mode_flags = socket_flags net, rcv_limit = None, snd_limit = None\<rparr> es =
           \<lparr>mode_flags = (if nonblock_ok net \<and> \<not> restore_ok net then socket_flags net OR O_NONBLOCK else socket_flags net),
            rcv_limit = (if rcvtimeo_ok net
              then Some (unat (timeout_ms (config c) div 1000), unat ((timeout_ms (config c) mod 1000) * 1000)) else None),
            snd_limit = (if sndtimeo_ok net
              then Some (unat (timeout_ms (config c) div 1000), unat ((timeout_ms (config c) mod 1000) * 1000)) else None)\<rparr>"
        using mode unfolding new_mode_def connected_mode_def Let_def .
      show "\<exists>m \<le> unat (max_retries (config c)) - 1.
            filter is_sleep es = map (\<lambda>j. Sock_Sleep (Some (100000 * 2 ^ j))) [0..<m]" by (rule pauses)
      show "open_after {} es = held_sockets ((set_connected net c1)\<lparr>last_error := []\<rparr>)" by (rule held)
      show "\<exists>h addr. host (config c) = Some h \<and> inet_pton6 net h = Some addr \<and>
          server_addr ((set_connected net c1)\<lparr>last_error := []\<rparr>) =
            \<lparr>sin6_family = AF_INET6, sin6_port = ucast (port (config c)), sin6_addr = addr\<rparr>"
        using address now(6) by (simp add: server_address_def)
      show "\<forall>fd a. Sock_Connect fd a \<in> set es \<longrightarrow> fd = sockfd ((set_connected net c1)\<lparr>last_error := []\<rparr>) \<and>
          a = server_addr ((set_connected net c1)\<lparr>last_error := []\<rparr>)"
        using sock(3) now(4,6) by simp
    qed (use True kept(2-4) sock(1) now in simp_all)
  next
    case False
    with out assms(2) have "open_after {} es = held_sockets c1"
      by (auto simp: held_sockets_def keeps_socket_def c0_def)
    with False run show ?thesis by (simp add: held_sockets_def)
  qed
qed

text \<open>A reachable loopback peer, for the witnesses.\<close>

definition loop_net :: net where
  "loop_net = \<lparr>inet_pton6 = (\<lambda>_. Some 1), socket_fd = 3, socket_flags = 2, rcvtimeo_ok = True, sndtimeo_ok = True,
     nonblock_ok = True, restore_ok = True, connect_outcome = (\<lambda>_. Connect_Ok),
     poll_outcome = (\<lambda>_. \<lparr>poll_result = 0, poll_bad_events = False, poll_writable = False,
       getsockopt_result = 0, so_error = 0\<rparr>), errno_after_poll = (\<lambda>_. Other_Errno),
     send_result = (\<lambda>m. int (length m)), recv_reply = (\<lambda>_. Some (''OK'' @ crlf)), strerror = [],
     stack_bytes = replicate 4096 NUL, time_now = 7\<rparr>"

definition new_client :: client_instance where
  "new_client = \<lparr>config = client_config_default, status = STATUS_DISCONNECTED, sockfd = -1,
     server_addr = \<lparr>sin6_family = 0, sin6_port = 0, sin6_addr = 0\<rparr>, stats = \<lparr>operations_total = 0, operations_failed = 0, bytes_sent = 0, bytes_received = 0,
       reconnect_count = 0, connection_time_seconds = 0\<rparr>,
     last_error = [], connect_time = 0, last_activity = 0, cmd_system = Some (the_system 0 0)\<rparr>"

lemma new_client_init: "client_init_default True True True 0 = Inr (Some new_client)"
  by (simp add: client_init_default_def client_init_def cmd_system_init_def enum_system_init_eq
      new_client_def)

lemma client_connect_correct_witness:
  "case client_connect loop_net (Some new_client) of
    (r, Some c', es) \<Rightarrow> (r = CLIENT_SUCCESS \<longleftrightarrow> status c' = STATUS_CONNECTED) \<and>
      open_after {} es = held_sockets c'
  | (r, None, es) \<Rightarrow> False"
proof -
  have "status new_client \<noteq> STATUS_CONNECTED" "sockfd new_client < 0" "max_retries (config new_client) \<le> 16"
    by (simp_all add: new_client_def client_config_default_def get_client_max_retries_def)
  from client_connect_correct [OF this, of loop_net] show ?thesis
    by (auto split: prod.splits option.splits)
qed

end
