(* ===== verification/Client_Server.thy ===== *)
theory Client_Server
  imports Client_Correct Server_Commands
begin

text \<open>
  The client against the server: one operation of the client is one connection that the
  server's handler serves, with memory for a new key. The network delivers a line in one piece,
  as both sides assume.
\<close>

section \<open>The server as the client's peer\<close>

text \<open>A network whose peer runs the handler on table \<open>db\<close>, and the table it leaves.\<close>

definition server_net :: "nat \<Rightarrow> storage_db \<Rightarrow> net \<Rightarrow> net" where
  "server_net n db base = base\<lparr>
     connect_outcome := (\<lambda>_. Connect_Ok),
     send_result := (\<lambda>m. int (length m)),
     recv_reply := (\<lambda>m. case handle_client_connection n True db (Some m) of
        Inr (Send r # _, _) \<Rightarrow> Some r | Inr (_, _) \<Rightarrow> Some [] | Inl _ \<Rightarrow> None)\<rparr>"

definition server_after :: "nat \<Rightarrow> storage_db \<Rightarrow> sock_event list \<Rightarrow> storage_db" where
  "server_after n db es = fold (\<lambda>e db. case e of
     Sock_Send _ m \<Rightarrow> (case handle_client_connection n True db (Some m) of
        Inr (_, db') \<Rightarrow> db' | Inl _ \<Rightarrow> db)
   | _ \<Rightarrow> db) es db"

text \<open>A client with a valid address and no connection, and a system that gives it a socket.\<close>

definition can_reach :: "net \<Rightarrow> client_instance \<Rightarrow> bool" where
  "can_reach net c \<longleftrightarrow> status c \<noteq> STATUS_CONNECTED \<and> max_retries (config c) \<noteq> 0 \<and> socket_fd net \<ge> 0
     \<and> (case host (config c) of None \<Rightarrow> False | Some h \<Rightarrow> h \<noteq> [] \<and> inet_pton6 net h \<noteq> None)"

lemma server_net_simps [simp]:
  "connect_outcome (server_net n db base) = (\<lambda>_. Connect_Ok)"
  "send_result (server_net n db base) m = int (length m)"
  "socket_fd (server_net n db base) = socket_fd base"
  "inet_pton6 (server_net n db base) = inet_pton6 base"
  "socket_flags (server_net n db base) = socket_flags base"
  "rcvtimeo_ok (server_net n db base) = rcvtimeo_ok base"
  "sndtimeo_ok (server_net n db base) = sndtimeo_ok base"
  "nonblock_ok (server_net n db base) = nonblock_ok base"
  "restore_ok (server_net n db base) = restore_ok base"
  "strerror (server_net n db base) = strerror base"
  "stack_bytes (server_net n db base) = stack_bytes base"
  "handle_client_connection n True db (Some m) = Inr (Send r # es, db') \<Longrightarrow>
     recv_reply (server_net n db base) m = Some r"
  by (simp_all add: server_net_def)

lemma can_reach_server [simp]: "can_reach (server_net n db base) c = can_reach base c"
  by (auto simp: can_reach_def split: option.split)

text \<open>The socket calls of a connection made at the first attempt.\<close>

definition dial :: "net \<Rightarrow> client_instance \<Rightarrow> sock_event list" where
  "dial net c = Sock_Open (socket_fd net) # socket_setup net (socket_fd net) (config c) @
     [Sock_Connect (socket_fd net) (server_address (config c) (the (inet_pton6 net (the (host (config c)))))),
      Sock_Set_Flags (socket_fd net) (socket_flags net) (restore_ok net),
      Sock_Print (if restore_ok net then ''DEBUG: Socket restored to blocking mode'' @ newline
        else ''DEBUG: WARNING: Failed to restore blocking mode: '' @ strerror net @ newline)]"

lemma dial_server [simp]: "dial (server_net n db base) c = dial base c"
  by (simp add: dial_def socket_setup_def Let_def)

lemma server_after_dial [simp]: "server_after n db (dial base c @ es) = server_after n db es"
  by (simp add: server_after_def dial_def socket_setup_def Let_def)

lemma server_after_sent:
  "handle_client_connection n True db (Some m) = Inr (r, db') \<Longrightarrow>
     server_after n db (dial base c @ [Sock_Send fd m]) = db'"
  by (simp only: server_after_dial) (simp add: server_after_def)

lemma connect_reached:
  assumes "can_reach net c" and "connect_outcome net = (\<lambda>_. Connect_Ok)"
  shows "\<exists>c1. connect_locked net c = (CLIENT_SUCCESS, c1, dial net c)
    \<and> status c1 = STATUS_CONNECTED \<and> sockfd c1 = socket_fd net \<and> cmd_system c1 = cmd_system c
    \<and> stats c1 = stats c"
proof -
  obtain h addr where h: "host (config c) = Some h" "h \<noteq> []" "inet_pton6 net h = Some addr"
    using assms(1) by (auto simp: can_reach_def split: option.splits)
  obtain k where k: "unat (max_retries (config c)) = Suc k"
    using assms(1) by (metis can_reach_def not0_implies_Suc unat_eq_zero)
  have ok: "status c \<noteq> STATUS_CONNECTED" "socket_fd net \<ge> 0" using assms(1) by (simp_all add: can_reach_def)
  show ?thesis
    using h ok k assms(2)
    by (simp add: connect_locked_def client_establish_connection_def set_connected_def dial_def Let_def)
qed

lemma send_received:
  assumes "status c = STATUS_CONNECTED" and "m \<noteq> []" and "length m \<le> 4096"
    and "send_result net m \<ge> 0" and "recv_reply net m = Some reply"
  shows "\<exists>c1 buf. client_send_command net c m (stack_bytes net) 4096
      = (CLIENT_SUCCESS, c1, buf, [Sock_Send (sockfd c) m])
    \<and> cstr buf = cstr (take 4095 reply) \<and> status c1 = STATUS_CONNECTED \<and> sockfd c1 = sockfd c"
  using assms by (auto simp: client_send_command_def Let_def)

lemma request_line_sent:
  assumes "can_reach net c" and "connect_outcome net = (\<lambda>_. Connect_Ok)"
    and "m \<noteq> []" and "length m \<le> 4096" and "send_result net m \<ge> 0" and "recv_reply net m = Some reply"
  shows "\<exists>c1 buf. connect_and_send net c m = (CLIENT_SUCCESS, c1, Some buf,
      dial net c @ [Sock_Send (socket_fd net) m])
    \<and> cstr buf = cstr (take 4095 reply) \<and> status c1 = STATUS_CONNECTED \<and> sockfd c1 = socket_fd net"
proof -
  obtain c1 where c1: "connect_locked net c = (CLIENT_SUCCESS, c1, dial net c)"
    "status c1 = STATUS_CONNECTED" "sockfd c1 = socket_fd net"
    using connect_reached [OF assms(1,2)] by blast
  obtain c2 buf where "client_send_command net c1 m (stack_bytes net) 4096
      = (CLIENT_SUCCESS, c2, buf, [Sock_Send (sockfd c1) m])"
    "cstr buf = cstr (take 4095 reply)" "status c2 = STATUS_CONNECTED" "sockfd c2 = sockfd c1"
    using send_received [OF c1(2) assms(3-6)] by blast
  with c1 show ?thesis by (simp add: connect_and_send_def count_operation_def)
qed

lemma server_answers:
  assumes "db_fits db" and "64 \<le> n" and "is_cstr req" and "length req \<le> 1021"
    and "request_ok (parse_request req)" and "card (dom (storage_lookup db)) < 2 ^ 64"
  obtains db' where "handle_client_connection n True db (Some (req @ crlf)) =
      Inr ([Send (fst (respond (storage_lookup db) (parse_request req))), Close], db')"
    and "storage_lookup db' = snd (respond (storage_lookup db) (parse_request req))" and "db_fits db'"
  using run_command_refines [OF assms(1,3,2,5,6)] handle_request [OF assms(3,4), of n True db] by auto

section \<open>EXISTS\<close>

lemma parse_exists: "parse_request (''EXISTS '' @ key) = Exists key"
  by (simp add: parse_request_def)

lemma parse_get: "parse_request (''GET '' @ key) = Get key"
  by (simp add: parse_request_def)

lemma parse_set: "CHR '' '' \<notin> set key \<Longrightarrow> parse_request (''SET '' @ key @ '' '' @ val) = Set key val"
  by (simp add: parse_request_def)

lemma exists_reply_cstr: "respond m (Exists key) = (''0'' @ crlf, m) \<or> respond m (Exists key) = (''1'' @ crlf, m)"
  by (cases "m key") simp_all

lemma client_exists_asks:
  assumes "db_fits db" and "64 \<le> n" and "card (dom (storage_lookup db)) < 2 ^ 64"
    and "is_cstr key" and "length key \<le> 256" and "unat (hash key) < 1000"
    and "can_reach base c"
  shows "\<exists>c' es. client_exists (server_net n db base) (Some c) (Some key) = (CLIENT_SUCCESS, Some c', es) \<and>
    es = dial base c @ [Sock_Send (socket_fd base) (''EXISTS '' @ key @ crlf)] \<and>
    storage_lookup (server_after n db es) = storage_lookup db \<and>
    status c' = STATUS_CONNECTED \<and> sockfd c' = socket_fd base"
proof -
  define m where "m = ''EXISTS '' @ key @ crlf"
  have req: "is_cstr (''EXISTS '' @ key)" "length (''EXISTS '' @ key) \<le> 1021"
    "request_ok (parse_request (''EXISTS '' @ key))"
    using assms(4-6) by (simp_all add: parse_exists [simplified])
  obtain db' where h: "handle_client_connection n True db (Some m) =
      Inr ([Send (fst (respond (storage_lookup db) (Exists key))), Close], db')"
    and l: "storage_lookup db' = snd (respond (storage_lookup db) (Exists key))"
    using server_answers [OF assms(1,2) req assms(3)] by (auto simp: m_def parse_exists [simplified])
  have reach: "can_reach (server_net n db base) c" using assms(7) by simp
  have m: "m \<noteq> []" "length m \<le> 4096" "snprintf 288 m = m"
    using assms(5) by (simp_all add: m_def crlf_def)
  obtain c1 buf where s: "connect_and_send (server_net n db base) c m = (CLIENT_SUCCESS, c1, Some buf,
      dial base c @ [Sock_Send (socket_fd base) m])"
    and c1: "status c1 = STATUS_CONNECTED \<and> sockfd c1 = socket_fd base"
    using request_line_sent [OF reach _ m(1,2)] h by fastforce
  have "client_exists (server_net n db base) (Some c) (Some key) = (CLIENT_SUCCESS, Some c1,
      dial base c @ [Sock_Send (socket_fd base) m])"
    using s m(3) assms(5)
    by (simp add: client_exists_def on_client_def keyed_line_def send_line_def m_def)
  moreover have "storage_lookup db' = storage_lookup db"
    using l exists_reply_cstr [of "storage_lookup db" key] by auto
  ultimately show ?thesis using server_after_sent [OF h] c1 by (simp add: m_def)
qed

section \<open>SET, then GET\<close>

lemma set_entry:
  assumes "seed \<noteq> 0"
  shows "set_checks (ready_system time seed) c key val =
    (if cmd_system c = None then Some (CLIENT_ERROR_PROTOCOL, set_error ''Client command system not initialized'' c)
     else if key = [] then Some (CLIENT_ERROR_INVALID_PARAM, set_error ''SET command arguments validation failed'' c)
     else if length key > 256 then Some (CLIENT_ERROR_PROTOCOL, key_too_long key c)
     else if length val > 1048576 then
       Some (CLIENT_ERROR_PROTOCOL, set_error (''Value too long: '' @ dec_digits (length val)
         @ '' bytes (max: '' @ dec_digits 1048576 @ '')'') c)
     else None)"
proof -
  have up: "map upper_char (take 31 ''SET'') = ''SET''" by code_simp
  have "get_command_secure (ready_system time seed) (Some ''SET'') = find (entry_matches ''SET'') ready_commands"
    by (simp add: get_command_secure_def ready_system_def upper_lookup_name Let_def up [simplified])
  also have "\<dots> = Some (template_command (cmd_templates ! 1) (fst (all_ids ! 1)))"
    by (simp add: ready_commands_def cmd_templates_def entry_matches_def template_command_def
        command_intact_def)
  finally have found: "get_command_secure (ready_system time seed) (Some ''SET'')
      = Some (template_command (cmd_templates ! 1) (fst (all_ids ! 1)))" .
  show ?thesis
    unfolding set_checks_def Let_def found
    by (auto simp: template_command_def cmd_templates_def cmd_def_get_sec_front_def
        cmd_def_get_sec_back_def cmd_def_has_validator_def cmd_def_validate_def nonempty_arg_def)
qed

lemma client_set_stores:
  assumes "db_fits db" and "64 \<le> n" and "card (dom (storage_lookup db)) < 2 ^ 64"
    and "command_system_global_init True time seed command_system_start = Inr (True, g)"
    and "key \<noteq> []" and "fits_key key" and "CHR '' '' \<notin> set key" and "unat (hash key) < 1000"
    and "is_cstr val" and "length key + length val \<le> 1016" and "can_reach base c" and "cmd_system c \<noteq> None"
  shows "\<exists>c' es. client_set (server_net n db base) g (Some c) (Some key) (Some val) = (CLIENT_SUCCESS, Some c', es)
    \<and> es = dial base c @ [Sock_Send (socket_fd base) (''SET '' @ key @ '' '' @ val @ crlf)]
    \<and> storage_lookup (server_after n db es) = (storage_lookup db)(key \<mapsto> take 255 val)
    \<and> db_fits (server_after n db es) \<and> status c' = STATUS_CONNECTED \<and> sockfd c' = socket_fd base"
proof -
  have seed: "seed \<noteq> 0" using assms(4) by (auto simp: command_system_global_init_def)
  then have g: "g = ready_system time seed" using assms(4) by (simp add: global_init_start)
  have key: "is_cstr key" "length key \<le> 63" using assms(6) by (simp_all add: fits_key_def)
  define m where "m = ''SET '' @ key @ '' '' @ val @ crlf"
  have req: "is_cstr (''SET '' @ key @ '' '' @ val)" "length (''SET '' @ key @ '' '' @ val) \<le> 1021"
    "request_ok (parse_request (''SET '' @ key @ '' '' @ val))"
    using key assms(7-10) by (simp_all add: parse_set [simplified])
  obtain db' where h: "handle_client_connection n True db (Some m) = Inr ([Send (''OK'' @ crlf), Close], db')"
    and l: "storage_lookup db' = (storage_lookup db)(key \<mapsto> take 255 val)" and fits: "db_fits db'"
    using server_answers [OF assms(1,2) req assms(3)] assms(7)
    by (auto simp: m_def parse_set [simplified])
  have m: "m \<noteq> []" "length m \<le> 4096" "length m < 4096" "length key + length val + 32 \<le> 4096"
    using assms(10) by (simp_all add: m_def crlf_def)
  obtain c1 where c1: "connect_locked (server_net n db base) c = (CLIENT_SUCCESS, c1, dial base c)"
    "status c1 = STATUS_CONNECTED" "sockfd c1 = socket_fd base"
    using connect_reached [of "server_net n db base" c] assms(11) by auto
  obtain c3 rb where s: "client_send_command (server_net n db base) c1 m (stack_bytes base) 4096
      = (CLIENT_SUCCESS, c3, rb, [Sock_Send (socket_fd base) m])"
    "status c3 = STATUS_CONNECTED" "sockfd c3 = socket_fd base"
    using send_received [of c1 m "server_net n db base"] c1 m h by fastforce
  have checks: "set_checks g c key val = None"
    using seed assms(5,10,12) key by (simp add: g set_entry)
  have set: "client_set (server_net n db base) g (Some c) (Some key) (Some val) =
      (CLIENT_SUCCESS, Some ((count_operation CLIENT_SUCCESS c3)\<lparr>last_error := []\<rparr>),
       dial base c @ [Sock_Send (socket_fd base) m])"
    using checks c1(1) s(1) m(3,4)
    by (simp add: client_set_def on_client_def client_set_body_def Let_def m_def del: append_Cons)
  have after: "server_after n db (dial base c @ [Sock_Send (socket_fd base) m]) = db'"
    by (rule server_after_sent [OF h])
  show ?thesis
    unfolding set
    by (rule exI [of _ "(count_operation CLIENT_SUCCESS c3)\<lparr>last_error := []\<rparr>"],
        rule exI [of _ "dial base c @ [Sock_Send (socket_fd base) m]"])
      (simp only: after l fits s(2,3), simp add: count_operation_def s(2,3) m_def)
qed

lemma respond_get_line:
  assumes "db_wf db"
  shows "is_cstr (fst (respond (storage_lookup db) (Get key)))"
    and "length (fst (respond (storage_lookup db) (Get key))) \<le> 263"
  using storage_lookup_short [OF assms, of key]
  by (cases "storage_lookup db key"; simp add: crlf_def)+

lemma client_get_reads:
  assumes "db_fits db" and "64 \<le> n" and "card (dom (storage_lookup db)) < 2 ^ 64"
    and "is_cstr key" and "length key \<le> 256" and "unat (hash key) < 1000"
    and "can_reach base c" and "length buf = sz" and "0 < sz"
  shows "\<exists>c' es buf'. client_get (server_net n db base) (Some c) (Some key) (Some buf) sz
      = (CLIENT_SUCCESS, Some c', Some buf', es)
    \<and> es = dial base c @ [Sock_Send (socket_fd base) (''GET '' @ key @ crlf)]
    \<and> cstr buf' = take (sz - 1) (fst (respond (storage_lookup db) (Get key)))
    \<and> status c' = STATUS_CONNECTED \<and> sockfd c' = socket_fd base"
proof -
  define m where "m = ''GET '' @ key @ crlf"
  define reply where "reply = fst (respond (storage_lookup db) (Get key))"
  have req: "is_cstr (''GET '' @ key)" "length (''GET '' @ key) \<le> 1021"
    "request_ok (parse_request (''GET '' @ key))"
    using assms(4-6) by (simp_all add: parse_get [simplified])
  obtain db' where h: "handle_client_connection n True db (Some m) = Inr ([Send reply, Close], db')"
    using server_answers [OF assms(1,2) req assms(3)] by (auto simp: m_def reply_def parse_get [simplified])
  have m: "m \<noteq> []" "length m \<le> 4096" "snprintf 288 m = m"
    using assms(5) by (simp_all add: m_def crlf_def)
  obtain c1 rb where s: "connect_and_send (server_net n db base) c m = (CLIENT_SUCCESS, c1, Some rb,
      dial base c @ [Sock_Send (socket_fd base) m])"
    "cstr rb = cstr (take 4095 reply)" "status c1 = STATUS_CONNECTED" "sockfd c1 = socket_fd base"
    using request_line_sent [of "server_net n db base" c m] m(1,2) h assms(7) by fastforce
  have "cstr rb = reply"
    using s(2) respond_get_line [OF db_fits_wf [OF assms(1)], of key] by (simp add: reply_def)
  moreover have "client_get (server_net n db base) (Some c) (Some key) (Some buf) sz =
      (CLIENT_SUCCESS, Some c1, Some (copy_field sz buf (cstr rb)),
       dial base c @ [Sock_Send (socket_fd base) m])"
    using s(1) m(3) assms(5,9) by (simp add: client_get_def client_get_body_def m_def)
  moreover have "cstr (copy_field sz buf (cstr rb)) = take (sz - 1) (cstr rb)"
    using assms(8,9) by (intro cstr_copy_field) simp_all
  ultimately show ?thesis using s(3,4) by (simp add: m_def reply_def)
qed

text \<open>A value set through the client arrives: with the command system initialised and a server
  that serves the line, \<open>client_set\<close> succeeds and stores the value; a later \<open>client_get\<close> by a
  newly connected client succeeds and fills its buffer with the server's whole line,
  \<^verbatim>\<open>VALUE\<close>, the first 255 bytes of the value and CR LF, cut to the buffer.
\<close>

lemma client_set_get:
  assumes "db_fits db" and "64 \<le> n" and "card (dom (storage_lookup db)) < 2 ^ 64"
    and "card (insert key (dom (storage_lookup db))) < 2 ^ 64"
    and "command_system_global_init True time seed command_system_start = Inr (True, g)"
    and "key \<noteq> []" and "fits_key key" and "CHR '' '' \<notin> set key" and "unat (hash key) < 1000"
    and "is_cstr val" and "length key + length val \<le> 1016"
    and "can_reach base c" and "cmd_system c \<noteq> None" and "can_reach base2 c2"
    and "length buf = sz" and "0 < sz"
  shows "\<exists>c' es db'. client_set (server_net n db base) g (Some c) (Some key) (Some val) = (CLIENT_SUCCESS, Some c', es) \<and>
    server_after n db es = db' \<and> storage_lookup db' = (storage_lookup db)(key \<mapsto> take 255 val) \<and>
    (\<exists>c2' es2 buf'. client_get (server_net n db' base2) (Some c2) (Some key) (Some buf) sz
        = (CLIENT_SUCCESS, Some c2', Some buf', es2) \<and>
      cstr buf' = take (sz - 1) (''VALUE '' @ take 255 val @ crlf))"
proof -
  obtain c' es where set: "client_set (server_net n db base) g (Some c) (Some key) (Some val) = (CLIENT_SUCCESS, Some c', es)"
    "storage_lookup (server_after n db es) = (storage_lookup db)(key \<mapsto> take 255 val)"
    "db_fits (server_after n db es)"
    using client_set_stores [OF assms(1-3,5-13)] by blast
  have key: "is_cstr key" "length key \<le> 256" using assms(7) by (simp_all add: fits_key_def)
  have few: "card (dom (storage_lookup (server_after n db es))) < 2 ^ 64" using set(2) assms(4) by simp
  have "fst (respond (storage_lookup (server_after n db es)) (Get key)) = ''VALUE '' @ take 255 val @ crlf"
    by (simp add: set(2))
  with client_get_reads [OF set(3) assms(2) few key assms(9,14-16)] set(1,2) show ?thesis
    by (simp only: ex_simps) blast
qed

section \<open>A connection the server has closed\<close>

text \<open>C39:
  The server closes every connection after one answer, and a client keeps using its own: on
  such a connection (data can still be sent, reading gives the end of file) each operation
  reports success without any server having seen it, a GET leaving the empty string, and the
  client stays CONNECTED, so it never reconnects.
\<close>

theorem closed_connection_succeeds:
  assumes "status c = STATUS_CONNECTED" and "\<forall>m. send_result net m \<ge> 0"
    and "recv_reply net = (\<lambda>_. Some [])"
    and "command_system_global_init True time seed command_system_start = Inr (True, g)"
    and "cmd_system c \<noteq> None" and "key \<noteq> []" and "is_cstr key" and "length key \<le> 256"
    and "length key + length val \<le> 4064" and "length buf = sz" and "0 < sz"
  shows "(\<exists>c' m. client_set net g (Some c) (Some key) (Some val)
        = (CLIENT_SUCCESS, Some c', [Sock_Send (sockfd c) m]) \<and> status c' = STATUS_CONNECTED) \<and>
    (\<exists>c' buf' m. client_get net (Some c) (Some key) (Some buf) sz
        = (CLIENT_SUCCESS, Some c', Some buf', [Sock_Send (sockfd c) m]) \<and>
        cstr buf' = [] \<and> status c' = STATUS_CONNECTED)"
proof
  have seed: "seed \<noteq> 0" using assms(4) by (auto simp: command_system_global_init_def)
  then have g: "g = ready_system time seed" using assms(4) by (simp add: global_init_start)
  have io: "send_result net x \<ge> 0" "recv_reply net x = Some []" for x
    using assms(2,3) by simp_all
  have conn: "connect_locked net c = (CLIENT_SUCCESS, c, [])"
    using assms(1) by (simp add: connect_locked_def)
  define m where "m = ''SET '' @ key @ '' '' @ val @ crlf"
  have m: "m \<noteq> []" "length m \<le> 4096" "length m < 4096" "length key + length val + 32 \<le> 4096"
    using assms(9) by (simp_all add: m_def crlf_def)
  obtain c1 rb where s: "client_send_command net c m (stack_bytes net) 4096
      = (CLIENT_SUCCESS, c1, rb, [Sock_Send (sockfd c) m])" "status c1 = STATUS_CONNECTED"
    using send_received [OF assms(1) m(1,2) io] by blast
  have checks: "set_checks g c key val = None"
    using seed assms(5-9) by (simp add: g set_entry)
  have "client_set net g (Some c) (Some key) (Some val) =
      (CLIENT_SUCCESS, Some ((count_operation CLIENT_SUCCESS c1)\<lparr>last_error := []\<rparr>),
       [Sock_Send (sockfd c) m])"
    using checks conn s m(3,4)
    by (simp add: client_set_def on_client_def client_set_body_def Let_def m_def del: append_Cons)
  moreover have "status ((count_operation CLIENT_SUCCESS c1)\<lparr>last_error := []\<rparr>) = STATUS_CONNECTED"
    using s(2) by (simp add: count_operation_def)
  ultimately show "\<exists>c' m. client_set net g (Some c) (Some key) (Some val)
        = (CLIENT_SUCCESS, Some c', [Sock_Send (sockfd c) m]) \<and> status c' = STATUS_CONNECTED"
    by blast
  define m2 where "m2 = ''GET '' @ key @ crlf"
  have m2: "m2 \<noteq> []" "length m2 \<le> 4096" "snprintf 288 m2 = m2"
    using assms(8) by (simp_all add: m2_def crlf_def)
  obtain c2 rb2 where s2: "client_send_command net c m2 (stack_bytes net) 4096
      = (CLIENT_SUCCESS, c2, rb2, [Sock_Send (sockfd c) m2])" "status c2 = STATUS_CONNECTED"
    "cstr rb2 = []"
    using send_received [OF assms(1) m2(1,2) io] by (metis cstr_Nil take_Nil)
  have "client_get net (Some c) (Some key) (Some buf) sz =
      (CLIENT_SUCCESS, Some (count_operation CLIENT_SUCCESS c2), Some (copy_field sz buf []),
       [Sock_Send (sockfd c) m2])"
    using s2 m2(3) assms(8,11) conn
    by (simp add: client_get_def client_get_body_def connect_and_send_def m2_def)
  moreover have "cstr (copy_field sz buf []) = []"
    using cstr_copy_field [OF assms(10,11), of "[]"] by simp
  moreover have "status (count_operation CLIENT_SUCCESS c2) = STATUS_CONNECTED"
    using s2(2) by (simp add: count_operation_def)
  ultimately show "\<exists>c' buf' m. client_get net (Some c) (Some key) (Some buf) sz
        = (CLIENT_SUCCESS, Some c', Some buf', [Sock_Send (sockfd c) m]) \<and>
        cstr buf' = [] \<and> status c' = STATUS_CONNECTED"
    by blast
qed

section \<open>Witnesses\<close>

lemma new_client_facts:
  "can_reach loop_net new_client" "cmd_system new_client \<noteq> None"
  by (simp_all add: can_reach_def loop_net_def new_client_def client_config_default_def
      get_client_default_host_def get_client_max_retries_def)

lemma client_set_get_witness:
  "\<exists>c' es db'. client_set (server_net 64 g_storage loop_net) (ready_system 0 1) (Some new_client)
        (Some ''name'') (Some ''a b'') = (CLIENT_SUCCESS, Some c', es) \<and>
    server_after 64 g_storage es = db' \<and> storage_lookup db' = [''name'' \<mapsto> ''a b''] \<and>
    (\<exists>c2' es2 buf'. client_get (server_net 64 db' loop_net) (Some new_client) (Some ''name'')
        (Some (replicate 64 NUL)) 64 = (CLIENT_SUCCESS, Some c2', Some buf', es2) \<and>
      cstr buf' = ''VALUE '' @ ''a b'' @ crlf)"
proof -
  have "(1 :: u64) \<noteq> 0" by simp
  note init = global_init_start [OF this, of 0]
  have few: "card (dom (storage_lookup g_storage)) < 2 ^ 64"
    "card (insert ''name'' (dom (storage_lookup g_storage))) < 2 ^ 64" by simp_all
  have key: "''name'' \<noteq> []" "fits_key ''name''" "CHR '' '' \<notin> set ''name''" "unat (hash ''name'') < 1000"
    "is_cstr ''a b''" "length ''name'' + length ''a b'' \<le> 1016"
    by (simp_all add: fits_key_def hash_samples)
  have buf: "length (replicate 64 NUL) = 64" "(0 :: nat) < 64" "(64 :: nat) \<le> 64" by simp_all
  have cut: "take 255 ''a b'' = ''a b''" "take (64 - 1) (''VALUE '' @ ''a b'' @ crlf) = ''VALUE '' @ ''a b'' @ crlf"
    by (simp_all add: crlf_def)
  show ?thesis
    using client_set_get [OF db_fits_init buf(3) few init key new_client_facts(1,2,1) buf(1,2)]
    unfolding cut by simp
qed

text \<open>The network after the peer has closed its end.\<close>

definition eof_net :: net where
  "eof_net = loop_net\<lparr>recv_reply := (\<lambda>_. Some [])\<rparr>"

lemma closed_connection_succeeds_witness:
  "(\<exists>c' m. client_set eof_net (ready_system 0 1) (Some (new_client\<lparr>status := STATUS_CONNECTED, sockfd := 3\<rparr>))
        (Some ''name'') (Some ''v'') = (CLIENT_SUCCESS, Some c', [Sock_Send 3 m]) \<and> status c' = STATUS_CONNECTED) \<and>
   (\<exists>c' buf' m. client_get eof_net (Some (new_client\<lparr>status := STATUS_CONNECTED, sockfd := 3\<rparr>))
        (Some ''name'') (Some (replicate 64 NUL)) 64 = (CLIENT_SUCCESS, Some c', Some buf', [Sock_Send 3 m]) \<and>
        cstr buf' = [] \<and> status c' = STATUS_CONNECTED)"
proof -
  let ?c = "new_client\<lparr>status := STATUS_CONNECTED, sockfd := 3\<rparr>"
  have "(1 :: u64) \<noteq> 0" by simp
  note init = global_init_start [OF this, of 0]
  have hyps: "status ?c = STATUS_CONNECTED" "\<forall>m. send_result eof_net m \<ge> 0"
    "recv_reply eof_net = (\<lambda>_. Some [])" by (simp_all add: eof_net_def loop_net_def)
  have "cmd_system ?c \<noteq> None" by (simp add: new_client_def)
  moreover have "''name'' \<noteq> []" "is_cstr ''name''" "length ''name'' \<le> 256"
    "length ''name'' + length ''v'' \<le> 4064" "length (replicate 64 NUL) = 64" "(0 :: nat) < 64" by simp_all
  ultimately show ?thesis
    using closed_connection_succeeds [OF hyps init, of "''name''" "''v''" "replicate 64 NUL" 64] by simp
qed

end
