(* ===== verification/CLI_Server.thy ===== *)
theory CLI_Server
  imports Client_CLI Client_Server
begin

text \<open>
  The command-line client against the server, end to end: each run of the program is one
  process with its own command system and client, and one connection of the server.
\<close>

section \<open>One run of the program\<close>

text \<open>A system whose allocations succeed, and a network in which the default address is
  valid and a socket can be had.\<close>

definition cli_ok :: cli_env where
  "cli_ok = \<lparr>table_calloc_ok = True, client_calloc_ok = True, sys_calloc_ok = True, mutex_init_ok = True\<rparr>"

definition net_ok :: "net \<Rightarrow> bool" where
  "net_ok net \<longleftrightarrow> inet_pton6 net ''::1'' \<noteq> None \<and> 0 \<le> socket_fd net \<and> length (stack_bytes net) = 4096
     \<and> (word_of_int (time_now net) :: u64) \<noteq> 0"

definition cli_client :: "net \<Rightarrow> client_instance" where
  "cli_client net = \<lparr>config = client_config_default, status = STATUS_DISCONNECTED, sockfd = -1,
     server_addr = \<lparr>sin6_family = 0, sin6_port = 0, sin6_addr = 0\<rparr>, stats = \<lparr>operations_total = 0, operations_failed = 0, bytes_sent = 0, bytes_received = 0,
       reconnect_count = 0, connection_time_seconds = 0\<rparr>,
     last_error = [], connect_time = 0, last_activity = 0,
     cmd_system = Some (the_system (time_now net) 0)\<rparr>"

lemma cli_client_ready [simp]:
  "net_ok net \<Longrightarrow> can_reach net (cli_client net)"
  "cmd_system (cli_client net) = Some (the_system (time_now net) 0)"
  by (simp_all add: net_ok_def can_reach_def cli_client_def client_config_default_def
      get_client_default_host_def get_client_max_retries_def)

lemma server_net_time [simp]: "time_now (server_net n db base) = time_now base"
  by (simp add: server_net_def)

lemma net_ok_server [simp]: "net_ok (server_net n db base) = net_ok base"
  by (simp add: net_ok_def)

definition cli_table :: "net \<Rightarrow> command_system" where
  "cli_table net = ready_system (time_now net) (word_of_int (time_now net))"

lemma cli_table_init:
  "net_ok net \<Longrightarrow> command_system_global_init True (time_now net) (word_of_int (time_now net))
     command_system_start = Inr (True, cli_table net)"
  by (simp add: net_ok_def cli_table_def global_init_start)

text \<open>What a run prints before it executes its command.\<close>

definition startup :: "net \<Rightarrow> cli_event list" where
  "startup net = global_init_output True (time_now net) (word_of_int (time_now net)) command_system_start
     @ client_init_output True True (Some client_config_default)"

lemma cli_main_run:
  assumes "net_ok net"
  shows "cli_main net cli_ok [] (command # argv) =
    (case dispatch net (cli_table net) (cli_client net) command argv False of
       (app, c', es) \<Rightarrow> Inr (app, startup net @ es @ map sock_out (client_destroy net c')))"
proof -
  have valid: "client_config_validate (Some client_config_default) 256 = (True, [])"
    by (simp add: client_config_validate_def client_config_default_def get_client_default_host_def
        get_client_default_port_def get_client_default_timeout_def)
  have client: "client_init True True True (time_now net) (Some client_config_default) 0
      = Inr (Some (cli_client net))"
    by (simp add: client_init_def cmd_system_init_def enum_system_init_eq cli_client_def)
  show ?thesis
    using cli_table_init [OF assms] valid client
    by (simp add: cli_main_def cli_ok_def startup_def split: prod.split)
qed

lemma client_destroy_connected:
  "status c = STATUS_CONNECTED \<Longrightarrow> sockfd c = fd \<Longrightarrow> 0 \<le> fd \<Longrightarrow>
     client_destroy net (Some c) = [Sock_Close fd]"
  by (simp add: client_destroy_def client_disconnect_def on_client_def Let_def)

definition sock_events :: "cli_event list \<Rightarrow> sock_event list" where
  "sock_events es = concat (map (\<lambda>e. case e of Sock s \<Rightarrow> [s] | _ \<Rightarrow> []) es)"

text \<open>A debugging line or a socket call: what a run without verbosity does besides its answer.\<close>

fun debug_event :: "cli_event \<Rightarrow> bool" where
  "debug_event (Out s) \<longleftrightarrow> take 5 s = ''DEBUG''"
| "debug_event (Out_Command_Id name cid) \<longleftrightarrow> True"
| "debug_event (Sock e) \<longleftrightarrow> True"
| "debug_event _ \<longleftrightarrow> False"

lemma sock_events_simps [simp]:
  "sock_events [] = []"
  "sock_events (Sock s # es) = s # sock_events es"
  "sock_events (Out x # es) = sock_events es"
  "sock_events (Out_Command_Id name cid # es) = sock_events es"
  "sock_events (es @ es') = sock_events es @ sock_events es'"
  by (simp_all add: sock_events_def)

lemma server_after_Cons:
  "server_after n db (e # es) = server_after n (server_after n db [e]) es"
  by (simp add: server_after_def)

lemma server_after_printed [simp]:
  "server_after n db (sock_events (map sock_out es)) = server_after n db es"
proof (induction es arbitrary: db)
  case (Cons e es)
  have "server_after n db (sock_events [sock_out e]) = server_after n db [e]"
    by (cases e) (simp_all add: server_after_def)
  moreover have "sock_events (map sock_out (e # es)) = sock_events [sock_out e] @ sock_events (map sock_out es)"
    by (simp add: sock_events_def)
  moreover have "server_after n db (xs @ ys) = server_after n (server_after n db xs) ys" for xs ys db
    by (simp add: server_after_def)
  ultimately show ?case using Cons.IH server_after_Cons [of n db e es] by simp
qed simp

lemma startup_quiet:
  assumes "net_ok net"
  shows "list_all debug_event (startup net) \<and> sock_events (startup net) = []"
proof -
  have "list_all debug_event (init_output ts sys) \<and> sock_events (init_output ts sys) = []"
    if "\<forall>t \<in> set ts. find_name 0 CMD_NAMES (t_name t) \<noteq> None
        \<and> generated_ids sys ! the (find_name 0 CMD_NAMES (t_name t)) \<noteq> 0" for ts sys
    using that by (induction ts) (auto split: option.splits)
  moreover have "\<forall>t \<in> set cmd_templates. find_name 0 CMD_NAMES (t_name t) \<noteq> None
        \<and> generated_ids (the_system time seed) ! the (find_name 0 CMD_NAMES (t_name t)) \<noteq> 0" for time seed
    by (simp add: cmd_templates_def CMD_NAMES_def the_system_def all_ids_def)
  moreover have "(word_of_int (time_now net) :: u64) \<noteq> 0" using assms by (simp add: net_ok_def)
  ultimately show ?thesis
    by (simp add: startup_def global_init_output_def client_init_output_def enum_output_def
        enum_system_init_eq command_system_start_def)
qed

lemma dial_quiet: "list_all debug_event (map sock_out (dial net c))"
  by (simp add: dial_def socket_setup_def Let_def)

lemma server_after_close [simp]:
  "server_after n db (es @ [Sock_Close fd]) = server_after n db es"
  by (simp add: server_after_def)

section \<open>Setting and getting\<close>

lemma cli_set_run:
  assumes "db_fits db" and "64 \<le> n" and "card (dom (storage_lookup db)) < 2 ^ 64" and "net_ok base"
    and "key \<noteq> []" and "fits_key key" and "CHR '' '' \<notin> set key" and "unat (hash key) < 1000"
    and "is_cstr val" and "length key + length val \<le> 1016"
  shows "\<exists>es. cli_main (server_net n db base) cli_ok [] [''set'', key, val] = Inr (APP_SUCCESS, es)
    \<and> list_all debug_event es
    \<and> storage_lookup (server_after n db (sock_events es)) = (storage_lookup db)(key \<mapsto> take 255 val)
    \<and> db_fits (server_after n db (sock_events es))"
proof -
  let ?net = "server_net n db base"
  have net: "net_ok ?net" using assms(4) by simp
  have reach: "can_reach base (cli_client ?net)" using cli_client_ready(1) [of ?net] assms(4) by simp
  have sys: "cmd_system (cli_client ?net) \<noteq> None" by simp
  have init: "command_system_global_init True (time_now base) (word_of_int (time_now base))
      command_system_start = Inr (True, cli_table ?net)"
    using cli_table_init [of ?net] assms(4) by simp
  obtain c' es where set: "client_set ?net (cli_table ?net) (Some (cli_client ?net)) (Some key) (Some val)
      = (CLIENT_SUCCESS, Some c', es)" "status c' = STATUS_CONNECTED" "sockfd c' = socket_fd base"
    "storage_lookup (server_after n db es) = (storage_lookup db)(key \<mapsto> take 255 val)"
    "db_fits (server_after n db es)"
    "es = dial base (cli_client ?net) @ [Sock_Send (socket_fd base) (''SET '' @ key @ '' '' @ val @ crlf)]"
    using client_set_stores [OF assms(1-3) init assms(5-10) reach sys] by blast
  have len: "length key \<le> 256" "length val \<le> 1048576" using assms(6,10) by (simp_all add: fits_key_def)
  have "client_destroy ?net (Some c') = [Sock_Close (socket_fd base)]"
    using set(2,3) assms(4) by (simp add: client_destroy_connected net_ok_def)
  then have run: "cli_main ?net cli_ok [] [''set'', key, val]
      = Inr (APP_SUCCESS, startup ?net @ map sock_out (es @ [Sock_Close (socket_fd base)]))"
    using set(1) len assms(4)
    by (simp add: cli_main_run dispatch_def handle_set_command_def operation_status_def
        print_connection_info_def print_result_def)
  have "list_all debug_event (startup ?net @ map sock_out (es @ [Sock_Close (socket_fd base)]))"
    using startup_quiet [OF net] dial_quiet [of base "cli_client ?net"] set(6) by simp
  moreover have "server_after n db (sock_events (startup ?net @ map sock_out (es @ [Sock_Close (socket_fd base)])))
      = server_after n db es"
    using startup_quiet [OF net] by (simp only: sock_events_simps append_Nil server_after_printed server_after_close)
  ultimately show ?thesis using run set(4,5) by simp
qed

lemma cli_get_run:
  assumes "db_fits db" and "64 \<le> n" and "card (dom (storage_lookup db)) < 2 ^ 64" and "net_ok base"
    and "is_cstr key" and "length key \<le> 256" and "unat (hash key) < 1000"
  shows "\<exists>es. cli_main (server_net n db base) cli_ok [] [''get'', key] = Inr (APP_SUCCESS,
      es @ [Out (fst (respond (storage_lookup db) (Get key)) @ newline), Sock (Sock_Close (socket_fd base))])
    \<and> list_all debug_event es"
proof -
  let ?net = "server_net n db base" and ?line = "fst (respond (storage_lookup db) (Get key))"
  let ?buf = "take MAX_VALUE_LENGTH (stack_bytes base)"
  have net: "net_ok ?net" using assms(4) by simp
  have reach: "can_reach base (cli_client ?net)" using cli_client_ready(1) [of ?net] assms(4) by simp
  have buf: "length ?buf = MAX_VALUE_LENGTH" "0 < MAX_VALUE_LENGTH"
    using assms(4) by (simp_all add: net_ok_def MAX_VALUE_LENGTH_def)
  obtain c' es buf' where get: "client_get ?net (Some (cli_client ?net)) (Some key) (Some ?buf) MAX_VALUE_LENGTH
      = (CLIENT_SUCCESS, Some c', Some buf', es)" "cstr buf' = take (MAX_VALUE_LENGTH - 1) ?line"
    "status c' = STATUS_CONNECTED" "sockfd c' = socket_fd base"
    "es = dial base (cli_client ?net) @ [Sock_Send (socket_fd base) (''GET '' @ key @ crlf)]"
    using client_get_reads [OF assms(1-3,5-7) reach buf] by blast
  have "cstr buf' = ?line"
    using get(2) respond_get_line(2) [OF db_fits_wf [OF assms(1)], of key]
    by (simp add: MAX_VALUE_LENGTH_def)
  moreover have "client_destroy ?net (Some c') = [Sock_Close (socket_fd base)]"
    using get(3,4) assms(4) by (simp add: client_destroy_connected net_ok_def)
  ultimately have "cli_main ?net cli_ok [] [''get'', key] = Inr (APP_SUCCESS, (startup ?net @ map sock_out es) @
      [Out (?line @ newline), Sock (Sock_Close (socket_fd base))])"
    using get(1) assms(4,6)
    by (simp add: cli_main_run dispatch_def handle_get_command_def operation_status_def
        print_connection_info_def Let_def)
  moreover have "list_all debug_event (startup ?net @ map sock_out es)"
    using startup_quiet [OF net] dial_quiet [of base "cli_client ?net"] get(5) by simp
  ultimately show ?thesis by blast
qed

text \<open>C4:
  End to end, two runs of the program without options, against a server with memory for the key: \<open>set KEY VALUE\<close>
  exits with 0 and prints nothing but its debugging lines, and the server then holds the value, cut to 255 bytes;
  \<open>get KEY\<close> exits with 0 and prints, after its debugging lines, the server's whole line, \<^verbatim>\<open>VALUE\<close>, the first 255
  bytes of the value and CR LF, and a line feed. The key has 1 to 63 bytes, no space and no NUL, and does not hash
  to 1000, key and value have at most 1016 bytes together, the server's table holds only keys of at most 63 bytes
  and fewer than 2 to the 64, the allocations of the client succeed (\<open>cli_ok\<close>), and its network is as \<open>net_ok\<close>
  says: the default address is valid, a socket can be had, the clock is not 0 modulo 2 to the 64.
\<close>

theorem cli_set_get:
  assumes "db_fits db" and "64 \<le> n" and "card (dom (storage_lookup db)) < 2 ^ 64"
    and "card (insert key (dom (storage_lookup db))) < 2 ^ 64" and "net_ok base" and "net_ok base2"
    and "key \<noteq> []" and "fits_key key" and "CHR '' '' \<notin> set key" and "unat (hash key) < 1000"
    and "is_cstr val" and "length key + length val \<le> 1016"
  shows "\<exists>es db' es2. cli_main (server_net n db base) cli_ok [] [''set'', key, val] = Inr (APP_SUCCESS, es)
    \<and> list_all debug_event es
    \<and> db' = server_after n db (sock_events es) \<and> storage_lookup db' = (storage_lookup db)(key \<mapsto> take 255 val)
    \<and> cli_main (server_net n db' base2) cli_ok [] [''get'', key] = Inr (APP_SUCCESS,
        es2 @ [Out (''VALUE '' @ take 255 val @ crlf @ newline), Sock (Sock_Close (socket_fd base2))])
    \<and> list_all debug_event es2"
proof -
  obtain es where set: "cli_main (server_net n db base) cli_ok [] [''set'', key, val] = Inr (APP_SUCCESS, es)"
    "list_all debug_event es"
    "storage_lookup (server_after n db (sock_events es)) = (storage_lookup db)(key \<mapsto> take 255 val)"
    "db_fits (server_after n db (sock_events es))"
    using cli_set_run [OF assms(1-3,5,7-12)] by blast
  have key: "is_cstr key" "length key \<le> 256" using assms(8) by (simp_all add: fits_key_def)
  have few: "card (dom (storage_lookup (server_after n db (sock_events es)))) < 2 ^ 64" using set(3) assms(4) by simp
  have "fst (respond (storage_lookup (server_after n db (sock_events es))) (Get key)) = ''VALUE '' @ take 255 val @ crlf"
    by (simp add: set(3))
  with cli_get_run [OF set(4) assms(2) few assms(6) key assms(10)] set(1-3) show ?thesis
    by (simp only: append_assoc) blast
qed

section \<open>Asking whether a key exists\<close>

lemma connect_loop_refused:
  "connect_outcome net = (\<lambda>_. Connect_Error ECONNREFUSED) \<Longrightarrow> \<exists>es. connect_loop net c k todo = (None, c, es)"
proof (induction todo arbitrary: k)
  case (Suc todo)
  then obtain es where "connect_loop net c (k + 1) todo = (None, c, es)" by blast
  with Suc.prems show ?case by (simp add: Let_def)
qed simp

lemma connect_refused:
  assumes "can_reach net c" and "connect_outcome net = (\<lambda>_. Connect_Error ECONNREFUSED)"
  shows "\<exists>c' es. connect_locked net c = (CLIENT_ERROR_CONNECTION, c', es) \<and> status c' = STATUS_ERROR"
proof -
  obtain h addr where h: "host (config c) = Some h" "h \<noteq> []" "inet_pton6 net h = Some addr"
    using assms(1) by (auto simp: can_reach_def split: option.splits)
  let ?c = "c\<lparr>status := STATUS_CONNECTING, sockfd := socket_fd net,
    server_addr := server_address (config c) addr\<rparr>"
  obtain es where "connect_loop net ?c 0 (unat (max_retries (config c))) = (None, ?c, es)"
    using connect_loop_refused [OF assms(2)] by blast
  with h assms(1) show ?thesis
    by (simp add: connect_locked_def client_establish_connection_def can_reach_def connection_failed_def Let_def)
qed

text \<open>\<open>exists KEY\<close> prints \<^verbatim>\<open>true\<close> and exits with 0 for every key of at most 256 bytes, stored or
  not, once the server answers; and it exits with 0, printing \<^verbatim>\<open>false\<close>, when no server can be
  reached: neither the output nor the status says whether the key is there.
\<close>

lemma cli_exists_uninformative:
  assumes "db_fits db" and "64 \<le> n" and "card (dom (storage_lookup db)) < 2 ^ 64" and "net_ok base"
    and "is_cstr key" and "length key \<le> 256" and "unat (hash key) < 1000"
    and "net_ok down" and "connect_outcome down = (\<lambda>_. Connect_Error ECONNREFUSED)"
  shows "(\<exists>es. cli_main (server_net n db base) cli_ok [] [''exists'', key] = Inr (APP_SUCCESS,
      startup (server_net n db base) @ map sock_out es @ [Out (''true'' @ newline), Sock (Sock_Close (socket_fd base))])) \<and>
    (\<exists>es. cli_main down cli_ok [] [''exists'', key] = Inr (APP_SUCCESS,
      startup down @ map sock_out es @ [Out (''false'' @ newline)]))"
proof
  let ?net = "server_net n db base"
  have reach: "can_reach base (cli_client ?net)" using cli_client_ready(1) [of ?net] assms(4) by simp
  obtain c' es where ex: "client_exists ?net (Some (cli_client ?net)) (Some key) = (CLIENT_SUCCESS, Some c', es)"
    "status c' = STATUS_CONNECTED" "sockfd c' = socket_fd base"
    using client_exists_asks [OF assms(1-3,5-7) reach] by blast
  have "client_destroy ?net (Some c') = [Sock_Close (socket_fd base)]"
    using ex(2,3) assms(4) by (simp add: client_destroy_connected net_ok_def)
  then show "\<exists>es. cli_main ?net cli_ok [] [''exists'', key] = Inr (APP_SUCCESS,
      startup ?net @ map sock_out es @ [Out (''true'' @ newline), Sock (Sock_Close (socket_fd base))])"
    using ex(1) assms(4,6)
    by (auto simp: cli_main_run dispatch_def handle_exists_command_def print_connection_info_def
        intro: exI [of _ es])
  have "can_reach down (cli_client down)" using assms(8) by simp
  from connect_refused [OF this assms(9)]
  obtain c2 es2 where "connect_locked down (cli_client down) = (CLIENT_ERROR_CONNECTION, c2, es2)"
    "status c2 = STATUS_ERROR" by blast
  then have "client_exists down (Some (cli_client down)) (Some key) = (CLIENT_ERROR_CONNECTION, Some c2, es2)"
    "client_destroy down (Some c2) = []"
    using assms(6)
    by (simp_all add: client_exists_def on_client_def keyed_line_def send_line_def connect_and_send_def
        client_destroy_def)
  then show "\<exists>es. cli_main down cli_ok [] [''exists'', key] = Inr (APP_SUCCESS,
      startup down @ map sock_out es @ [Out (''false'' @ newline)])"
    using assms(6,8)
    by (auto simp: cli_main_run dispatch_def handle_exists_command_def print_connection_info_def
        intro: exI [of _ es2])
qed

section \<open>Witnesses\<close>

text \<open>A peer that refuses connections.\<close>

definition refusing_net :: net where
  "refusing_net = loop_net\<lparr>connect_outcome := (\<lambda>_. Connect_Error ECONNREFUSED)\<rparr>"

lemma witness_nets: "net_ok loop_net" "net_ok refusing_net"
  "connect_outcome refusing_net = (\<lambda>_. Connect_Error ECONNREFUSED)"
  by (simp_all add: net_ok_def loop_net_def refusing_net_def)

lemma cli_set_get_witness:
  "\<exists>es db' es2. cli_main (server_net 64 g_storage loop_net) cli_ok [] [''set'', ''name'', ''a b'']
        = Inr (APP_SUCCESS, es) \<and> list_all debug_event es
    \<and> storage_lookup db' = [''name'' \<mapsto> ''a b'']
    \<and> cli_main (server_net 64 db' loop_net) cli_ok [] [''get'', ''name''] = Inr (APP_SUCCESS,
        es2 @ [Out (''VALUE a b'' @ crlf @ newline), Sock (Sock_Close 3)])"
proof -
  have few: "card (dom (storage_lookup g_storage)) < 2 ^ 64"
    "card (insert ''name'' (dom (storage_lookup g_storage))) < 2 ^ 64" by simp_all
  have key: "''name'' \<noteq> []" "fits_key ''name''" "CHR '' '' \<notin> set ''name''" "unat (hash ''name'') < 1000"
    "is_cstr ''a b''" "length ''name'' + length ''a b'' \<le> 1016"
    by (simp_all add: fits_key_def hash_samples)
  have fd: "socket_fd loop_net = 3" "take 255 ''a b'' = ''a b''" by (simp_all add: loop_net_def)
  show ?thesis
    using cli_set_get [OF db_fits_init order_refl few witness_nets(1) witness_nets(1) key]
    unfolding fd storage_lookup_init by (auto simp del: map_eq_Cons_conv)
qed

lemma cli_exists_uninformative_witness:
  "(\<exists>es. cli_main (server_net 64 g_storage loop_net) cli_ok [] [''exists'', ''name''] = Inr (APP_SUCCESS,
      startup (server_net 64 g_storage loop_net) @ map sock_out es @ [Out (''true'' @ newline), Sock (Sock_Close 3)])) \<and>
   (\<exists>es. cli_main refusing_net cli_ok [] [''exists'', ''name''] = Inr (APP_SUCCESS,
      startup refusing_net @ map sock_out es @ [Out (''false'' @ newline)]))"
proof -
  have few: "card (dom (storage_lookup g_storage)) < 2 ^ 64" by simp
  have key: "is_cstr ''name''" "length ''name'' \<le> 256" "unat (hash ''name'') < 1000"
    by (simp_all add: hash_samples)
  have fd: "socket_fd loop_net = 3" by (simp add: loop_net_def)
  show ?thesis
    using cli_exists_uninformative [OF db_fits_init order_refl few witness_nets(1) key witness_nets(2,3)]
    unfolding fd .
qed

end
