(* ===== verification/Hash_Stack.thy ===== *)
theory Hash_Stack
  imports Prelude
begin

text \<open>
  The lock-free stack of \<^verbatim>\<open>third-party/ephemeral_hash_cas\<close> (\<^verbatim>\<open>core.c\<close>, \<^verbatim>\<open>include/core.h\<close>): a head
  word that holds a 48-bit pointer and a 16-bit tag drawn from a shared xorshift generator,
  changed by compare-and-swap only.

  \<^item> A node is its address; \<open>hs_next\<close> is the \<^verbatim>\<open>next\<close> field of every address. The \<^verbatim>\<open>data\<close> field,
    which the stack does not touch, is left out.
  \<^item> A thread runs one operation; \<open>thread_step\<close> is one access to shared memory, and a schedule
    interleaves the threads at that grain under sequential consistency, the order the
    source's atomics ask for. As in the \<open>ehash_stack_pop\<close> of \<^verbatim>\<open>core.c\<close>, \<^verbatim>\<open>node->next\<close> is
    read before the tag is drawn; in the header the two are arguments of one call.
\<close>

section \<open>Tagged pointers\<close>

record EHashPtr =
  eh_ptr :: u64
  eh_hash :: u16

abbreviation (input) PTR_MASK :: u64 where "PTR_MASK \<equiv> 0xFFFFFFFFFFFF"

text \<open>\<open>None\<close> is the failed assertion.\<close>

definition make_ehash_ptr :: "u64 \<Rightarrow> u16 \<Rightarrow> EHashPtr option" where
  "make_ehash_ptr ptr h =
     (if ptr AND 0xFFFF000000000000 = 0 then Some \<lparr>eh_ptr = ptr, eh_hash = h\<rparr> else None)"

definition ehash_full_equal :: "EHashPtr \<Rightarrow> EHashPtr \<Rightarrow> bool" where
  "ehash_full_equal a b = (eh_ptr a = eh_ptr b \<and> eh_hash a = eh_hash b)"

definition ehash_to_uint64 :: "EHashPtr \<Rightarrow> u64" where
  "ehash_to_uint64 p = push_bit 48 (ucast (eh_hash p)) OR (eh_ptr p AND PTR_MASK)"

definition ehash_from_uint64 :: "u64 \<Rightarrow> EHashPtr" where
  "ehash_from_uint64 v = \<lparr>eh_ptr = v AND PTR_MASK, eh_hash = ucast (drop_bit 48 v AND 0xFFFF)\<rparr>"

section \<open>The tag generator\<close>

definition xorshift :: "u64 \<Rightarrow> u64" where
  "xorshift s =
     (let s = s XOR drop_bit 12 s;
          s = s XOR push_bit 25 s
      in s XOR drop_bit 27 s)"

definition tag_of :: "u64 \<Rightarrow> u16" where
  "tag_of s = ucast (drop_bit 48 (s * 0x2545F4914F6CDD1D))"

section \<open>The stack\<close>

record stack_mem =
  hs_head :: u64
  hs_gen :: u64
  hs_next :: "u64 \<Rightarrow> u64"

definition ehash_stack_init :: "u64 \<Rightarrow> (u64 \<Rightarrow> u64) \<Rightarrow> stack_mem" where
  "ehash_stack_init seed nx = \<lparr>hs_head = 0, hs_gen = seed, hs_next = nx\<rparr>"

datatype stack_op = Push u64 | Pop

text \<open>
  Where a thread is: about to load the head, to link or read \<^verbatim>\<open>next\<close>, to load the generator,
  to swap it, to swap the head (with the pointer and tag to install), or finished.
\<close>

datatype stack_pc =
    Load_Head stack_op
  | Access_Next stack_op EHashPtr
  | Load_Gen stack_op EHashPtr u64
  | Swap_Gen stack_op EHashPtr u64 u64
  | Swap_Head stack_op EHashPtr u64 u16
  | Finished stack_op u64
  | Assert_Failed stack_op

fun thread_step :: "stack_pc \<Rightarrow> stack_mem \<Rightarrow> stack_pc \<times> stack_mem" where
  "thread_step (Load_Head oper) m =
     (let old_head = ehash_from_uint64 (hs_head m)
      in if oper = Pop \<and> eh_ptr old_head = 0 then (Finished oper 0, m) else (Access_Next oper old_head, m))"
| "thread_step (Access_Next (Push node) old_head) m =
     (Load_Gen (Push node) old_head node, m\<lparr>hs_next := (hs_next m)(node := eh_ptr old_head)\<rparr>)"
| "thread_step (Access_Next Pop old_head) m = (Load_Gen Pop old_head (hs_next m (eh_ptr old_head)), m)"
| "thread_step (Load_Gen oper old_head p) m = (Swap_Gen oper old_head p (hs_gen m), m)"
| "thread_step (Swap_Gen oper old_head p old_state) m =
     (if hs_gen m = old_state
      then (Swap_Head oper old_head p (tag_of (xorshift old_state)), m\<lparr>hs_gen := xorshift old_state\<rparr>)
      else (Swap_Gen oper old_head p (hs_gen m), m))"
| "thread_step (Swap_Head oper old_head p h) m =
     (case make_ehash_ptr p h of
        None \<Rightarrow> (Assert_Failed oper, m)
      | Some new_head \<Rightarrow>
          if hs_head m = ehash_to_uint64 old_head
          then (Finished oper (case oper of Push node \<Rightarrow> node | Pop \<Rightarrow> eh_ptr old_head),
                m\<lparr>hs_head := ehash_to_uint64 new_head\<rparr>)
          else (Load_Head oper, m))"
| "thread_step pc m = (pc, m)"

text \<open>One step of thread \<open>i\<close>, and a whole schedule.\<close>

definition sched_step :: "nat \<Rightarrow> stack_pc list \<times> stack_mem \<Rightarrow> stack_pc list \<times> stack_mem" where
  "sched_step i c =
     (case c of (ts, m) \<Rightarrow>
        if i < length ts then (case thread_step (ts ! i) m of (t, m') \<Rightarrow> (ts[i := t], m')) else (ts, m))"

definition sched_run :: "nat list \<Rightarrow> stack_pc list \<times> stack_mem \<Rightarrow> stack_pc list \<times> stack_mem" where
  "sched_run is c = fold sched_step is c"

section \<open>Tagged pointers as words\<close>

lemma mask_top: "p AND 0xFFFF000000000000 = 0 \<longleftrightarrow> p AND PTR_MASK = (p :: u64)"
proof -
  have split: "p = (p AND PTR_MASK) OR (p AND 0xFFFF000000000000)" for p :: u64
  proof -
    have "(PTR_MASK OR 0xFFFF000000000000 :: u64) = - 1" by simp
    then have "p AND (PTR_MASK OR 0xFFFF000000000000) = p AND - 1" by (rule arg_cong)
    then show ?thesis by (simp only: bit.conj_disj_distrib bit.conj_one_right)
  qed
  show ?thesis
  proof
    assume "p AND 0xFFFF000000000000 = 0"
    then show "p AND PTR_MASK = p" using split [of p] by simp
  next
    assume "p AND PTR_MASK = p"
    then have "p AND 0xFFFF000000000000 = (p AND PTR_MASK) AND 0xFFFF000000000000" by (simp only:)
    also have "\<dots> = p AND (PTR_MASK AND 0xFFFF000000000000)" by (rule and.assoc)
    also have "(PTR_MASK AND 0xFFFF000000000000 :: u64) = 0" by simp
    finally show "p AND 0xFFFF000000000000 = 0" by simp
  qed
qed

lemma masks: "PTR_MASK = mask 48" "(0xFFFF :: u64) = mask 16"
  by (simp_all add: mask_eq_exp_minus_1)

lemma make_ehash_fits: "make_ehash_ptr a h = Some p \<Longrightarrow> p = \<lparr>eh_ptr = a, eh_hash = h\<rparr> \<and> a AND PTR_MASK = a"
  by (auto simp: make_ehash_ptr_def mask_top split: if_splits)

lemma to_uint64_ptr: "ehash_to_uint64 p AND PTR_MASK = eh_ptr p AND PTR_MASK"
  unfolding ehash_to_uint64_def masks by (rule bit_word_eqI) (auto simp: bit_simps)

lemma to_uint64_hash: "ucast (drop_bit 48 (ehash_to_uint64 p) AND 0xFFFF) = eh_hash p"
  unfolding ehash_to_uint64_def masks by (rule bit_word_eqI) (auto simp: bit_simps)

lemma to_from_uint64 [simp]: "ehash_to_uint64 (ehash_from_uint64 v) = v"
  unfolding ehash_to_uint64_def ehash_from_uint64_def masks
  by (rule bit_word_eqI) (auto simp: bit_simps)

lemma from_to_uint64: "eh_ptr p AND PTR_MASK = eh_ptr p \<Longrightarrow> ehash_from_uint64 (ehash_to_uint64 p) = p"
  by (simp add: ehash_from_uint64_def to_uint64_ptr to_uint64_hash)

text \<open>The two encodings are inverse to each other on pointers that pass the assertion of
  \<open>make_ehash_ptr\<close>, so comparing head words compares pointer and tag.
\<close>

lemma ehash_roundtrip:
  assumes "make_ehash_ptr a h = Some p" and "make_ehash_ptr b k = Some q"
  shows "ehash_from_uint64 (ehash_to_uint64 p) = p \<and> ehash_to_uint64 (ehash_from_uint64 v) = v
    \<and> (ehash_to_uint64 p = ehash_to_uint64 q \<longleftrightarrow> ehash_full_equal p q)"
proof -
  have p: "ehash_from_uint64 (ehash_to_uint64 p) = p" and q: "ehash_from_uint64 (ehash_to_uint64 q) = q"
    using make_ehash_fits [OF assms(1)] make_ehash_fits [OF assms(2)] by (auto intro: from_to_uint64)
  have "ehash_to_uint64 p = ehash_to_uint64 q \<longleftrightarrow> p = q" using p q by metis
  then show ?thesis using p by (auto simp: ehash_full_equal_def)
qed

end
