(* ===== verification/Hash_Stack_Correct.thy ===== *)
theory Hash_Stack_Correct
  imports Hash_Stack
begin

text \<open>
  What the lock-free stack of \<open>Hash_Stack\<close> guarantees under every schedule, and where its tags
  do not protect it. The specification is a list with its top first.
\<close>

section \<open>The specification\<close>

text \<open>The history of a schedule: the operations in the order in which they take effect, with results.\<close>

fun finish_event :: "stack_pc \<Rightarrow> stack_pc \<Rightarrow> (stack_op \<times> u64) list" where
  "finish_event (Finished _ _) _ = []"
| "finish_event (Assert_Failed _) _ = []"
| "finish_event _ (Finished oper r) = [(oper, r)]"
| "finish_event _ _ = []"

fun stack_history :: "nat list \<Rightarrow> stack_pc list \<times> stack_mem \<Rightarrow> (stack_op \<times> u64) list" where
  "stack_history [] c = []"
| "stack_history (i # is) c =
     (if i < length (fst c) then finish_event (fst c ! i) (fst (sched_step i c) ! i) else [])
       @ stack_history is (sched_step i c)"

text \<open>What a sequential stack answers; \<open>None\<close> when a result is not the one it would give.\<close>

fun stack_replay :: "(stack_op \<times> u64) list \<Rightarrow> u64 list \<Rightarrow> u64 list option" where
  "stack_replay [] ys = Some ys"
| "stack_replay ((Push n, _) # es) ys = stack_replay es (n # ys)"
| "stack_replay ((Pop, r) # es) [] = (if r = 0 then stack_replay es [] else None)"
| "stack_replay ((Pop, r) # es) (y # ys) = (if r = y then stack_replay es ys else None)"

text \<open>The nodes linked from an address, and the pointer in the head word.\<close>

fun stack_chain :: "(u64 \<Rightarrow> u64) \<Rightarrow> u64 \<Rightarrow> u64 list \<Rightarrow> bool" where
  "stack_chain nx a [] = (a = 0)"
| "stack_chain nx a (y # ys) = (a = y \<and> y \<noteq> 0 \<and> stack_chain nx (nx y) ys)"

definition head_ptr :: "stack_mem \<Rightarrow> u64" where
  "head_ptr m = eh_ptr (ehash_from_uint64 (hs_head m))"

fun pushed_nodes :: "stack_op list \<Rightarrow> u64 list" where
  "pushed_nodes [] = []"
| "pushed_nodes (Push n # ops) = n # pushed_nodes ops"
| "pushed_nodes (Pop # ops) = pushed_nodes ops"

lemma replay_append:
  "stack_replay es ys = Some zs \<Longrightarrow> stack_replay (es @ fs) ys = stack_replay fs zs"
  by (induction es ys rule: stack_replay.induct) (auto split: if_splits)

lemma pushed_mem: "n \<in> set (pushed_nodes ops) \<longleftrightarrow> (\<exists>i<length ops. ops ! i = Push n)"
proof (induction ops rule: pushed_nodes.induct)
  case (2 k ops)
  have "(\<exists>i<Suc (length ops). (Push k # ops) ! i = Push n) \<longleftrightarrow> k = n \<or> (\<exists>i<length ops. ops ! i = Push n)"
    by (auto simp: less_Suc_eq_0_disj)
  then show ?case using 2 by auto
next
  case (3 ops)
  have "(\<exists>i<Suc (length ops). (Pop # ops) ! i = Push n) \<longleftrightarrow> (\<exists>i<length ops. ops ! i = Push n)"
    by (auto simp: less_Suc_eq_0_disj)
  then show ?case using 3 by auto
qed simp

lemma pushed_distinct:
  "distinct (pushed_nodes ops) \<Longrightarrow> i < length ops \<Longrightarrow> j < length ops \<Longrightarrow> ops ! i = Push n \<Longrightarrow> ops ! j = Push n
    \<Longrightarrow> i = j"
proof (induction ops arbitrary: i j rule: pushed_nodes.induct)
  case (2 k ops)
  then show ?case by (cases i; cases j) (auto simp: pushed_mem)
next
  case (3 ops)
  then show ?case by (cases i; cases j) auto
qed simp

section \<open>The invariant\<close>

fun pending :: "stack_pc \<Rightarrow> u64 option" where
  "pending (Load_Head (Push n)) = Some n"
| "pending (Access_Next (Push n) _) = Some n"
| "pending (Load_Gen (Push n) _ _) = Some n"
| "pending (Swap_Gen (Push n) _ _ _) = Some n"
| "pending (Swap_Head (Push n) _ _ _) = Some n"
| "pending _ = None"

text \<open>
  \<open>P\<close> holds the nodes published so far. A push has linked its node to the head it loaded; a pop
  holds a published node and that node's successor, which never changes again.
\<close>

fun linked :: "(u64 \<Rightarrow> u64) \<Rightarrow> u64 set \<Rightarrow> stack_op \<Rightarrow> EHashPtr \<Rightarrow> u64 \<Rightarrow> bool" where
  "linked nx P (Push n) old p = (p = n \<and> nx n = eh_ptr old \<and> eh_ptr old \<in> insert 0 P)"
| "linked nx P Pop old p = (p = nx (eh_ptr old) \<and> eh_ptr old \<in> P)"

fun pc_ok :: "(u64 \<Rightarrow> u64) \<Rightarrow> u64 set \<Rightarrow> stack_pc \<Rightarrow> bool" where
  "pc_ok nx P (Load_Head _) = True"
| "pc_ok nx P (Access_Next (Push n) old) = (eh_ptr old \<in> insert 0 P)"
| "pc_ok nx P (Access_Next Pop old) = (eh_ptr old \<in> P)"
| "pc_ok nx P (Load_Gen oper old p) = linked nx P oper old p"
| "pc_ok nx P (Swap_Gen oper old p _) = linked nx P oper old p"
| "pc_ok nx P (Swap_Head oper old p _) = linked nx P oper old p"
| "pc_ok nx P (Finished _ _) = True"
| "pc_ok nx P (Assert_Failed _) = False"

definition fits48 :: "u64 \<Rightarrow> bool" where
  "fits48 a = (a AND 0xFFFF000000000000 = 0)"

definition heap_ok :: "stack_mem \<Rightarrow> u64 set \<Rightarrow> u64 list \<Rightarrow> bool" where
  "heap_ok m P ys = (stack_chain (hs_next m) (head_ptr m) ys \<and> set ys \<subseteq> P \<and> 0 \<notin> P
     \<and> (\<forall>a\<in>P. fits48 a \<and> hs_next m a \<in> insert 0 P))"

definition fresh :: "u64 set \<Rightarrow> stack_pc \<Rightarrow> bool" where
  "fresh P t = (\<forall>n. pending t = Some n \<longrightarrow> n \<notin> P \<and> n \<noteq> 0 \<and> fits48 n)"

definition config_ok :: "stack_pc list \<times> stack_mem \<Rightarrow> u64 set \<Rightarrow> u64 list \<Rightarrow> bool" where
  "config_ok c P ys = (heap_ok (snd c) P ys
     \<and> (\<forall>i<length (fst c). pc_ok (hs_next (snd c)) P (fst c ! i) \<and> fresh P (fst c ! i))
     \<and> (\<forall>i<length (fst c). \<forall>j<length (fst c). i \<noteq> j \<longrightarrow> pending (fst c ! i) \<noteq> None
           \<longrightarrow> pending (fst c ! i) \<noteq> pending (fst c ! j)))"

section \<open>One step of one thread\<close>

lemma chain_frame: "(\<And>y. y \<in> set ys \<Longrightarrow> nx' y = nx y) \<Longrightarrow> stack_chain nx' a ys = stack_chain nx a ys"
  by (induction ys arbitrary: a) auto

lemma chain_head: "stack_chain nx a ys \<Longrightarrow> a \<in> insert 0 (set ys)"
  by (cases ys) auto

lemma pc_ok_frame:
  assumes "pc_ok nx P t" and "P \<subseteq> P'" and "\<And>a. a \<in> P \<Longrightarrow> nx' a = nx a"
    and "\<And>n. pending t = Some n \<Longrightarrow> nx' n = nx n"
  shows "pc_ok nx' P' t"
proof (cases t)
  case (Access_Next oper old)
  then show ?thesis using assms by (cases oper) auto
next
  case (Load_Gen oper old p)
  then show ?thesis using assms by (cases oper) auto
next
  case (Swap_Gen oper old p s)
  then show ?thesis using assms by (cases oper) auto
next
  case (Swap_Head oper old p h)
  then show ?thesis using assms by (cases oper) auto
qed (use assms(1) in auto)

text \<open>
  A step either leaves the stack and the published nodes alone, changing at most the link of the
  thread's own unpublished node, or takes effect as the operation it finishes with.
\<close>

definition step_ok ::
    "stack_pc \<Rightarrow> stack_mem \<Rightarrow> u64 set \<Rightarrow> u64 list \<Rightarrow> stack_pc \<Rightarrow> stack_mem \<Rightarrow> u64 set \<Rightarrow> u64 list \<Rightarrow> bool" where
  "step_ok t m P ys t' m' P' ys' = (heap_ok m' P' ys' \<and> pc_ok (hs_next m') P' t'
     \<and> stack_replay (finish_event t t') ys = Some ys'
     \<and> (\<forall>n. pending t \<noteq> Some n \<longrightarrow> hs_next m' n = hs_next m n)
     \<and> (pending t' = pending t \<and> P' = P \<or> pending t' = None \<and> P' = P \<union> set_option (pending t)))"

lemmas fits_mask = mask_top [folded fits48_def]

lemma heap_same: "heap_ok m P ys \<Longrightarrow> hs_head m' = hs_head m \<Longrightarrow> hs_next m' = hs_next m \<Longrightarrow> heap_ok m' P ys"
  by (simp add: heap_ok_def head_ptr_def)

lemma fits_zero [simp]: "fits48 0"
  by (simp add: fits48_def)

lemma published_fits: "heap_ok m P ys \<Longrightarrow> a \<in> insert 0 P \<Longrightarrow> fits48 a"
  by (auto simp: heap_ok_def)

lemma published_next: "heap_ok m P ys \<Longrightarrow> a \<in> P \<Longrightarrow> hs_next m a \<in> insert 0 P"
  by (auto simp: heap_ok_def)

lemma linked_fits:
  "linked (hs_next m) P oper old p \<Longrightarrow> heap_ok m P ys \<Longrightarrow> fresh P (Swap_Head oper old p h)
    \<Longrightarrow> fits48 p \<and> fits48 (eh_ptr old)"
  using published_fits [of m P ys "eh_ptr old"] published_fits [of m P ys "hs_next m (eh_ptr old)"]
    published_next [of m P ys "eh_ptr old"]
  by (cases oper) (auto simp: fresh_def)

lemma head_matches:
  assumes "fits48 (eh_ptr old)" and "hs_head m = ehash_to_uint64 old"
  shows "head_ptr m = eh_ptr old"
  using assms by (simp add: head_ptr_def from_to_uint64 fits_mask)

lemma new_head_ptr: "fits48 p \<Longrightarrow> head_ptr (m\<lparr>hs_head := ehash_to_uint64 \<lparr>eh_ptr = p, eh_hash = h\<rparr>\<rparr>) = p"
  by (simp add: head_ptr_def from_to_uint64 fits_mask)

lemma make_fits: "fits48 p \<Longrightarrow> make_ehash_ptr p h = Some \<lparr>eh_ptr = p, eh_hash = h\<rparr>"
  by (simp add: make_ehash_ptr_def fits48_def)


lemma step_load:
  assumes "heap_ok m P ys" and "thread_step (Load_Head oper) m = (t', m')"
  shows "step_ok (Load_Head oper) m P ys t' m' P ys"
proof (cases "oper = Pop \<and> head_ptr m = 0")
  case True
  then have "ys = []" using assms(1) by (cases ys) (auto simp: heap_ok_def)
  then show ?thesis using True assms by (auto simp: step_ok_def head_ptr_def Let_def)
next
  case False
  have "head_ptr m \<in> insert 0 P" using assms(1) chain_head [of "hs_next m" "head_ptr m" ys]
    by (auto simp: heap_ok_def)
  then show ?thesis using False assms by (cases oper) (auto simp: step_ok_def head_ptr_def Let_def)
qed

lemma step_access:
  assumes ok: "heap_ok m P ys" and "pc_ok (hs_next m) P (Access_Next oper old)"
    and "fresh P (Access_Next oper old)" and step: "thread_step (Access_Next oper old) m = (t', m')"
  shows "step_ok (Access_Next oper old) m P ys t' m' P ys"
proof (cases oper)
  case (Push n)
  have out: "n \<notin> P" using assms(3) Push by (simp add: fresh_def)
  have m': "t' = Load_Gen (Push n) old n" "m' = m\<lparr>hs_next := (hs_next m)(n := eh_ptr old)\<rparr>"
    using step Push by auto
  have frame: "hs_next m' a = hs_next m a" if "a \<in> P" for a using that out m'(2) by auto
  have "set ys \<subseteq> P" using ok by (simp add: heap_ok_def)
  then have "stack_chain (hs_next m') (head_ptr m) ys = stack_chain (hs_next m) (head_ptr m) ys"
    by (intro chain_frame frame) auto
  moreover have "head_ptr m' = head_ptr m" using m'(2) by (simp add: head_ptr_def)
  ultimately have "heap_ok m' P ys" using ok frame by (simp add: heap_ok_def)
  then show ?thesis using m' Push assms(2) by (auto simp: step_ok_def)
next
  case Pop
  then show ?thesis using assms by (auto simp: step_ok_def)
qed

lemma step_gen:
  assumes ok: "heap_ok m P ys" and pc: "pc_ok (hs_next m) P (Load_Gen oper old p)"
    and step: "thread_step (Load_Gen oper old p) m = (t', m')"
  shows "step_ok (Load_Gen oper old p) m P ys t' m' P ys"
  using assms by (cases oper) (auto simp: step_ok_def)

lemma step_swap_gen:
  assumes ok: "heap_ok m P ys" and pc: "pc_ok (hs_next m) P (Swap_Gen oper old p s)"
    and step: "thread_step (Swap_Gen oper old p s) m = (t', m')"
  shows "step_ok (Swap_Gen oper old p s) m P ys t' m' P ys"
proof -
  have same: "hs_head m' = hs_head m" "hs_next m' = hs_next m"
    and t': "t' = Swap_Gen oper old p (hs_gen m) \<or> t' = Swap_Head oper old p (tag_of (xorshift s))"
    using step by (simp_all split: if_splits) auto
  have "heap_ok m' P ys" using ok same by (rule heap_same)
  then show ?thesis using pc same(2) t' by (cases oper) (auto simp: step_ok_def simp del: thread_step.simps)
qed

lemma swap_push:
  assumes ok: "heap_ok m P ys" and link: "linked (hs_next m) P (Push n) old n"
    and new: "n \<notin> P" "n \<noteq> 0" "fits48 n" and head: "head_ptr m = eh_ptr old"
    and m': "head_ptr m' = n" "hs_next m' = hs_next m"
  shows "heap_ok m' (insert n P) (n # ys)"
  using assms by (auto simp: heap_ok_def)

lemma swap_pop:
  assumes ok: "heap_ok m P ys" and link: "linked (hs_next m) P Pop old p" and head: "head_ptr m = eh_ptr old"
    and m': "head_ptr m' = p" "hs_next m' = hs_next m"
  shows "\<exists>zs. ys = eh_ptr old # zs \<and> heap_ok m' P zs"
proof (cases ys)
  case Nil
  then show ?thesis using ok link head by (auto simp: heap_ok_def)
next
  case (Cons y zs)
  then show ?thesis using assms by (auto simp: heap_ok_def)
qed

lemma step_head:
  assumes ok: "heap_ok m P ys" and link: "linked (hs_next m) P oper old p"
    and new: "fresh P (Swap_Head oper old p h)" and step: "thread_step (Swap_Head oper old p h) m = (t', m')"
  shows "\<exists>P' ys'. step_ok (Swap_Head oper old p h) m P ys t' m' P' ys'"
proof -
  have fits: "fits48 p" "fits48 (eh_ptr old)" using linked_fits [OF link ok new] by auto
  show ?thesis
  proof (cases "hs_head m = ehash_to_uint64 old")
    case False
    then have "t' = Load_Head oper \<and> m' = m" using step by (simp add: make_fits [OF fits(1)])
    then have "step_ok (Swap_Head oper old p h) m P ys t' m' P ys" using ok by (cases oper) (auto simp: step_ok_def)
    then show ?thesis by blast
  next
    case True
    have head: "head_ptr m = eh_ptr old" using True fits(2) by (rule head_matches [rotated])
    have res: "t' = Finished oper (case oper of Push node \<Rightarrow> node | Pop \<Rightarrow> eh_ptr old)"
      "m' = m\<lparr>hs_head := ehash_to_uint64 \<lparr>eh_ptr = p, eh_hash = h\<rparr>\<rparr>"
      using step True by (auto simp: make_fits [OF fits(1)])
    have m': "head_ptr m' = p" "hs_next m' = hs_next m" using res(2) by (auto simp: new_head_ptr [OF fits(1)])
    show ?thesis
    proof (cases oper)
      case (Push n)
      then have "heap_ok m' (insert n P) (n # ys)" using swap_push [OF ok _ _ _ _ head _ m'(2)] link new m'(1)
        by (simp add: fresh_def)
      then have "step_ok (Swap_Head oper old p h) m P ys t' m' (insert n P) (n # ys)"
        using Push res m' by (simp add: step_ok_def)
      then show ?thesis by blast
    next
      case Pop
      then obtain zs where "ys = eh_ptr old # zs" "heap_ok m' P zs" using swap_pop [OF ok _ head m'] link by auto
      then have "step_ok (Swap_Head oper old p h) m P ys t' m' P zs" using Pop res m' by (simp add: step_ok_def)
      then show ?thesis by blast
    qed
  qed
qed

lemma thread_step_ok:
  assumes ok: "heap_ok m P ys" and pc: "pc_ok (hs_next m) P t" and new: "fresh P t"
    and step: "thread_step t m = (t', m')"
  shows "\<exists>P' ys'. step_ok t m P ys t' m' P' ys'"
proof (cases t)
  case (Load_Head oper)
  then show ?thesis using step_load [OF ok] step by blast
next
  case (Access_Next oper old)
  then show ?thesis using step_access [OF ok] pc new step by blast
next
  case (Load_Gen oper old p)
  then show ?thesis using step_gen [OF ok] pc step by blast
next
  case (Swap_Gen oper old p s)
  then show ?thesis using step_swap_gen [OF ok] pc step by blast
next
  case (Swap_Head oper old p h)
  then show ?thesis using step_head [OF ok] pc new step by simp
next
  case (Finished oper r)
  then have "t' = Finished oper r" "m' = m" using step by auto
  then have "step_ok t m P ys t' m' P ys" using ok Finished by (simp add: step_ok_def)
  then show ?thesis by blast
qed (use pc in simp)

section \<open>One step of a schedule\<close>

lemma sched_step_ok:
  assumes ok: "config_ok c P ys" and i: "i < length (fst c)"
  shows "\<exists>P' ys'. config_ok (sched_step i c) P' ys'
    \<and> stack_replay (finish_event (fst c ! i) (fst (sched_step i c) ! i)) ys = Some ys'"
proof -
  obtain ts m where c: "c = (ts, m)" by fastforce
  obtain t' m' where step: "thread_step (ts ! i) m = (t', m')" by fastforce
  have c': "sched_step i c = (ts[i := t'], m')" using c i step by (simp add: sched_step_def)
  have heap: "heap_ok m P ys" and pcs: "\<And>j. j < length ts \<Longrightarrow> pc_ok (hs_next m) P (ts ! j)"
    and news: "\<And>j. j < length ts \<Longrightarrow> fresh P (ts ! j)"
    and apart: "\<And>j k. j < length ts \<Longrightarrow> k < length ts \<Longrightarrow> j \<noteq> k \<Longrightarrow> pending (ts ! j) \<noteq> None
      \<Longrightarrow> pending (ts ! j) \<noteq> pending (ts ! k)"
    using ok c by (auto simp: config_ok_def)
  have i: "i < length ts" using i c by simp
  obtain P' ys' where s: "step_ok (ts ! i) m P ys t' m' P' ys'"
    using thread_step_ok [OF heap pcs [OF i] news [OF i] step] by blast
  have keeps: "\<And>n. pending (ts ! i) \<noteq> Some n \<Longrightarrow> hs_next m' n = hs_next m n"
    and mono: "P \<subseteq> P'" "P' \<subseteq> P \<union> set_option (pending (ts ! i))"
    and pend: "pending t' = pending (ts ! i) \<and> P' = P \<or> pending t' = None"
    using s by (auto simp: step_ok_def)
  have other: "pc_ok (hs_next m') P' (ts ! j) \<and> fresh P' (ts ! j)" if j: "j < length ts" "j \<noteq> i" for j
  proof
    have "pending (ts ! i) \<noteq> Some n" if "pending (ts ! j) = Some n" for n
      using apart [OF j(1) i j(2)] that by auto
    then show "pc_ok (hs_next m') P' (ts ! j)"
      using news [OF i] by (intro pc_ok_frame [OF pcs [OF j(1)] mono(1)] keeps) (auto simp: fresh_def)
    show "fresh P' (ts ! j)" using apart [OF i j(1) j(2) [symmetric]] apart [OF j(1) i j(2)] news [OF j(1)] mono(2)
      by (fastforce simp: fresh_def)
  qed
  have self: "pc_ok (hs_next m') P' t' \<and> fresh P' t'" using s news [OF i] pend by (auto simp: step_ok_def fresh_def)
  have "config_ok (ts[i := t'], m') P' ys'"
    unfolding config_ok_def fst_conv snd_conv length_list_update
  proof (intro conjI allI impI)
    show "heap_ok m' P' ys'" using s by (simp add: step_ok_def)
    show "pc_ok (hs_next m') P' (ts[i := t'] ! j)" if "j < length ts" for j
      using self other [OF that] that by (cases "j = i") auto
    show "fresh P' (ts[i := t'] ! j)" if "j < length ts" for j
      using self other [OF that] that by (cases "j = i") auto
    show "pending (ts[i := t'] ! j) \<noteq> pending (ts[i := t'] ! k)"
      if "j < length ts" "k < length ts" "j \<noteq> k" "pending (ts[i := t'] ! j) \<noteq> None" for j k
      using that pend apart [of j k] by (cases "j = i"; cases "k = i") auto
  qed
  moreover have "stack_replay (finish_event (ts ! i) t') ys = Some ys'" using s by (simp add: step_ok_def)
  ultimately show ?thesis using c c' i by auto
qed

lemma sched_run_ok:
  "config_ok c P ys \<Longrightarrow>
    \<exists>P' ys'. config_ok (sched_run is c) P' ys' \<and> stack_replay (stack_history is c) ys = Some ys'"
proof (induction "is" arbitrary: c P ys)
  case Nil
  then show ?case by (auto simp: sched_run_def)
next
  case (Cons i "is")
  have run: "sched_run (i # is) c = sched_run is (sched_step i c)" by (simp add: sched_run_def)
  show ?case
  proof (cases "i < length (fst c)")
    case True
    obtain P1 ys1 where 1: "config_ok (sched_step i c) P1 ys1"
      "stack_replay (finish_event (fst c ! i) (fst (sched_step i c) ! i)) ys = Some ys1"
      using sched_step_ok [OF Cons.prems True] by blast
    then show ?thesis using Cons.IH [OF 1(1)] True run by (simp add: replay_append [OF 1(2)])
  next
    case False
    then have "sched_step i c = c" by (cases c) (simp add: sched_step_def)
    then show ?thesis using Cons.IH [OF Cons.prems] False run by simp
  qed
qed

lemma config_start:
  assumes "stack_chain (hs_next m) (head_ptr m) xs" and "distinct (pushed_nodes ops)"
    and "set xs \<inter> set (pushed_nodes ops) = {}"
    and "\<forall>n \<in> set (xs @ pushed_nodes ops). n \<noteq> 0 \<and> fits48 n"
  shows "config_ok (map Load_Head ops, m) (set xs) xs"
proof -
  have closed: "stack_chain nx a ys \<Longrightarrow> y \<in> set ys \<Longrightarrow> nx y \<in> insert 0 (set ys)" for nx a ys and y :: u64
    by (induction ys arbitrary: a) (auto dest: chain_head)
  have pend: "pending (Load_Head oper) = (case oper of Push n \<Rightarrow> Some n | Pop \<Rightarrow> None)" for oper
    by (cases oper) auto
  have heap: "heap_ok m (set xs) xs" using assms(1,4) closed [OF assms(1)] by (auto simp: heap_ok_def)
  have new: "fresh (set xs) (Load_Head (ops ! i))" if "i < length ops" for i
  proof (cases "ops ! i")
    case (Push n)
    then have "n \<in> set (pushed_nodes ops)" using that by (auto simp: pushed_mem)
    then show ?thesis using assms(3,4) Push by (auto simp: fresh_def)
  qed (simp add: fresh_def)
  have apart: "pending (Load_Head (ops ! i)) \<noteq> pending (Load_Head (ops ! j))"
    if "i < length ops" "j < length ops" "i \<noteq> j" "pending (Load_Head (ops ! i)) \<noteq> None" for i j
    using that pushed_distinct [OF assms(2) that(1,2)] by (cases "ops ! i"; cases "ops ! j") (auto simp: pend)
  show ?thesis using heap new apart by (simp add: config_ok_def)
qed


section \<open>The theorems\<close>

text \<open>C25:
  Under every schedule of pushes and pops, on a stack whose nodes are not reused, the operations take
  effect one at a time, in the order of the head swaps (and of the loads that find the stack
  empty): their results are those of a sequential stack, whose content is what the head links.
  No assertion fails.
\<close>

theorem stack_linearizable:
  assumes "stack_chain (hs_next m) (head_ptr m) xs" and "distinct (pushed_nodes ops)"
    and "set xs \<inter> set (pushed_nodes ops) = {}"
    and "\<forall>n \<in> set (xs @ pushed_nodes ops). n \<noteq> 0 \<and> fits48 n"
    and "sched_run is (map Load_Head ops, m) = (ts, m')"
  shows "(\<exists>ys. stack_replay (stack_history is (map Load_Head ops, m)) xs = Some ys
      \<and> stack_chain (hs_next m') (head_ptr m') ys)
    \<and> (\<forall>oper. Assert_Failed oper \<notin> set ts)"
proof -
  obtain P ys where ok: "config_ok (ts, m') P ys"
    and replay: "stack_replay (stack_history is (map Load_Head ops, m)) xs = Some ys"
    using sched_run_ok [OF config_start [OF assms(1-4)], of "is"] assms(5) by auto
  have "stack_chain (hs_next m') (head_ptr m') ys" using ok by (simp add: config_ok_def heap_ok_def)
  moreover have "Assert_Failed oper \<notin> set ts" for oper
    using ok by (fastforce simp: config_ok_def in_set_conv_nth)
  ultimately show ?thesis using replay by blast
qed

text \<open>A push of node 32 and a pop, interleaved, on a stack that holds node 16.\<close>

theorem stack_linearizable_witness:
  "\<exists>ts m'. sched_run [0, 1, 0, 1, 1, 0, 1, 0, 1, 1, 0, 0, 0, 0, 0, 0, 0, 0] (map Load_Head [Push 32, Pop],
        \<lparr>hs_head = 16, hs_gen = 7, hs_next = (\<lambda>_. 0)\<rparr>) = (ts, m')
     \<and> (\<exists>ys. stack_replay (stack_history [0, 1, 0, 1, 1, 0, 1, 0, 1, 1, 0, 0, 0, 0, 0, 0, 0, 0] (map Load_Head [Push 32, Pop],
          \<lparr>hs_head = 16, hs_gen = 7, hs_next = (\<lambda>_. 0)\<rparr>)) [16] = Some ys
        \<and> stack_chain (hs_next m') (head_ptr m') ys)
     \<and> (\<forall>oper. Assert_Failed oper \<notin> set ts)"
proof -
  define m where "m = \<lparr>hs_head = 16, hs_gen = 7, hs_next = (\<lambda>_ :: u64. 0 :: u64)\<rparr>"
  obtain ts m' where run: "sched_run [0, 1, 0, 1, 1, 0, 1, 0, 1, 1, 0, 0, 0, 0, 0, 0, 0, 0] (map Load_Head [Push 32, Pop], m) = (ts, m')"
    by fastforce
  have "stack_chain (hs_next m) (head_ptr m) [16]" by (simp add: m_def head_ptr_def ehash_from_uint64_def)
  then show ?thesis using stack_linearizable [OF _ _ _ _ run, of "[16]"] run
    by (simp add: fits48_def m_def)
qed

lemma solo_step:
  assumes "i < length ts"
  shows "sched_step i (ts, m) = (ts[i := fst (thread_step (ts ! i) m)], snd (thread_step (ts ! i) m))"
  using assms by (simp add: sched_step_def split: prod.split)

fun solo :: "nat \<Rightarrow> stack_pc \<times> stack_mem \<Rightarrow> stack_pc \<times> stack_mem" where
  "solo 0 c = c"
| "solo (Suc k) c = solo k (thread_step (fst c) (snd c))"

lemma solo_run:
  "i < length ts \<Longrightarrow> sched_run (replicate k i) (ts, m) = (ts[i := fst (solo k (ts ! i, m))], snd (solo k (ts ! i, m)))"
proof (induction k arbitrary: ts m)
  case (Suc k)
  have "sched_run (replicate (Suc k) i) (ts, m) = sched_run (replicate k i) (sched_step i (ts, m))"
    by (simp add: sched_run_def)
  then show ?case using Suc by (simp add: solo_step)
qed (simp add: sched_run_def)

text \<open>The steps a thread still needs when it runs alone: more when the head or the generator has moved.\<close>

definition stopped :: "stack_pc \<Rightarrow> bool" where
  "stopped t = (case t of Finished _ _ \<Rightarrow> True | Assert_Failed _ \<Rightarrow> True | _ \<Rightarrow> False)"

fun solo_fuel :: "stack_pc \<Rightarrow> stack_mem \<Rightarrow> nat" where
  "solo_fuel (Load_Head _) m = 5"
| "solo_fuel (Access_Next _ old) m = (if hs_head m = ehash_to_uint64 old then 4 else 9)"
| "solo_fuel (Load_Gen _ old _) m = (if hs_head m = ehash_to_uint64 old then 3 else 8)"
| "solo_fuel (Swap_Gen _ old _ s) m =
     (if hs_head m = ehash_to_uint64 old then 2 else 7) + (if s = hs_gen m then 0 else 1)"
| "solo_fuel (Swap_Head _ old _ _) m = (if hs_head m = ehash_to_uint64 old then 1 else 6)"
| "solo_fuel _ m = 0"

lemma solo_decreases:
  assumes "\<not> stopped t" and "thread_step t m = (t', m')"
  shows "solo_fuel t' m' < solo_fuel t m"
proof (cases t)
  case (Access_Next oper old)
  then show ?thesis using assms by (cases oper) auto
qed (use assms in \<open>auto simp: stopped_def Let_def split: if_splits option.splits stack_op.splits\<close>)

lemma solo_stops: "solo_fuel t m \<le> k \<Longrightarrow> stopped (fst (solo k (t, m)))"
proof (induction k arbitrary: t m)
  case 0
  then show ?case by (cases t) (auto simp: stopped_def split: if_splits)
next
  case (Suc k)
  obtain t' m' where step: "thread_step t m = (t', m')" by fastforce
  show ?case
  proof (cases "stopped t")
    case True
    then have "t' = t \<and> m' = m" using step by (cases t) (auto simp: stopped_def)
    moreover have "solo_fuel t m = 0" using True by (cases t) (auto simp: stopped_def)
    ultimately show ?thesis using Suc step by simp
  next
    case False
    then show ?thesis using solo_decreases [OF False step] Suc step by simp
  qed
qed

lemma solo_bound: "solo_fuel t m \<le> 9"
  by (cases t) auto

lemma sched_run_length: "length (fst (sched_run is c)) = length (fst c)"
proof (induction "is" arbitrary: c)
  case (Cons i "is")
  have "length (fst (sched_step i c)) = length (fst c)"
    by (cases c) (simp add: sched_step_def split: prod.split)
  then show ?case using Cons by (simp add: sched_run_def)
qed (simp add: sched_run_def)

lemma sched_run_append: "sched_run (is @ js) c = sched_run js (sched_run is c)"
  by (simp add: sched_run_def)

text \<open>
  The stack is obstruction-free: wherever a schedule has brought the threads, a thread that then runs
  alone finishes its operation within nine steps.
\<close>

lemma stack_solo_finishes:
  assumes "stack_chain (hs_next m) (head_ptr m) xs" and "distinct (pushed_nodes ops)"
    and "set xs \<inter> set (pushed_nodes ops) = {}"
    and "\<forall>n \<in> set (xs @ pushed_nodes ops). n \<noteq> 0 \<and> fits48 n"
    and "i < length ops"
  shows "\<exists>oper r. fst (sched_run (is @ replicate 9 i) (map Load_Head ops, m)) ! i = Finished oper r"
proof -
  obtain ts m' where run: "sched_run is (map Load_Head ops, m) = (ts, m')" by fastforce
  have i: "i < length ts" using sched_run_length [of "is" "(map Load_Head ops, m)"] run assms(5) by simp
  obtain P ys where ok: "config_ok (sched_run (is @ replicate 9 i) (map Load_Head ops, m)) P ys"
    using sched_run_ok [OF config_start [OF assms(1-4)], of "is @ replicate 9 i"] by blast
  have now: "sched_run (is @ replicate 9 i) (map Load_Head ops, m)
      = (ts[i := fst (solo 9 (ts ! i, m'))], snd (solo 9 (ts ! i, m')))"
    using solo_run [OF i] run by (simp add: sched_run_append)
  have "pc_ok (hs_next (snd (solo 9 (ts ! i, m')))) P (fst (solo 9 (ts ! i, m')))"
    using ok i unfolding now config_ok_def by auto
  moreover have "stopped (fst (solo 9 (ts ! i, m')))" by (rule solo_stops [OF solo_bound])
  ultimately show ?thesis using now i by (auto simp: stopped_def split: stack_pc.splits)
qed

lemma stack_solo_finishes_instance:
  "\<exists>oper r. fst (sched_run ([0, 1, 0] @ replicate 9 1) (map Load_Head [Push 32, Pop],
      \<lparr>hs_head = 16, hs_gen = 7, hs_next = (\<lambda>_. 0)\<rparr>)) ! 1 = Finished oper r"
  by (rule stack_solo_finishes [of _ "[16]"]) (auto simp: head_ptr_def ehash_from_uint64_def fits48_def)

lemma xorshift_zero [simp]: "xorshift 0 = 0"
  by (simp add: xorshift_def)

definition aba_ops :: "stack_op list" where
  "aba_ops = [Push 32, Push 16, Pop, Pop, Pop, Push 16, Pop]"

definition aba_schedule :: "nat list" where
  "aba_schedule = [0, 0, 0, 0, 0, 1, 1, 1, 1, 1, 2, 2, 3, 3, 3, 3, 3, 4, 4, 4, 4, 4, 5, 5, 5, 5, 5,
     2, 2, 2, 6, 6, 6, 6, 6]"

lemma list_update_numeral: "(x # xs)[numeral k := y] = x # xs[pred_numeral k := y]"
  by (simp add: numeral_eq_Suc)

text \<open>
  With the seed 0 the generator stays at 0 and every tag is 0, so a node that is pushed again gives the
  head word it had before. Then a swap that should have failed succeeds: after
  \<open>ehash_stack_init(stack, 0)\<close> and the pushes of node 32 and node 16, a schedule of pops and a
  second push of node 16, which a pop has returned before, returns node 32 twice, though it was
  pushed once.
\<close>

lemma stack_zero_seed_aba:
  "stack_history aba_schedule (map Load_Head aba_ops, ehash_stack_init 0 (\<lambda>_. 0))
     = [(Push 32, 32), (Push 16, 16), (Pop, 16), (Pop, 32), (Push 16, 16), (Pop, 16), (Pop, 32)]
   \<and> stack_replay (stack_history aba_schedule (map Load_Head aba_ops, ehash_stack_init 0 (\<lambda>_. 0))) [] = None"
proof -
  have hist: "stack_history aba_schedule (map Load_Head aba_ops, ehash_stack_init 0 (\<lambda>_. 0))
     = [(Push 32, 32), (Push 16, 16), (Pop, 16), (Pop, 32), (Push 16, 16), (Pop, 16), (Pop, 32)]"
    by (simp add: aba_schedule_def aba_ops_def list_update_numeral sched_step_def ehash_stack_init_def
        ehash_from_uint64_def ehash_to_uint64_def make_ehash_ptr_def tag_of_def)
  show ?thesis unfolding hist by simp
qed

end
