(* ===== verification/Hash_Stack_Progress.thy ===== *)
theory Hash_Stack_Progress
  imports Hash_Stack_Correct
begin

text \<open>
  Progress of the lock-free stack: threads may make each other retry, but never all of them
  forever. A potential bounds the steps unfinished threads can take before one of them finishes.
\<close>

section \<open>The potential\<close>

text \<open>
  The steps a thread needs when the head stays as it is, and whether its next swap of the
  generator will fail. A swap of the generator that succeeds spoils those of the other threads,
  so a step weighs more than they can gain together.
\<close>

fun head_fuel :: "stack_pc \<Rightarrow> stack_mem \<Rightarrow> nat" where
  "head_fuel (Load_Head _) m = 5"
| "head_fuel (Access_Next _ old) m = (if hs_head m = ehash_to_uint64 old then 4 else 9)"
| "head_fuel (Load_Gen _ old _) m = (if hs_head m = ehash_to_uint64 old then 3 else 8)"
| "head_fuel (Swap_Gen _ old _ s) m = (if hs_head m = ehash_to_uint64 old then 2 else 7)"
| "head_fuel (Swap_Head _ old _ _) m = (if hs_head m = ehash_to_uint64 old then 1 else 6)"
| "head_fuel _ m = 0"

fun gen_stale :: "stack_pc \<Rightarrow> stack_mem \<Rightarrow> nat" where
  "gen_stale (Swap_Gen _ _ _ s) m = (if s = hs_gen m then 0 else 1)"
| "gen_stale _ m = 0"

definition weight :: "nat \<Rightarrow> stack_pc \<Rightarrow> stack_mem \<Rightarrow> nat" where
  "weight T t m = (T + 1) * head_fuel t m + gen_stale t m"

definition potential :: "stack_pc list \<times> stack_mem \<Rightarrow> nat" where
  "potential c = (\<Sum>j<length (fst c). weight (length (fst c)) (fst c ! j) (snd c))"

lemma weight_bound: "weight T t m \<le> 9 * (T + 1) + 1"
proof -
  have "head_fuel t m \<le> 9" "gen_stale t m \<le> 1" by (cases t; simp)+
  then have "(T + 1) * head_fuel t m \<le> (T + 1) * 9" by (intro mult_le_mono2)
  with \<open>gen_stale t m \<le> 1\<close> show ?thesis by (simp add: weight_def)
qed

lemma potential_bound: "potential c \<le> length (fst c) * (9 * (length (fst c) + 1) + 1)"
  unfolding potential_def
  using sum_bounded_above [of "{..<length (fst c)}" "\<lambda>j. weight (length (fst c)) (fst c ! j) (snd c)"
      "9 * (length (fst c) + 1) + 1"] weight_bound
  by simp

text \<open>A step that does not finish leaves the head, and pays for what it spoils.\<close>

lemma unfinished_step:
  assumes "thread_step t m = (t', m')" and "\<not> stopped t" and "\<not> stopped t'"
  shows "hs_head m' = hs_head m"
    and "head_fuel t' m' < head_fuel t m
      \<or> head_fuel t' m' = head_fuel t m \<and> gen_stale t' m' < gen_stale t m \<and> hs_gen m' = hs_gen m"
proof -
  show "hs_head m' = hs_head m"
    using assms by (cases "(t, m)" rule: thread_step.cases)
      (auto simp: stopped_def Let_def split: if_splits option.splits stack_op.splits)
  show "head_fuel t' m' < head_fuel t m
      \<or> head_fuel t' m' = head_fuel t m \<and> gen_stale t' m' < gen_stale t m \<and> hs_gen m' = hs_gen m"
  proof (cases t)
    case (Access_Next oper old)
    then show ?thesis using assms by (cases oper) auto
  qed (use assms in \<open>auto simp: stopped_def Let_def split: if_splits option.splits stack_op.splits\<close>)
qed

lemma gen_stale_le: "gen_stale t m \<le> 1"
  by (cases t) auto

lemma others_spoiled:
  assumes "hs_head m' = hs_head m"
  shows "weight T u m' \<le> weight T u m + 1" and "hs_gen m' = hs_gen m \<Longrightarrow> weight T u m' = weight T u m"
proof -
  have fuel: "head_fuel u m' = head_fuel u m" using assms by (cases u) auto
  then show "weight T u m' \<le> weight T u m + 1" using gen_stale_le [of u m'] by (simp add: weight_def)
  have "gen_stale u m' = gen_stale u m" if "hs_gen m' = hs_gen m" using that by (cases u) auto
  then show "hs_gen m' = hs_gen m \<Longrightarrow> weight T u m' = weight T u m" using fuel by (simp add: weight_def)
qed

lemma potential_decreases:
  assumes i: "i < length ts" and step: "thread_step (ts ! i) m = (t', m')"
    and active: "\<not> stopped (ts ! i)" "\<not> stopped t'"
  shows "potential (ts[i := t'], m') < potential (ts, m)"
proof -
  define T where "T = length ts"
  define R where "R = {..<T} - {i}"
  note u = unfinished_step [OF step active]
  have split: "(\<Sum>j<T. f j) = f i + (\<Sum>j\<in>R. f j)" for f :: "nat \<Rightarrow> nat"
    using i by (simp add: R_def T_def sum.remove)
  have before: "potential (ts, m) = weight T (ts ! i) m + (\<Sum>j\<in>R. weight T (ts ! j) m)"
    by (simp add: potential_def T_def [symmetric] split)
  have "(\<Sum>j\<in>R. weight T (ts[i := t'] ! j) m') = (\<Sum>j\<in>R. weight T (ts ! j) m')"
    by (rule sum.cong) (auto simp: R_def)
  then have after: "potential (ts[i := t'], m') = weight T t' m' + (\<Sum>j\<in>R. weight T (ts ! j) m')"
    using i by (simp add: potential_def T_def [symmetric] split)
  have card: "card R < T" using i by (simp add: R_def T_def)
  show ?thesis
  proof (cases "hs_gen m' = hs_gen m")
    case True
    then have "(\<Sum>j\<in>R. weight T (ts ! j) m') = (\<Sum>j\<in>R. weight T (ts ! j) m)"
      using others_spoiled(2) [OF u(1)] by simp
    moreover have "weight T t' m' < weight T (ts ! i) m"
      using u(2) gen_stale_le [of t' m'] mult_le_mono2 [of "Suc (head_fuel t' m')" "head_fuel (ts ! i) m" "T + 1"] card
      by (auto simp: weight_def)
    ultimately show ?thesis by (simp add: before after)
  next
    case False
    then have less: "head_fuel t' m' < head_fuel (ts ! i) m" using u(2) by blast
    have "(\<Sum>j\<in>R. weight T (ts ! j) m') \<le> (\<Sum>j\<in>R. weight T (ts ! j) m + 1)"
      by (rule sum_mono) (rule others_spoiled(1) [OF u(1)])
    then have others: "(\<Sum>j\<in>R. weight T (ts ! j) m') \<le> (\<Sum>j\<in>R. weight T (ts ! j) m) + card R"
      by (simp add: sum_Suc)
    have "gen_stale t' m' = 0"
      using step active False by (cases "(ts ! i, m)" rule: thread_step.cases)
        (auto simp: stopped_def Let_def split: if_splits option.splits stack_op.splits)
    then have "weight T t' m' + (T + 1) \<le> weight T (ts ! i) m"
      using mult_le_mono2 [of "Suc (head_fuel t' m')" "head_fuel (ts ! i) m" "T + 1"] less
      by (simp add: weight_def)
    then show ?thesis using others card by (simp add: before after)
  qed
qed

section \<open>Lock freedom\<close>

text \<open>A schedule that only runs threads that have not finished.\<close>

fun busy :: "nat list \<Rightarrow> stack_pc list \<times> stack_mem \<Rightarrow> bool" where
  "busy [] c = True"
| "busy (i # is) c = (i < length (fst c) \<and> \<not> stopped (fst c ! i) \<and> busy is (sched_step i c))"

definition step_bound :: "nat \<Rightarrow> nat" where
  "step_bound T = T * (9 * (T + 1) + 1)"

lemma sched_step_length: "length (fst (sched_step i c)) = length (fst c)"
  by (cases c) (simp add: sched_step_def split: prod.split)

lemma busy_steps:
  assumes "busy is c" and "config_ok c P ys"
  shows "length is \<le> potential c + length (stack_history is c) * (step_bound (length (fst c)) + 1)"
  using assms
proof (induction "is" arbitrary: c P ys)
  case (Cons i "is")
  obtain ts m where c: "c = (ts, m)" by fastforce
  obtain t' m' where step: "thread_step (ts ! i) m = (t', m')" by fastforce
  have i: "i < length ts" "\<not> stopped (ts ! i)" and busy: "busy is (sched_step i c)" using Cons.prems(1) c by auto
  have c': "sched_step i (ts, m) = (ts[i := t'], m')" using i(1) step by (simp add: sched_step_def)
  have "i < length (fst c)" using i(1) c by simp
  then obtain P' ys' where ok: "config_ok (sched_step i c) P' ys'"
    using sched_step_ok [OF Cons.prems(2)] by blast
  define B where "B = step_bound (length (fst c))"
  have IH: "length is \<le> potential (sched_step i c) + length (stack_history is (sched_step i c)) * (B + 1)"
    using Cons.IH [OF busy ok] by (simp add: B_def sched_step_length)
  show ?case
  proof (cases "stopped t'")
    case True
    have "pc_ok (hs_next m') P' t'" using ok i(1) unfolding c c' config_ok_def by auto
    then obtain oper r where "t' = Finished oper r" using True by (auto simp: stopped_def split: stack_pc.splits)
    then have "finish_event (ts ! i) t' = [(oper, r)]" using i(2) by (cases "ts ! i") (auto simp: stopped_def)
    then have "length (stack_history (i # is) c) = Suc (length (stack_history is (sched_step i c)))"
      using i(1) by (simp add: c' c)
    moreover have "potential (sched_step i c) \<le> B"
      using potential_bound [of "sched_step i c"] by (simp add: B_def step_bound_def sched_step_length)
    ultimately show ?thesis using IH by (simp add: B_def [symmetric])
  next
    case False
    have "potential (sched_step i c) < potential c"
      using potential_decreases [OF i(1) step i(2) False] c c' by simp
    moreover have "length (stack_history is (sched_step i c)) \<le> length (stack_history (i # is) c)" by simp
    then have "length (stack_history is (sched_step i c)) * (B + 1) \<le> length (stack_history (i # is) c) * (B + 1)"
      by (rule mult_le_mono1)
    ultimately show ?thesis using IH by (simp add: B_def [symmetric] del: stack_history.simps)
  qed
qed simp

definition stopped_threads :: "stack_pc list \<times> stack_mem \<Rightarrow> nat set" where
  "stopped_threads c = {j. j < length (fst c) \<and> stopped (fst c ! j)}"

lemma finish_eventD:
  "finish_event t t' \<noteq> [] \<Longrightarrow> \<not> stopped t \<and> stopped t' \<and> length (finish_event t t') = 1"
  by (cases "(t, t')" rule: finish_event.cases) (auto simp: stopped_def)

lemma history_bound: "length (stack_history is c) + card (stopped_threads c) \<le> length (fst c)"
proof (induction "is" arbitrary: c)
  case Nil
  have "card (stopped_threads c) \<le> card {..<length (fst c)}"
    by (rule card_mono) (auto simp: stopped_threads_def)
  then show ?case by simp
next
  case (Cons i "is")
  obtain ts m where c: "c = (ts, m)" by fastforce
  have fin: "finite (stopped_threads d)" for d by (simp add: stopped_threads_def)
  show ?case
  proof (cases "i < length ts")
    case True
    obtain t' m' where step: "thread_step (ts ! i) m = (t', m')" by fastforce
    have c': "sched_step i (ts, m) = (ts[i := t'], m')" using True step by (simp add: c sched_step_def)
    have keep: "t' = ts ! i" if "stopped (ts ! i)" using step that by (cases "ts ! i") (auto simp: stopped_def)
    have mono: "stopped_threads c \<subseteq> stopped_threads (sched_step i c)"
    proof
      fix j assume "j \<in> stopped_threads c"
      then show "j \<in> stopped_threads (sched_step i c)"
        using keep by (cases "j = i") (auto simp: stopped_threads_def c c')
    qed
    have "length (finish_event (ts ! i) t') + card (stopped_threads c) \<le> card (stopped_threads (sched_step i c))"
    proof (cases "finish_event (ts ! i) t' = []")
      case True
      then show ?thesis using card_mono [OF fin mono] by simp
    next
      case False
      then have stop: "\<not> stopped (ts ! i)" "stopped t'" "length (finish_event (ts ! i) t') = 1"
        using finish_eventD [of "ts ! i" t'] by simp_all
      then have "insert i (stopped_threads c) \<subseteq> stopped_threads (sched_step i c)" "i \<notin> stopped_threads c"
        using mono \<open>i < length ts\<close> by (simp_all add: stopped_threads_def c c')
      then show ?thesis using card_mono [OF fin, of "insert i (stopped_threads c)" "sched_step i c"] fin stop(3) by simp
    qed
    then show ?thesis using Cons.IH [of "sched_step i c"] True by (simp add: c' c)
  next
    case False
    then have "sched_step i c = c" by (simp add: c sched_step_def)
    then show ?thesis using Cons.IH [of c] False by (simp add: c)
  qed
qed

text \<open>C34:
  The stack is lock-free as long as no node is reused: \<open>T\<close> threads have one push or pop each, no
  node is pushed twice and none that is pushed is on the stack at the start, and every node is a
  non-null address of 48 bits. Then, wherever a schedule has brought the threads, the steps that
  unfinished threads take, in any order, are at most \<open>B + k (B + 1)\<close> with
  \<open>B = T (9 (T + 1) + 1)\<close> and \<open>k\<close> the operations they complete, and \<open>k\<close> is at most \<open>T\<close>. So no
  retrying goes on forever.
\<close>

theorem stack_lock_free:
  assumes "stack_chain (hs_next m) (head_ptr m) xs" and "distinct (pushed_nodes ops)"
    and "set xs \<inter> set (pushed_nodes ops) = {}"
    and "\<forall>n \<in> set (xs @ pushed_nodes ops). n \<noteq> 0 \<and> fits48 n"
    and "sched_run before (map Load_Head ops, m) = c" and "busy is c"
  shows "length is \<le> step_bound (length ops) + length (stack_history is c) * (step_bound (length ops) + 1)
    \<and> length (stack_history is c) \<le> length ops"
proof -
  obtain P ys where ok: "config_ok c P ys"
    using sched_run_ok [OF config_start [OF assms(1-4)], of before] assms(5) by blast
  have len: "length (fst c) = length ops"
    using sched_run_length [of before "(map Load_Head ops, m)"] assms(5) by simp
  have "potential c \<le> step_bound (length ops)" using potential_bound [of c] len by (simp add: step_bound_def)
  then show ?thesis using busy_steps [OF assms(6) ok] history_bound [of "is" c] len by simp
qed

text \<open>A push and a pop that make each other retry, then finish.\<close>

theorem stack_lock_free_witness:
  "\<exists>c. sched_run [0, 1] (map Load_Head [Push 32, Pop], \<lparr>hs_head = 16, hs_gen = 7, hs_next = (\<lambda>_. 0)\<rparr>) = c
    \<and> busy [0, 1, 0, 1, 0, 1, 1, 0, 1, 1, 1, 1, 1, 1] c
    \<and> length (stack_history [0, 1, 0, 1, 0, 1, 1, 0, 1, 1, 1, 1, 1, 1] c) \<le> 2"
proof -
  define m where "m = \<lparr>hs_head = 16, hs_gen = 7, hs_next = (\<lambda>_ :: u64. 0 :: u64)\<rparr>"
  obtain c where run: "sched_run [0, 1] (map Load_Head [Push 32, Pop], m) = c" by blast
  have busy: "busy [0, 1, 0, 1, 0, 1, 1, 0, 1, 1, 1, 1, 1, 1] c"
    unfolding run [symmetric]
    by (simp add: m_def sched_run_def sched_step_def stopped_def ehash_from_uint64_def ehash_to_uint64_def
        make_ehash_ptr_def tag_of_def xorshift_def)
  have "stack_chain (hs_next m) (head_ptr m) [16]" by (simp add: m_def head_ptr_def ehash_from_uint64_def)
  from stack_lock_free [OF this _ _ _ run busy] have "length (stack_history [0, 1, 0, 1, 0, 1, 1, 0, 1, 1, 1, 1, 1, 1] c) \<le> 2"
    by (simp add: fits48_def del: stack_history.simps)
  with run busy show ?thesis unfolding m_def by blast
qed

end
