(* ===== verification/Command_Exploits.thy ===== *)
theory Command_Exploits
  imports Command_Table
begin

text \<open>
  The programs that try the command system: the attacks of \<^verbatim>\<open>client/security_exploits.c\<close> and the
  self-test of \<^verbatim>\<open>white_list/client/main.c\<close>.

  \<^item> Outcomes of \<^verbatim>\<open>calloc\<close> and \<^verbatim>\<open>malloc\<close> and the clock are functions of the round; the array of samples
    starts with whatever the stack held (\<open>garbage\<close>).
  \<^item> What a program reports are values of \<open>exploit_line\<close> and \<open>self_test_line\<close>, headings left out. The
    rounds of the second attack, parallel under OpenMP, share nothing; they are taken in their order.
\<close>

section \<open>The attacks\<close>

datatype exploit_line = Weak_Command nat u64 | Race_Done | Spray_Done | Weak_Offset int nat

fun collect_rounds :: "(nat \<Rightarrow> drs_fault + 'a) \<Rightarrow> nat \<Rightarrow> nat \<Rightarrow> drs_fault + 'a list" where
  "collect_rounds f i 0 = Inr []"
| "collect_rounds f i (Suc n) = bindR (f i) (\<lambda>x. bindR (collect_rounds f (Suc i) n) (\<lambda>xs. Inr (x # xs)))"

text \<open>The row of samples of one system; a system that is not created leaves it as it was.\<close>

definition sample_row ::
    "(nat \<Rightarrow> bool) \<Rightarrow> (nat \<Rightarrow> int) \<Rightarrow> (nat \<Rightarrow> u64 list) \<Rightarrow> nat \<Rightarrow> drs_fault + u64 list" where
  "sample_row alloc clock garbage i =
     bindR (enum_system_init (alloc i) (clock i) (of_int (clock i + int i))) (\<lambda>sys.
       Inr (case sys of None \<Rightarrow> garbage i | Some impl \<Rightarrow> generated_ids impl))"

definition common_bits :: "u64 list list \<Rightarrow> nat \<Rightarrow> u64" where
  "common_bits rows cmd = fold (\<lambda>row acc. acc AND row ! cmd) rows (NOT 0)"

definition exploit_predict_next_id ::
    "(nat \<Rightarrow> bool) \<Rightarrow> (nat \<Rightarrow> int) \<Rightarrow> (nat \<Rightarrow> u64 list) \<Rightarrow> drs_fault + exploit_line list" where
  "exploit_predict_next_id alloc clock garbage =
     bindR (collect_rounds (sample_row alloc clock garbage) 0 10) (\<lambda>rows.
       Inr (concat (map (\<lambda>cmd. if common_bits rows cmd \<noteq> 0 then [Weak_Command cmd (common_bits rows cmd)] else [])
         [0..<10])))"

text \<open>One round: the results of the thousand validations, which the program ignores.\<close>

definition race_round :: "(nat \<Rightarrow> bool) \<Rightarrow> (nat \<Rightarrow> int) \<Rightarrow> nat \<Rightarrow> drs_fault + bool list" where
  "race_round alloc clock i =
     bindR (enum_system_init (alloc i) (clock i) (of_int (clock i) XOR of_nat i)) (\<lambda>sys.
       Inr (case sys of
              None \<Rightarrow> []
            | Some s \<Rightarrow> map (\<lambda>j. secure_validate_cmd_id (Some s) (of_nat j)) [0..<1000]))"

definition exploit_race_condition :: "(nat \<Rightarrow> bool) \<Rightarrow> (nat \<Rightarrow> int) \<Rightarrow> drs_fault + exploit_line list" where
  "exploit_race_condition alloc clock =
     bindR (collect_rounds (race_round alloc clock) 0 100) (\<lambda>_. Inr [Race_Done])"

text \<open>The forged definitions on the heap; they are freed again and never used.\<close>

definition forged_command :: "nat \<Rightarrow> command_definition" where
  "forged_command i = zero_command\<lparr>sec_front := 0x434D4453, sec_back := 0x53454355, cmd_name := Some ''FAKE'',
     cmd_id := 0xDEADBEEF + of_nat i\<rparr>"

definition spray :: "(nat \<Rightarrow> bool) \<Rightarrow> command_definition option list" where
  "spray alloc = map (\<lambda>i. if alloc i then Some (forged_command i) else None) [0..<10000]"

definition exploit_heap_spraying :: "(nat \<Rightarrow> bool) \<Rightarrow> exploit_line list" where
  "exploit_heap_spraying alloc = (let sprayed = spray alloc in [Spray_Done])"

definition id_matches :: "enum_system \<Rightarrow> enum_system \<Rightarrow> nat" where
  "id_matches known test = length (filter (\<lambda>cmd. generated_ids known ! cmd = generated_ids test ! cmd) [0..<10])"

text \<open>The rounds for the offsets from \<open>-100\<close> on.\<close>

definition offset_round :: "(nat \<Rightarrow> bool) \<Rightarrow> (nat \<Rightarrow> int) \<Rightarrow> enum_system \<Rightarrow> nat \<Rightarrow> drs_fault + exploit_line list" where
  "offset_round alloc clock known k =
     (let offset = int k - 100
      in bindR (enum_system_init (alloc k) (clock k) (12345678 + of_int offset)) (\<lambda>sys.
           Inr (case sys of
                  None \<Rightarrow> []
                | Some test \<Rightarrow> if id_matches known test > 0 then [Weak_Offset offset (id_matches known test)] else [])))"

definition exploit_incremental_seed ::
    "bool \<Rightarrow> int \<Rightarrow> (nat \<Rightarrow> bool) \<Rightarrow> (nat \<Rightarrow> int) \<Rightarrow> drs_fault + exploit_line list" where
  "exploit_incremental_seed known_ok t alloc clock =
     bindR (enum_system_init known_ok t 12345678) (\<lambda>known_sys.
       case known_sys of
         None \<Rightarrow> Inr []
       | Some known \<Rightarrow> bindR (collect_rounds (offset_round alloc clock known) 0 201) (\<lambda>rows. Inr (concat rows)))"

record exploit_env =
  predict_alloc :: "nat \<Rightarrow> bool"
  race_alloc :: "nat \<Rightarrow> bool"
  spray_alloc :: "nat \<Rightarrow> bool"
  known_alloc :: bool
  offset_alloc :: "nat \<Rightarrow> bool"
  predict_clock :: "nat \<Rightarrow> int"
  race_clock :: "nat \<Rightarrow> int"
  known_clock :: int
  offset_clock :: "nat \<Rightarrow> int"
  stack_garbage :: "nat \<Rightarrow> u64 list"

definition exploits_main :: "exploit_env \<Rightarrow> drs_fault + int \<times> exploit_line list" where
  "exploits_main env =
     bindR (exploit_predict_next_id (predict_alloc env) (predict_clock env) (stack_garbage env)) (\<lambda>es1.
     bindR (exploit_race_condition (race_alloc env) (race_clock env)) (\<lambda>es2.
     let es3 = exploit_heap_spraying (spray_alloc env) in
     bindR (exploit_incremental_seed (known_alloc env) (known_clock env) (offset_alloc env) (offset_clock env)) (\<lambda>es4.
       Inr (0, es1 @ es2 @ es3 @ es4))))"

section \<open>The self-test\<close>

datatype self_test_line =
    Init_Failed | System_Initialised
  | Found_Command string | Not_Found
  | Id_Validated | Validation_Failed
  | Cleaned_Up | All_Tests_Passed

definition self_test_main ::
    "bool \<Rightarrow> int \<Rightarrow> command_system \<Rightarrow> drs_fault + int \<times> self_test_line list \<times> command_system" where
  "self_test_main calloc_ok t g =
     bindR (command_system_global_init calloc_ok t (of_int t XOR 0xDEADBEEFCAFEBABE) g) (\<lambda>(ok, g).
       if \<not> ok then Inr (1, [Init_Failed], g)
       else
         let cmd = get_command_secure g (Some ''GET'');
             found = (case cmd of
                        Some c \<Rightarrow> Found_Command (case cmd_name c of None \<Rightarrow> '''' | Some s \<Rightarrow> s)
                      | None \<Rightarrow> Not_Found);
             checked = (case cmd of
                          Some c \<Rightarrow> if secure_validate_cmd_id (g_global_cmd_system g) (cmd_id c) then Id_Validated
                                    else Validation_Failed
                        | None \<Rightarrow> Validation_Failed);
             g' = command_system_global_cleanup g
         in Inr (0, [System_Initialised, found, checked]
                    @ (if \<not> is_command_system_initialized g' then [Cleaned_Up] else []) @ [All_Tests_Passed], g'))"

section \<open>What they report\<close>

lemma enum_system_init_option:
  "enum_system_init ok t seed = Inr (if ok then Some (the_system t seed) else None)"
  by (cases ok) (simp_all add: enum_system_init_eq, simp add: enum_system_init_def)

lemma collect_rounds_Inr: "(\<And>j. f j = Inr (g j)) \<Longrightarrow> collect_rounds f i n = Inr (map g [i..<i + n])"
  by (induction n arbitrary: i) (simp_all add: upt_rec)

lemma the_system_ids: "generated_ids (the_system t seed) = map fst all_ids"
  by (simp add: the_system_def)

lemma all_ids_facts: "length all_ids = 10" "\<forall>i < 10. fst (all_ids ! i) \<noteq> 0"
proof -
  show len: "length all_ids = 10" by (simp add: all_ids_def)
  have "0 \<notin> set (map fst all_ids)" by (simp add: all_ids_def)
  then show "\<forall>i < 10. fst (all_ids ! i) \<noteq> 0" using len by (metis length_map nth_map nth_mem)
qed

lemma common_bits_same: "(\<And>row. row \<in> set rows \<Longrightarrow> row ! cmd = x) \<Longrightarrow> rows \<noteq> [] \<Longrightarrow> common_bits rows cmd = x"
proof -
  have step: "fold (\<lambda>row acc. acc AND row ! cmd) rows acc = acc AND x"
    if "\<And>row. row \<in> set rows \<Longrightarrow> row ! cmd = x" "rows \<noteq> []" for rows :: "u64 list list" and acc
    using that by (induction rows arbitrary: acc) (auto simp: ac_simps, fastforce simp: ac_simps)
  then show "(\<And>row. row \<in> set rows \<Longrightarrow> row ! cmd = x) \<Longrightarrow> rows \<noteq> [] \<Longrightarrow> common_bits rows cmd = x"
    by (simp add: common_bits_def)
qed

lemma concat_map_cong_singleton: "(\<And>x. x \<in> set xs \<Longrightarrow> f x = [h x]) \<Longrightarrow> concat (map f xs) = map h xs"
  by (induction xs) auto

lemma predict_reports:
  assumes "\<And>i. i < 10 \<Longrightarrow> alloc i"
  shows "exploit_predict_next_id alloc clock garbage
    = Inr (map (\<lambda>cmd. Weak_Command cmd (fst (all_ids ! cmd))) [0..<10])"
proof -
  define row where "row i = (if alloc i then map fst all_ids else garbage i)" for i
  have rows: "collect_rounds (sample_row alloc clock garbage) 0 10 = Inr (map row [0..<0 + 10])"
    by (rule collect_rounds_Inr) (simp add: sample_row_def enum_system_init_option the_system_ids row_def)
  have "common_bits (map row [0..<0 + 10]) cmd = fst (all_ids ! cmd)" if "cmd < 10" for cmd
    by (rule common_bits_same) (use that assms all_ids_facts(1) in \<open>auto simp: row_def\<close>)
  then show ?thesis
    unfolding exploit_predict_next_id_def rows bindR_simps
    using all_ids_facts(2) by (intro arg_cong [where f = Inr] concat_map_cong_singleton) simp
qed

lemma race_reports: "exploit_race_condition alloc clock = Inr [Race_Done]"
proof -
  have "\<exists>g. \<forall>i. race_round alloc clock i = Inr (g i)"
    by (intro choice allI) (simp add: race_round_def enum_system_init_option)
  then obtain g where "\<And>i. race_round alloc clock i = Inr (g i)" by blast
  then have "collect_rounds (race_round alloc clock) 0 100 = Inr (map g [0..<0 + 100])" by (rule collect_rounds_Inr)
  then show ?thesis unfolding exploit_race_condition_def by (simp only: bindR_simps)
qed

lemma incremental_reports:
  "exploit_incremental_seed True t alloc clock = Inr (map (\<lambda>k. Weak_Offset (int k - 100) 10) (filter alloc [0..<201]))"
proof -
  define g where "g k = (if alloc k then [Weak_Offset (int k - 100) 10] else [])" for k
  have "id_matches (the_system t s) (the_system t' s') = 10" for s t' s'
    by (simp add: id_matches_def the_system_ids)
  then have "collect_rounds (offset_round alloc clock (the_system t s)) 0 201 = Inr (map g [0..<0 + 201])" for s
    by (intro collect_rounds_Inr) (simp add: offset_round_def enum_system_init_option g_def Let_def)
  moreover have "concat (map g ks) = map (\<lambda>k. Weak_Offset (int k - 100) 10) (filter alloc ks)" for ks
    by (induction ks) (auto simp: g_def)
  ultimately show ?thesis
    unfolding exploit_incremental_seed_def by (simp only: enum_system_init_option bindR_simps if_True option.case add_0)
qed

text \<open>
  The forged entries pass the integrity check of the table, but the lookup does not reach them; and no
  number is a valid identifier.
\<close>

lemma forged_not_found:
  "command_intact (forged_command i)"
  "seed \<noteq> 0 \<Longrightarrow> get_command_secure (ready_system t seed) (Some ''FAKE'') = None"
proof -
  show "command_intact (forged_command i)" by (simp add: command_intact_def forged_command_def)
  have "map upper_char (take 31 ''FAKE'') = ''FAKE''" by code_simp
  moreover have "''FAKE'' \<notin> set command_names" by (simp add: command_names_def)
  moreover have "is_cstr ''FAKE''" by (simp add: is_cstr_def)
  ultimately show "get_command_secure (ready_system t seed) (Some ''FAKE'') = None" if "seed \<noteq> 0"
    using find_by_name [OF ready_commands_facts, of "''FAKE''"]
    by (simp add: get_command_secure_def ready_system_def upper_lookup_name Let_def split: option.splits)
qed

text \<open>The attacks succeed: the identifiers of ten systems share all their bits, for every one of the ten
  commands, and each of the seeds from 100 below to 100 above a known one gives the same ten identifiers,
  whatever the clock and the stack. None of these common values is 0.
\<close>

lemma exploits_report:
  assumes "\<And>i. i < 10 \<Longrightarrow> predict_alloc env i" and "known_alloc env"
  shows "exploits_main env = Inr (0, map (\<lambda>cmd. Weak_Command cmd (fst (all_ids ! cmd))) [0..<10]
      @ [Race_Done, Spray_Done] @ map (\<lambda>k. Weak_Offset (int k - 100) 10) (filter (offset_alloc env) [0..<201]))
    \<and> (\<forall>cmd < 10. fst (all_ids ! cmd) \<noteq> 0)"
  using all_ids_facts(2)
  by (simp only: exploits_main_def predict_reports [OF assms(1)] race_reports incremental_reports assms(2) bindR_simps
      Let_def exploit_heap_spraying_def append.simps append_assoc simp_thms)

lemma exploits_report_witness:
  "\<exists>es. exploits_main \<lparr>predict_alloc = (\<lambda>_. True), race_alloc = (\<lambda>_. False), spray_alloc = (\<lambda>_. False),
       known_alloc = True, offset_alloc = (\<lambda>k. k = 101), predict_clock = (\<lambda>_. 7), race_clock = (\<lambda>_. 7),
       known_clock = 7, offset_clock = (\<lambda>_. 7), stack_garbage = (\<lambda>_. [])\<rparr> = Inr (0, es)
     \<and> Weak_Offset 1 10 \<in> set es"
proof -
  define env where "env = \<lparr>predict_alloc = (\<lambda>_. True), race_alloc = (\<lambda>_. False), spray_alloc = (\<lambda>_. False),
       known_alloc = True, offset_alloc = (\<lambda>k. k = 101), predict_clock = (\<lambda>_. 7), race_clock = (\<lambda>_. 7),
       known_clock = 7, offset_clock = (\<lambda>_. 7), stack_garbage = (\<lambda>_. [])\<rparr>"
  define found where "found = map (\<lambda>k. Weak_Offset (int k - 100) 10) (filter (offset_alloc env) [0..<201])"
  have "offset_alloc env 101" by (simp add: env_def)
  then have "Weak_Offset (int 101 - 100) 10 \<in> set found"
    unfolding found_def set_map by (intro imageI) simp
  then have mem: "Weak_Offset 1 10 \<in> set found" by simp
  have "predict_alloc env i" "known_alloc env" for i by (simp_all add: env_def)
  note main = exploits_report [OF this, folded found_def, THEN conjunct1]
  show ?thesis
    unfolding env_def [symmetric] main by (intro exI conjI refl UnI2 mem | simp only: set_append)+
qed

text \<open>
  The self-test finds GET, sees its identifier rejected, cleans up, and reports that all tests passed.
\<close>

lemma self_test_report:
  assumes "of_int t \<noteq> (0xDEADBEEFCAFEBABE :: u64)"
  shows "self_test_main True t command_system_start = Inr (0,
    [System_Initialised, Found_Command ''GET'', Validation_Failed, Cleaned_Up, All_Tests_Passed], command_system_start)"
proof -
  have seed: "of_int t XOR (0xDEADBEEFCAFEBABE :: u64) \<noteq> 0"
  proof
    assume "of_int t XOR (0xDEADBEEFCAFEBABE :: u64) = 0"
    then have "(of_int t XOR 0xDEADBEEFCAFEBABE) XOR 0xDEADBEEFCAFEBABE = (0xDEADBEEFCAFEBABE :: u64)" by simp
    then show False using assms by (simp add: xor.assoc)
  qed
  have up: "map upper_char (take 31 ''GET'') = ''GET''" by code_simp
  have "get_command_secure (ready_system t s) (Some ''GET'') = find (entry_matches ''GET'') ready_commands" for s
    using up by (simp add: get_command_secure_def ready_system_def upper_lookup_name Let_def is_cstr_def)
  then obtain c where c: "\<And>s. get_command_secure (ready_system t s) (Some ''GET'') = Some c" "cmd_name c = Some ''GET''"
    using find_by_name [OF ready_commands_facts, of "''GET''"] by (auto simp: command_names_def split: option.splits)
  have clean: "command_system_global_cleanup g = command_system_start" for g
    by (simp add: command_system_global_cleanup_def command_system_start_def)
  have "\<not> is_command_system_initialized command_system_start"
    by (simp add: is_command_system_initialized_def command_system_start_def)
  then show ?thesis
    by (simp add: self_test_main_def global_init_start [OF seed] c Let_def validate_never clean)
qed

end
