(* ===== verification/Server_Tests.thy ===== *)
theory Server_Tests
  imports Server_Threads
begin

text \<open>
  The test programs of the server: the suite \<^verbatim>\<open>test_server.c\<close> on the interface of the instance, and
  \<^verbatim>\<open>test_client.c\<close>, which sends eight lines to a running server.

  \<^item> A test yields its checks, by name, whether it succeeded, and what it took from and gave back to the
    system. The outcomes of the allocations of the server it creates are its argument.
  \<^item> The client writes a command and its line feed separately; whether the server's \<^verbatim>\<open>recv\<close> already sees
    the line feed is the value of \<open>wire\<close>. The answer is taken to reach the client in one piece.
\<close>

section \<open>Constants of the suite\<close>

definition get_test_custom_port :: int where "get_test_custom_port = 9999"

definition get_test_max_clients :: u32 where "get_test_max_clients = 500"

definition get_test_max_memory :: u64 where "get_test_max_memory = 536870912"

definition get_test_server_mode :: server_mode where "get_test_server_mode = SERVER_MODE_STANDALONE"

definition get_test_bind_address :: "string option" where "get_test_bind_address = Some ''127.0.0.1''"

definition get_test_data_directory :: "string option" where "get_test_data_directory = Some ''/tmp/test_cache''"

definition get_test_persistence_enabled :: bool where "get_test_persistence_enabled = True"

definition get_test_persistence_interval :: int where "get_test_persistence_interval = 60"

definition get_invalid_port_number :: int where "get_invalid_port_number = 70000"

definition get_invalid_client_count :: u32 where "get_invalid_client_count = 0"

definition get_error_buffer_size :: nat where "get_error_buffer_size = 256"

definition get_minimum_version_length :: nat where "get_minimum_version_length = 1"

definition get_minimum_build_info_length :: nat where "get_minimum_build_info_length = 1"

definition get_initial_test_count :: nat where "get_initial_test_count = 0"

definition get_init_test_count :: nat where "get_init_test_count = 3"

definition get_config_test_count :: nat where "get_config_test_count = 2"

definition get_info_test_count :: nat where "get_info_test_count = 2"

definition get_advanced_test_count :: nat where "get_advanced_test_count = 2"

section \<open>The tests\<close>

record test_run =
  checks :: "(string \<times> bool) list"
  success :: bool
  effects :: "sys_event list"

definition test_failed :: "string \<Rightarrow> sys_event list \<Rightarrow> test_run" where
  "test_failed name es = \<lparr>checks = [(name, False)], success = False, effects = es\<rparr>"

definition test_server_init_default :: "init_env \<Rightarrow> server_fault + test_run" where
  "test_server_init_default env =
     (case server_init_default env of
        (None, es) \<Rightarrow> Inr (test_failed ''Server instance created'' es)
      | (Some s, es) \<Rightarrow>
          let config_valid = (server_port (srv_config s) = get_server_default_port);
              storage_created = (srv_storage s \<noteq> None);
              clients_allocated = (clients s \<noteq> None);
              status_correct = (srv_status s = get_initial_server_status)
          in Inr \<lparr>checks = [(''Server instance created'', True), (''Default port set correctly'', config_valid),
                 (''Storage initialized'', storage_created), (''Clients array allocated'', clients_allocated),
                 (''Initial status correct'', status_correct)],
               success = (config_valid \<and> storage_created \<and> clients_allocated \<and> status_correct),
               effects = es @ server_destroy (Some s)\<rparr>)"

definition test_custom_config :: server_config where
  "test_custom_config = \<lparr>server_port = of_int get_test_custom_port, max_clients = get_test_max_clients,
     max_memory = get_test_max_memory, server_mode = get_test_server_mode, bind_address = get_test_bind_address,
     data_directory = get_test_data_directory, persistence_enabled = get_test_persistence_enabled,
     persistence_interval = get_test_persistence_interval\<rparr>"

definition test_server_init_custom_config :: "init_env \<Rightarrow> server_fault + test_run" where
  "test_server_init_custom_config env =
     (case server_init env (Some test_custom_config) of
        (None, es) \<Rightarrow> Inr (test_failed ''Custom server instance created'' es)
      | (Some s, es) \<Rightarrow>
          let config_copied = (server_port (srv_config s) = server_port test_custom_config);
              max_clients_correct = (max_clients (srv_config s) = max_clients test_custom_config)
          in Inr \<lparr>checks = [(''Custom server instance created'', True), (''Custom port applied'', config_copied),
                 (''Max clients applied'', max_clients_correct)],
               success = (config_copied \<and> max_clients_correct), effects = es @ server_destroy (Some s)\<rparr>)"

definition test_server_init_null_config :: "init_env \<Rightarrow> server_fault + test_run" where
  "test_server_init_null_config env =
     (case server_init env None of
        (server, es) \<Rightarrow> Inr \<lparr>checks = [(''Server not created with NULL config'', server = None)],
          success = (server = None), effects = es\<rparr>)"

definition test_server_config_default :: "server_fault + test_run" where
  "test_server_config_default =
     (let config = server_config_default;
          port_correct = (server_port config = get_server_default_port);
          max_clients_correct = (max_clients config = get_server_max_clients);
          persistence_disabled = (persistence_enabled config = get_default_persistence_enabled)
      in Inr \<lparr>checks = [(''Default port correct'', port_correct), (''Default max clients correct'', max_clients_correct),
             (''Persistence disabled by default'', persistence_disabled)],
           success = (port_correct \<and> max_clients_correct \<and> persistence_disabled), effects = []\<rparr>)"

definition test_server_config_validation :: "server_fault + test_run" where
  "test_server_config_validation =
     (let invalid_port_config = server_config_default\<lparr>server_port := of_int get_invalid_port_number\<rparr>;
          invalid_clients_config = server_config_default\<lparr>max_clients := get_invalid_client_count\<rparr>;
          valid_config_passes = fst (server_config_validate (Some server_config_default) get_error_buffer_size);
          invalid_port_fails = (\<not> fst (server_config_validate (Some invalid_port_config) get_error_buffer_size));
          invalid_clients_fails = (\<not> fst (server_config_validate (Some invalid_clients_config) get_error_buffer_size))
      in Inr \<lparr>checks = [(''Valid config passes validation'', valid_config_passes),
             (''Invalid port fails validation'', invalid_port_fails),
             (''Invalid client count fails validation'', invalid_clients_fails)],
           success = (valid_config_passes \<and> invalid_port_fails \<and> invalid_clients_fails), effects = []\<rparr>)"

text \<open>\<open>server_get_last_error\<close> returns a pointer into the instance, never NULL.\<close>

definition test_server_status_management :: "init_env \<Rightarrow> server_fault + test_run" where
  "test_server_status_management env =
     (case server_init_default env of
        (None, es) \<Rightarrow> Inr (test_failed ''Server created for status test'' es)
      | (Some s, es) \<Rightarrow>
          let initial_status_correct = (server_get_status (Some s) = get_initial_server_status);
              config_retrieval_works = (server_get_config (Some s) \<noteq> None)
          in Inr \<lparr>checks = [(''Server created for status test'', True),
                 (''Initial status reported correctly'', initial_status_correct),
                 (''Config retrieval works'', config_retrieval_works), (''Error retrieval works'', True)],
               success = (initial_status_correct \<and> config_retrieval_works),
               effects = es @ server_destroy (Some s)\<rparr>)"

definition test_server_stats_collection :: "int \<Rightarrow> init_env \<Rightarrow> server_fault + test_run" where
  "test_server_stats_collection t env =
     (case server_init_default env of
        (None, es) \<Rightarrow> Inr (test_failed ''Server created for stats test'' es)
      | (Some s, es) \<Rightarrow>
          bindR (server_get_stats t (Some s) True) (\<lambda>stats.
            Inr \<lparr>checks = [(''Server created for stats test'', True), (''Stats retrieved successfully'', stats \<noteq> None)]
                 @ (case stats of
                      None \<Rightarrow> []
                    | Some st \<Rightarrow> [(''Initial keys count is zero'', keys_stored st = get_initial_storage_size),
                        (''Initial client count is zero'', connected_clients st = get_initial_client_count)]),
               success = (stats \<noteq> None), effects = es @ server_destroy (Some s)\<rparr>))"

definition test_server_data_operations :: "init_env \<Rightarrow> server_fault + test_run" where
  "test_server_data_operations env =
     (case server_init_default env of
        (None, es) \<Rightarrow> Inr (test_failed ''Server created for data operations test'' es)
      | (Some s, es) \<Rightarrow>
          bindR (server_flush_data (Some s)) (\<lambda>(flush_works, server, es').
            let save_works = server_save_data server; load_works = server_load_data server
            in Inr \<lparr>checks = [(''Server created for data operations test'', True),
                   (''Data flush works on empty storage'', flush_works), (''Data save operation works'', save_works),
                   (''Data load operation works'', load_works)],
                 success = (flush_works \<and> save_works \<and> load_works), effects = es @ es' @ server_destroy server\<rparr>))"

definition test_server_version_info :: "server_fault + test_run" where
  "test_server_version_info =
     (let version_valid = (length server_get_version > get_minimum_version_length);
          build_info_valid = (length server_get_build_info > get_minimum_build_info_length)
      in Inr \<lparr>checks = [(''Version string is valid'', version_valid), (''Build info string is valid'', build_info_valid)],
           success = (version_valid \<and> build_info_valid), effects = []\<rparr>)"

definition test_server_destroy_safety :: "init_env \<Rightarrow> init_env \<Rightarrow> server_fault + test_run" where
  "test_server_destroy_safety env env2 =
     (case server_init_default env of
        (None, es) \<Rightarrow> Inr (test_failed ''Server created for destroy test'' es)
      | (Some s, es) \<Rightarrow>
          (case server_init_default env2 of
             (server2, es2) \<Rightarrow>
               Inr \<lparr>checks = [(''Server created for destroy test'', True), (''Destroy operations completed safely'', True)],
                 success = True,
                 effects = es @ server_destroy (Some s) @ server_destroy None @ es2
                   @ (case server2 of None \<Rightarrow> [] | Some s2 \<Rightarrow> server_destroy (Some s2))\<rparr>))"

section \<open>The suite\<close>

fun run_tests :: "(server_fault + test_run) list \<Rightarrow> server_fault + test_run list" where
  "run_tests [] = Inr []"
| "run_tests (t # ts) = bindR t (\<lambda>r. bindR (run_tests ts) (\<lambda>rs. Inr (r # rs)))"

text \<open>A group with as many tests as it says; its result is 0 or 1.\<close>

definition run_test_group :: "(server_fault + test_run) list \<Rightarrow> nat \<Rightarrow> server_fault + nat \<times> test_run list" where
  "run_test_group tests test_count =
     bindR (run_tests (take test_count tests)) (\<lambda>rs.
       let failed = get_initial_test_count + length (filter (\<lambda>r. \<not> success r) rs)
       in Inr (if failed = get_initial_test_count then 0 else 1, rs))"

record suite_env =
  env_default :: init_env
  env_custom :: init_env
  env_null :: init_env
  env_status :: init_env
  env_stats :: init_env
  env_data :: init_env
  env_destroy :: init_env
  env_destroy2 :: init_env
  stats_clock :: int

text \<open>The exit code, the number of failed groups, and what the tests did.\<close>

definition server_tests_main :: "suite_env \<Rightarrow> server_fault + int \<times> nat \<times> test_run list" where
  "server_tests_main env =
     bindR (run_test_group [test_server_init_default (env_default env),
         test_server_init_custom_config (env_custom env), test_server_init_null_config (env_null env)]
       get_init_test_count) (\<lambda>(f1, rs1).
     bindR (run_test_group [test_server_config_default, test_server_config_validation] get_config_test_count)
       (\<lambda>(f2, rs2).
     bindR (run_test_group [test_server_status_management (env_status env),
         test_server_stats_collection (stats_clock env) (env_stats env)] get_info_test_count) (\<lambda>(f3, rs3).
     bindR (run_test_group [test_server_data_operations (env_data env), test_server_version_info]
       get_advanced_test_count) (\<lambda>(f4, rs4).
     bindR (run_test_group [test_server_destroy_safety (env_destroy env) (env_destroy2 env)] 1) (\<lambda>(f5, rs5).
       let total_failures = get_initial_test_count + f1 + f2 + f3 + f4 + f5
       in Inr (if total_failures = get_initial_test_count then 0 else 1, total_failures,
           rs1 @ rs2 @ rs3 @ rs4 @ rs5))))))"

section \<open>What the suite finds\<close>

definition inits_ok :: "init_env \<Rightarrow> bool" where
  "inits_ok env = (server_calloc_ok env \<and> storage_calloc_ok env \<and> storage_mutex_ok env \<and> buckets_calloc_ok env
     \<and> clients_calloc_ok env \<and> clients_mutex_ok env)"

lemma server_init_cases:
  obtains es where "\<not> inits_ok env" and "server_init env (Some cfg) = (None, es)" and "held {} es = Some {}"
  | s es where "inits_ok env" and "server_init env (Some cfg) = (Some s, es)" and "server_ok cfg s"
      and "held {} (es @ server_destroy (Some s)) = Some {}" and "srv_status s = SERVER_STATUS_STOPPED"
proof (cases "server_init env (Some cfg)")
  case (Pair r es)
  show thesis
  proof (cases r)
    case None
    then have "\<not> inits_ok env \<and> held {} es = Some {}"
      using Pair by (auto simp: inits_ok_def server_init_def split: if_splits)
    then show thesis using that(1) Pair None by blast
  next
    case (Some s)
    have "inits_ok env" "srv_status s = SERVER_STATUS_STOPPED"
      using Pair Some by (auto simp: inits_ok_def server_init_def get_initial_server_status_def split: if_splits)
    moreover have ok: "server_ok cfg s" "held {} es = Some server_resources"
      using server_init_ok [of env cfg s es] Pair Some by auto
    moreover have "held {} (es @ server_destroy (Some s)) = Some {}"
      using ok server_destroy_releases [OF ok(1)] by (simp add: held_append)
    ultimately show thesis using that(2) Pair Some by blast
  qed
qed

text \<open>
  A run of a test that gives back all it takes and succeeds exactly when its checks do; a test with such a
  run, which succeeds exactly when \<open>b\<close> holds.
\<close>

definition sound_run :: "test_run \<Rightarrow> bool" where
  "sound_run r = (held {} (effects r) = Some {} \<and> (success r \<longleftrightarrow> list_all snd (checks r)))"

definition sound_test :: "bool \<Rightarrow> server_fault + test_run \<Rightarrow> bool" where
  "sound_test b t = (\<exists>r. t = Inr r \<and> (success r \<longleftrightarrow> b) \<and> (success r \<longleftrightarrow> list_all snd (checks r))
     \<and> held {} (effects r) = Some {})"

lemma sound_test_failed: "\<not> b \<Longrightarrow> held {} es = Some {} \<Longrightarrow> sound_test b (Inr (test_failed name es))"
  by (simp add: sound_test_def test_failed_def)

lemmas server_ok_default = server_ok_def server_config_default_def idle_storage_def server_constants
  get_initial_server_status_def

lemma default_test: "sound_test (inits_ok env) (test_server_init_default env)"
proof (cases rule: server_init_cases [of env server_config_default])
  case (2 s es)
  then show ?thesis
    by (simp add: test_server_init_default_def server_init_default_def sound_test_def Let_def)
      (simp add: server_ok_default)
qed (simp add: test_server_init_default_def server_init_default_def sound_test_failed)

lemma custom_test: "sound_test (inits_ok env) (test_server_init_custom_config env)"
proof (cases rule: server_init_cases [of env test_custom_config])
  case (2 s es)
  then show ?thesis
    by (simp add: test_server_init_custom_config_def sound_test_def Let_def) (simp add: server_ok_def)
qed (simp add: test_server_init_custom_config_def sound_test_failed)

lemma null_test: "sound_test True (test_server_init_null_config env)"
  by (simp add: test_server_init_null_config_def server_init_def sound_test_def)

lemma config_tests: "sound_test True test_server_config_default" "sound_test True test_server_config_validation"
proof -
  show "sound_test True test_server_config_default"
    by (simp add: test_server_config_default_def sound_test_def Let_def server_config_default_def)
  show "sound_test True test_server_config_validation"
    by (simp add: test_server_config_validation_def sound_test_def Let_def server_config_validate_def
        server_config_default_def server_constants get_server_max_clients_def get_server_default_port_def
        get_minimum_port_number_def get_maximum_port_number_def get_minimum_client_count_def
        get_invalid_port_number_def get_invalid_client_count_def)
qed

lemma status_test: "sound_test (inits_ok env) (test_server_status_management env)"
proof (cases rule: server_init_cases [of env server_config_default])
  case (2 s es)
  then show ?thesis
    by (simp add: test_server_status_management_def server_init_default_def sound_test_def Let_def
        server_get_status_def server_get_config_def get_initial_server_status_def)
qed (simp add: test_server_status_management_def server_init_default_def sound_test_failed)

lemma stats_test: "sound_test (inits_ok env) (test_server_stats_collection t env)"
proof (cases rule: server_init_cases [of env server_config_default])
  case (2 s es)
  then show ?thesis
    by (simp add: test_server_stats_collection_def server_init_default_def sound_test_def server_get_stats_def)
      (auto simp: server_ok_default)
qed (simp add: test_server_stats_collection_def server_init_default_def sound_test_failed)

lemma data_test: "sound_test (inits_ok env) (test_server_data_operations env)"
proof (cases rule: server_init_cases [of env server_config_default])
  case (2 s es)
  then show ?thesis
    by (simp add: test_server_data_operations_def server_init_default_def sound_test_def server_flush_ok
        server_save_data_def server_load_data_def Let_def)
qed (simp add: test_server_data_operations_def server_init_default_def sound_test_failed)

lemma version_test: "sound_test True test_server_version_info"
  by (simp add: test_server_version_info_def sound_test_def Let_def server_get_version_def server_get_build_info_def
      get_minimum_version_length_def get_minimum_build_info_length_def)

lemma destroy_test: "sound_test (inits_ok env) (test_server_destroy_safety env env2)"
proof (cases rule: server_init_cases [of env server_config_default])
  case (2 s es)
  have none: "server_destroy None = []" by (simp add: server_destroy_def)
  have held2: "held {} (case server_init env2 (Some server_config_default) of
      (s2, es2) \<Rightarrow> es2 @ (case s2 of None \<Rightarrow> [] | Some s2 \<Rightarrow> server_destroy (Some s2))) = Some {}"
    by (cases rule: server_init_cases [of env2 server_config_default]) simp_all
  obtain s2 es2 where i2: "server_init env2 (Some server_config_default) = (s2, es2)" by fastforce
  have "held {} ((es @ server_destroy (Some s)) @ es2 @ (case s2 of None \<Rightarrow> [] | Some s2 \<Rightarrow> server_destroy (Some s2))) = Some {}"
    using 2(4) held2 by (subst held_append) (simp add: i2)
  then show ?thesis
    using 2(1,2) by (simp add: test_server_destroy_safety_def server_init_default_def sound_test_def i2 none)
qed (simp add: test_server_destroy_safety_def server_init_default_def sound_test_failed)

lemma run_group:
  assumes "list_all2 sound_test bs ts" and "n = length ts"
  shows "\<exists>rs. run_test_group ts n = Inr (if list_all id bs then 0 else 1, rs)
    \<and> length rs = length bs \<and> list_all sound_run rs"
proof -
  have "\<exists>rs. run_tests ts = Inr rs \<and> map success rs = bs \<and> list_all sound_run rs"
    using assms(1) by (induction rule: list_all2_induct) (auto simp: sound_test_def sound_run_def)
  then obtain rs where rs: "run_tests ts = Inr rs" "map success rs = bs" "list_all sound_run rs" by blast
  have "length (filter (\<lambda>r. \<not> success r) rs) = 0 \<longleftrightarrow> list_all id bs"
    unfolding rs(2) [symmetric] by (simp add: list_all_iff filter_empty_conv)
  moreover have "length rs = length bs" using arg_cong [OF rs(2), of length] by simp
  ultimately show ?thesis using rs(1,3) assms(2) by (simp add: run_test_group_def Let_def)
qed

text \<open>The suite ends without a fault. It passes exactly when the six servers it insists on can be created,
  whether or not the last one can; every test gives back all memory and all mutexes it took, and succeeds
  exactly when its checks do.
\<close>

lemma server_tests_report:
  "\<exists>code failures runs. server_tests_main env = Inr (code, failures, runs)
    \<and> (code = 0 \<longleftrightarrow> inits_ok (env_default env) \<and> inits_ok (env_custom env) \<and> inits_ok (env_status env)
        \<and> inits_ok (env_stats env) \<and> inits_ok (env_data env) \<and> inits_ok (env_destroy env))
    \<and> length runs = 10 \<and> list_all sound_run runs"
proof -
  have "list_all2 sound_test [inits_ok (env_default env), inits_ok (env_custom env), True]
      [test_server_init_default (env_default env), test_server_init_custom_config (env_custom env),
       test_server_init_null_config (env_null env)]"
    by (simp add: default_test custom_test null_test)
  from run_group [OF this, of get_init_test_count] obtain rs1 where 1: "run_test_group
      [test_server_init_default (env_default env), test_server_init_custom_config (env_custom env),
       test_server_init_null_config (env_null env)] get_init_test_count
      = Inr (if list_all id [inits_ok (env_default env), inits_ok (env_custom env), True] then 0 else 1, rs1)"
    "length rs1 = 3" "list_all sound_run rs1"
    by (auto simp: get_init_test_count_def)
  have "list_all2 sound_test [True, True] [test_server_config_default, test_server_config_validation]"
    by (simp add: config_tests)
  from run_group [OF this, of get_config_test_count] obtain rs2 where 2: "run_test_group
      [test_server_config_default, test_server_config_validation] get_config_test_count
      = Inr (if list_all id [True, True] then 0 else 1, rs2)" "length rs2 = 2" "list_all sound_run rs2"
    by (auto simp: get_config_test_count_def)
  have "list_all2 sound_test [inits_ok (env_status env), inits_ok (env_stats env)]
      [test_server_status_management (env_status env), test_server_stats_collection (stats_clock env) (env_stats env)]"
    by (simp add: status_test stats_test)
  from run_group [OF this, of get_info_test_count] obtain rs3 where 3: "run_test_group
      [test_server_status_management (env_status env), test_server_stats_collection (stats_clock env) (env_stats env)]
      get_info_test_count = Inr (if list_all id [inits_ok (env_status env), inits_ok (env_stats env)] then 0 else 1, rs3)"
    "length rs3 = 2" "list_all sound_run rs3"
    by (auto simp: get_info_test_count_def)
  have "list_all2 sound_test [inits_ok (env_data env), True]
      [test_server_data_operations (env_data env), test_server_version_info]"
    by (simp add: data_test version_test)
  from run_group [OF this, of get_advanced_test_count] obtain rs4 where 4: "run_test_group
      [test_server_data_operations (env_data env), test_server_version_info] get_advanced_test_count
      = Inr (if list_all id [inits_ok (env_data env), True] then 0 else 1, rs4)" "length rs4 = 2" "list_all sound_run rs4"
    by (auto simp: get_advanced_test_count_def)
  have "list_all2 sound_test [inits_ok (env_destroy env)] [test_server_destroy_safety (env_destroy env) (env_destroy2 env)]"
    by (simp add: destroy_test)
  from run_group [OF this, of 1] obtain rs5 where 5: "run_test_group
      [test_server_destroy_safety (env_destroy env) (env_destroy2 env)] 1
      = Inr (if list_all id [inits_ok (env_destroy env)] then 0 else 1, rs5)" "length rs5 = 1" "list_all sound_run rs5"
    by auto
  show ?thesis
    unfolding server_tests_main_def 1(1) 2(1) 3(1) 4(1) 5(1) bindR_simps prod.case Let_def get_initial_test_count_def
    by (intro exI conjI, rule refl) (use 1(2,3) 2(2,3) 3(2,3) 4(2,3) 5(2,3) in auto)
qed

section \<open>A client on the wire\<close>

text \<open>Whether the connection is refused, or what the server's one \<^verbatim>\<open>recv\<close> sees of the two writes.\<close>

datatype wire = Refused | First_Write | Both_Writes

definition wire_bytes :: "wire \<Rightarrow> string \<Rightarrow> string" where
  "wire_bytes w command = command @ (if w = Both_Writes then [CHR 0x0A] else [])"

text \<open>What \<^verbatim>\<open>send_command\<close> prints of the answer, and the table of the server afterwards.\<close>

definition send_command ::
    "nat \<Rightarrow> bool \<Rightarrow> wire \<Rightarrow> storage_db \<Rightarrow> string \<Rightarrow> storage_fault + string option \<times> storage_db" where
  "send_command n alloc_ok w db command =
     (if w = Refused then Inr (None, db)
      else bindR (handle_client_connection n alloc_ok db (Some (wire_bytes w command))) (\<lambda>(es, db').
        Inr (case es of Send r # _ \<Rightarrow> (if r = [] then None else Some (take 1023 r)) | _ \<Rightarrow> None, db')))"

fun wire_session ::
    "nat \<Rightarrow> bool \<Rightarrow> (wire \<times> string) list \<Rightarrow> storage_db \<Rightarrow> storage_fault + string option list \<times> storage_db" where
  "wire_session n alloc_ok [] db = Inr ([], db)"
| "wire_session n alloc_ok ((w, command) # cs) db =
     bindR (send_command n alloc_ok w db command) (\<lambda>(line, db).
     bindR (wire_session n alloc_ok cs db) (\<lambda>(lines, db). Inr (line # lines, db)))"

definition test_commands :: "string list" where
  "test_commands = [''PING'', ''SET user_id 123'', ''GET user_id'', ''SET counter 100 60'', ''GET counter'', ''INFO'',
     ''DEL user_id'', ''GET user_id'']"

definition test_client_main ::
    "nat \<Rightarrow> bool \<Rightarrow> wire list \<Rightarrow> storage_db \<Rightarrow> storage_fault + string option list \<times> storage_db" where
  "test_client_main n alloc_ok ws db = wire_session n alloc_ok (zip ws test_commands) db"

text \<open>The server strips the line feed when it sees it, and needs none.\<close>

lemma strip_wire:
  assumes "is_cstr c" and "c \<noteq> []" and "last c \<noteq> CHR 0x0A" and "last c \<noteq> CHR 0x0D"
  shows "cstr (strip_line (wire_bytes w c)) = c"
proof -
  have last: "c ! (length c - Suc 0) \<noteq> CHR 0x0A" "c ! (length c - Suc 0) \<noteq> CHR 0x0D" "0 < length c"
    using assms(2-4) by (simp_all add: last_conv_nth)
  have "cstr (c @ NUL # rest) = c" for rest
  proof -
    have "\<forall>x \<in> set c. x \<noteq> NUL" using assms(1) by (auto simp: is_cstr_def)
    then show ?thesis by (simp add: cstr_def takeWhile_append2)
  qed
  then show ?thesis
    using last by (simp add: wire_bytes_def strip_line_def Let_def nth_append list_update_append)
qed

definition wire_word :: "string \<Rightarrow> bool" where
  "wire_word c = (is_cstr c \<and> c \<noteq> [] \<and> last c \<noteq> CHR 0x0A \<and> last c \<noteq> CHR 0x0D \<and> length c \<le> 1000)"

lemma test_words: "list_all wire_word test_commands"
  by (simp add: test_commands_def wire_word_def is_cstr_def)

lemma send_command_refines:
  assumes "db_fits db" and "64 \<le> n" and "card (dom (storage_lookup db)) < 2 ^ 64" and "w \<noteq> Refused"
    and "is_cstr c" and "c \<noteq> []" and "last c \<noteq> CHR 0x0A" and "last c \<noteq> CHR 0x0D" and "length c \<le> 1000"
    and "request_ok (parse_request c)"
  shows "\<exists>db'. send_command n True w db c = Inr (Some (fst (respond (storage_lookup db) (parse_request c))), db')
    \<and> storage_lookup db' = snd (respond (storage_lookup db) (parse_request c)) \<and> db_fits db'"
proof -
  define r where "r = fst (respond (storage_lookup db) (parse_request c))"
  obtain db' where run: "run_command n True db c = Inr (r, db')"
    "storage_lookup db' = snd (respond (storage_lookup db) (parse_request c))" "db_fits db'"
    using run_command_refines [OF assms(1,5,2,10,3)] by (auto simp: r_def)
  have "take 1023 (wire_bytes w c) = wire_bytes w c" "wire_bytes w c \<noteq> []"
    using assms(6,9) by (auto simp: wire_bytes_def)
  then have handled: "handle_client_connection n True db (Some (wire_bytes w c)) = Inr ([Send r, Close], db')"
    using run(1) strip_wire [OF assms(5-8), of w] by (simp add: handle_client_connection_def)
  have "response_line r" using handle_survives [OF db_fits_wf [OF assms(1)] assms(2) handled] by simp
  then have "r \<noteq> []" "take 1023 r = r" by (auto simp: response_line_def crlf_def)
  then show ?thesis using assms(4) handled run(2,3) by (simp add: send_command_def r_def [symmetric])
qed

lemma test_hashes: "unat (hash ''user_id'') < 1000" "unat (hash ''counter'') < 1000"
  by (simp_all add: hash_eval)

lemma test_requests:
  "parse_request ''PING'' = Ping" "parse_request ''SET user_id 123'' = Set ''user_id'' ''123''"
  "parse_request ''GET user_id'' = Get ''user_id''" "parse_request ''SET counter 100 60'' = Set ''counter'' ''100 60''"
  "parse_request ''GET counter'' = Get ''counter''" "parse_request ''INFO'' = Unknown"
  "parse_request ''DEL user_id'' = Unknown"
  by (simp_all add: parse_request_def strchr_split_def)

text \<open>A session is answered as the protocol answers its commands.\<close>

lemma wire_session_refines:
  assumes "64 \<le> n"
  shows "db_fits db \<Longrightarrow> card (dom (storage_lookup db)) + length cs < 2 ^ 64 \<Longrightarrow> length ws = length cs \<Longrightarrow>
    Refused \<notin> set ws \<Longrightarrow> list_all (\<lambda>c. wire_word c \<and> request_ok (parse_request c)) cs \<Longrightarrow>
    \<exists>db'. wire_session n True (zip ws cs) db = Inr (map Some (fst (respond_all (storage_lookup db) cs)), db')
      \<and> storage_lookup db' = snd (respond_all (storage_lookup db) cs)"
proof (induction cs arbitrary: ws db)
  case (Cons c cs)
  obtain w ws' where ws: "ws = w # ws'" using Cons.prems(3) by (cases ws) auto
  have few: "card (dom (storage_lookup db)) < 2 ^ 64" and w: "w \<noteq> Refused" using Cons.prems(2,4) by (auto simp: ws)
  obtain db1 where d: "send_command n True w db c = Inr (Some (fst (respond (storage_lookup db) (parse_request c))), db1)"
    "storage_lookup db1 = snd (respond (storage_lookup db) (parse_request c))" "db_fits db1"
    using send_command_refines [OF Cons.prems(1) assms few w] Cons.prems(5) by (auto simp: wire_word_def)
  have "card (dom (storage_lookup db1)) + length cs < 2 ^ 64"
    using serve_card [of True "storage_lookup db" "parse_request c"] Cons.prems(2) d(2) by simp
  from Cons.IH [OF d(3) this, of ws'] Cons.prems(3-5) obtain db' where
    "wire_session n True (zip ws' cs) db1 = Inr (map Some (fst (respond_all (storage_lookup db1) cs)), db')"
    "storage_lookup db' = snd (respond_all (storage_lookup db1) cs)"
    by (auto simp: ws)
  then show ?case using d(1,2) by (auto simp: ws split: prod.split)
qed simp

text \<open>Against a running server with any well-formed table, and however the two writes of a line arrive, the test
  client prints the answers below: the lifetime given to \<open>counter\<close> is taken for a part of the value, INFO and
  DEL are unknown, and the last GET, which is meant to fail, still finds the key.
\<close>

lemma test_client_report:
  assumes "db_fits db" and "64 \<le> n" and "card (dom (storage_lookup db)) + 8 < 2 ^ 64"
    and "length ws = 8" and "Refused \<notin> set ws"
  shows "\<exists>db'. test_client_main n True ws db = Inr (map Some [''PONG'' @ crlf, ''OK'' @ crlf, ''VALUE 123'' @ crlf,
        ''OK'' @ crlf, ''VALUE 100 60'' @ crlf, ''ERROR Unknown command'' @ crlf, ''ERROR Unknown command'' @ crlf,
        ''VALUE 123'' @ crlf], db')
    \<and> storage_lookup db' = (storage_lookup db)(''user_id'' \<mapsto> ''123'', ''counter'' \<mapsto> ''100 60'')"
proof -
  have "list_all (\<lambda>c. wire_word c \<and> request_ok (parse_request c)) test_commands"
    using test_words by (simp add: test_commands_def test_requests test_hashes)
  moreover have "respond_all (storage_lookup db) test_commands =
      ([''PONG'' @ crlf, ''OK'' @ crlf, ''VALUE 123'' @ crlf, ''OK'' @ crlf, ''VALUE 100 60'' @ crlf,
        ''ERROR Unknown command'' @ crlf, ''ERROR Unknown command'' @ crlf, ''VALUE 123'' @ crlf],
       (storage_lookup db)(''user_id'' \<mapsto> ''123'', ''counter'' \<mapsto> ''100 60''))"
    by (simp add: test_commands_def test_requests)
  ultimately show ?thesis
    using wire_session_refines [OF assms(2,1), of test_commands ws] assms(3-5)
    by (simp add: test_client_main_def) (simp add: test_commands_def)
qed

lemma test_client_report_witness:
  "\<exists>db'. test_client_main 64 True (replicate 8 First_Write) g_storage = Inr (map Some [''PONG'' @ crlf, ''OK'' @ crlf,
        ''VALUE 123'' @ crlf, ''OK'' @ crlf, ''VALUE 100 60'' @ crlf, ''ERROR Unknown command'' @ crlf,
        ''ERROR Unknown command'' @ crlf, ''VALUE 123'' @ crlf], db')
    \<and> storage_lookup db' = [''user_id'' \<mapsto> ''123'', ''counter'' \<mapsto> ''100 60'']"
  using test_client_report [OF db_fits_init, of 64 "replicate 8 First_Write"] by simp

end
