(* ===== verification/Client_Tests.thy ===== *)
theory Client_Tests
  imports CLI_Server
begin

text \<open>
  The test program of the client library (\<^verbatim>\<open>client/test_client.c\<close>) against the server: connect, PING, SET,
  GET, statistics, disconnect.

  \<^item> Each operation meets a network of its own, since the server closes a connection after one answer. The
    command system is the static state of the process, which the program never initialises.
  \<^item> What the program prints are values of \<open>client_test_line\<close>; \<open>value\<close> is its 256-byte buffer.
\<close>

section \<open>The program\<close>

datatype client_test_line =
    Client_Init_Failed | Client_Initialised | Connected | Connection_Failed string
  | Server_Responsive | Ping_Failed string
  | Set_Successful | Set_Failed string | Get_Successful string | Get_Failed string
  | Client_Statistics u64 u64 u64 u64 u32 | Disconnected | Test_Completed

record test_nets =
  net_connect :: net
  net_ping :: net
  net_set :: net
  net_get :: net
  net_end :: net

text \<open>SET, and GET when it succeeded.\<close>

definition test_set_get ::
    "test_nets \<Rightarrow> command_system \<Rightarrow> string \<Rightarrow> client_instance option \<Rightarrow>
      client_test_line list \<times> client_instance option \<times> sock_event list" where
  "test_set_get nets g value client =
     (case client_set (net_set nets) g client (Some ''test_key'') (Some ''test_value_123'') of
        (r, client, es) \<Rightarrow>
          if r = CLIENT_SUCCESS then
            (case client_get (net_get nets) client (Some ''test_key'') (Some value) 256 of
               (r, client, value', es') \<Rightarrow>
                 ([Set_Successful, if r = CLIENT_SUCCESS
                     then Get_Successful (case value' of None \<Rightarrow> [] | Some buf \<Rightarrow> cstr buf)
                     else Get_Failed (client_get_last_error client)], client, es @ es'))
          else ([Set_Failed (client_get_last_error client)], client, es))"

definition test_operations ::
    "test_nets \<Rightarrow> command_system \<Rightarrow> string \<Rightarrow> client_instance option \<Rightarrow>
      client_test_line list \<times> client_instance option \<times> sock_event list" where
  "test_operations nets g value client =
     (case client_ping (net_ping nets) client of
        (r, client, es1) \<Rightarrow>
          let ping = (if r = CLIENT_SUCCESS then Server_Responsive else Ping_Failed (client_get_last_error client))
          in case test_set_get nets g value client of
            (lines, client, es2) \<Rightarrow>
              let statistics = (case client_get_stats (net_end nets) client True of
                    None \<Rightarrow> []
                  | Some st \<Rightarrow> [Client_Statistics (operations_total st) (operations_failed st) (bytes_sent st)
                      (bytes_received st) (reconnect_count st)])
              in case client_disconnect (net_end nets) client of
                (_, client, es3) \<Rightarrow>
                  (Connected # ping # lines @ statistics @ [Disconnected], client, es1 @ es2 @ es3))"

definition client_test_main ::
    "bool \<Rightarrow> bool \<Rightarrow> bool \<Rightarrow> test_nets \<Rightarrow> command_system \<Rightarrow> string \<Rightarrow>
      drs_fault + int \<times> client_test_line list \<times> sock_event list" where
  "client_test_main client_ok enum_ok lock_ok nets g value =
     bindR (client_init_default client_ok enum_ok lock_ok (time_now (net_connect nets))) (\<lambda>client.
       if client = None then Inr (1, [Client_Init_Failed], [])
       else
         case client_connect (net_connect nets) client of
           (r, client, es1) \<Rightarrow>
             (case (if r = CLIENT_SUCCESS then test_operations nets g value client
                    else ([Connection_Failed (client_get_last_error client)], client, [])) of
                (lines, client, es2) \<Rightarrow>
                  Inr (0, Client_Initialised # lines @ [Test_Completed],
                    es1 @ es2 @ client_destroy (net_end nets) client)))"

section \<open>What it reports\<close>

text \<open>Without \<^verbatim>\<open>command_system_global_init\<close> the client library stores nothing.\<close>

lemma set_not_found:
  assumes "\<not> g_command_system_initialized g" and "cmd_system c \<noteq> None"
  shows "client_set net g (Some c) (Some key) (Some val) =
    (CLIENT_ERROR_PROTOCOL, Some (c\<lparr>last_error := ''Command 'SET' not found in system''\<rparr>), [])"
proof -
  have "get_command_secure g (Some ''SET'') = None" using assms(1) by (simp add: get_command_secure_def)
  then show ?thesis
    using assms(2)
    by (auto simp: client_set_def on_client_def client_set_body_def set_checks_def set_error_def snprintf_def)
qed

lemma send_counts:
  assumes "status c = STATUS_CONNECTED" and "m \<noteq> []" and "length m \<le> 4096"
    and "send_result net m = int (length m)" and "recv_reply net m = Some reply" and "length reply \<le> 4095"
  shows "\<exists>c'. connect_and_send net c m = (CLIENT_SUCCESS, c', Some (reply @ NUL # drop (length reply + 1) (stack_bytes net)),
      [Sock_Send (sockfd c) m])
    \<and> status c' = STATUS_CONNECTED \<and> sockfd c' = sockfd c \<and> cmd_system c' = cmd_system c
    \<and> operations_total (stats c') = operations_total (stats c) + 1
    \<and> operations_failed (stats c') = operations_failed (stats c)
    \<and> bytes_sent (stats c') = bytes_sent (stats c) + of_nat (length m)
    \<and> bytes_received (stats c') = bytes_received (stats c) + of_nat (length reply)
    \<and> reconnect_count (stats c') = reconnect_count (stats c)"
  using assms
  by (simp add: connect_and_send_def connect_locked_def client_send_command_def count_operation_def Let_def)

lemma server_ping:
  assumes "64 \<le> n"
  shows "handle_client_connection n True db (Some (''PING'' @ crlf)) = Inr ([Send (''PONG'' @ crlf), Close], db)"
proof -
  have "is_cstr ''PING''" "length ''PING'' \<le> 1021" by simp_all
  from handle_request [OF this, of n True db] show ?thesis by (simp add: run_command_def)
qed

text \<open>Against a server that can be reached, with any table, the program connects and gets its PING answered, but
  its SET fails, since the command system was never initialised, so it never tries GET; it counts one
  operation and six bytes each way, closes its one socket once, and still reports completion. The server's
  table is unchanged.
\<close>

lemma client_test_report:
  assumes "64 \<le> n" and "net_ok base" and "\<not> g_command_system_initialized g"
    and "net_connect nets = server_net n db base" and "net_ping nets = server_net n db base"
  shows "\<exists>es. client_test_main True True True nets g value = Inr (0,
      [Client_Initialised, Connected, Server_Responsive, Set_Failed ''Command 'SET' not found in system'',
       Client_Statistics 1 0 6 6 0, Disconnected, Test_Completed], es)
    \<and> es = dial base (cli_client (server_net n db base)) @
        [Sock_Send (socket_fd base) (''PING'' @ crlf), Sock_Close (socket_fd base)]
    \<and> server_after n db es = db"
proof -
  let ?net = "server_net n db base"
  define c where "c = cli_client ?net"
  have init: "client_init_default True True True (time_now base) = Inr (Some c)"
    by (simp add: client_init_default_def client_init_def cmd_system_init_def enum_system_init_eq c_def cli_client_def)
  have reach: "can_reach ?net c" using cli_client_ready(1) [of ?net] assms(2) by (simp add: c_def)
  obtain c1 where c1: "connect_locked ?net c = (CLIENT_SUCCESS, c1, dial base c)"
    "status c1 = STATUS_CONNECTED" "sockfd c1 = socket_fd base" "cmd_system c1 = cmd_system c" "stats c1 = stats c"
    using connect_reached [OF reach] by auto
  have "length (''PING'' @ crlf) = 6" "length (''PONG'' @ crlf) = 6" by (simp_all add: crlf_def)
  then obtain c2 buf where c2: "connect_and_send ?net c1 (''PING'' @ crlf) = (CLIENT_SUCCESS, c2, Some buf,
      [Sock_Send (socket_fd base) (''PING'' @ crlf)])"
    "status c2 = STATUS_CONNECTED" "sockfd c2 = socket_fd base" "cmd_system c2 = cmd_system c"
    "operations_total (stats c2) = 1" "operations_failed (stats c2) = 0" "bytes_sent (stats c2) = 6"
    "bytes_received (stats c2) = 6" "reconnect_count (stats c2) = 0"
    using send_counts [OF c1(2), of "''PING'' @ crlf" ?net "''PONG'' @ crlf"] c1 server_ping [OF assms(1), of db]
    by (auto simp: c_def cli_client_def)
  define c3 where "c3 = c2\<lparr>last_error := ''Command 'SET' not found in system''\<rparr>"
  have set: "test_set_get nets g value (Some c2)
      = ([Set_Failed ''Command 'SET' not found in system''], Some c3, [])"
    using set_not_found [OF assms(3), of c2] c2(4)
    by (simp add: test_set_get_def c3_def client_get_last_error_def c_def cli_client_def)
  have c3: "status c3 = STATUS_CONNECTED" "sockfd c3 = socket_fd base" "stats c3 = stats c2"
    by (simp_all add: c3_def c2)
  obtain st where st: "client_get_stats (net_end nets) (Some c3) True = Some st" "operations_total st = 1"
    "operations_failed st = 0" "bytes_sent st = 6" "bytes_received st = 6" "reconnect_count st = 0"
    using c2(5-9) by (cases "connect_time c3 > 0") (simp_all add: client_get_stats_def c3)
  have fd: "0 \<le> socket_fd base" using assms(2) by (simp add: net_ok_def)
  obtain c4 r where c4: "client_disconnect (net_end nets) (Some c3) = (r, Some c4, [Sock_Close (socket_fd base)])"
    "status c4 = STATUS_DISCONNECTED"
    using c3 fd by (auto simp: client_disconnect_def on_client_def Let_def)
  have run: "client_test_main True True True nets g value = Inr (0,
      [Client_Initialised, Connected, Server_Responsive, Set_Failed ''Command 'SET' not found in system'',
       Client_Statistics 1 0 6 6 0, Disconnected, Test_Completed],
      dial base c @ [Sock_Send (socket_fd base) (''PING'' @ crlf), Sock_Close (socket_fd base)])"
    using init c1(1) c2(1) set st c4
    by (simp add: client_test_main_def assms(4,5) client_connect_def on_client_def test_operations_def client_ping_def
        send_line_def client_destroy_def Let_def)
  show ?thesis
    unfolding run c_def [symmetric]
    by (intro exI conjI, rule refl, rule refl, simp only: server_after_dial)
      (use server_ping [OF assms(1), of db] in \<open>simp add: server_after_def\<close>)
qed

lemma client_test_report_witness:
  "\<exists>es. client_test_main True True True \<lparr>net_connect = server_net 64 g_storage loop_net,
      net_ping = server_net 64 g_storage loop_net, net_set = refusing_net, net_get = refusing_net,
      net_end = refusing_net\<rparr> command_system_start (replicate 256 NUL) = Inr (0,
      [Client_Initialised, Connected, Server_Responsive, Set_Failed ''Command 'SET' not found in system'',
       Client_Statistics 1 0 6 6 0, Disconnected, Test_Completed], es)"
proof -
  have "\<not> g_command_system_initialized command_system_start" by (simp add: command_system_start_def)
  then show ?thesis using client_test_report [OF order_refl witness_nets(1), of command_system_start _ g_storage] by auto
qed

end
