(* ===== verification/Drs_Sequence.thy ===== *)
theory Drs_Sequence
  imports Drs_Eval
begin

text \<open>
  The sequence of outputs of the DRS generator. The generator is meant to be unpredictable; its README says
  that not even both seeds give away the next output. The lemmas show what its two congruences modulo powers
  of two make of that: only 63 of the 128 bits of the seeds matter, the outputs repeat, and the parity of the
  leading digit alternates.
\<close>

section \<open>Congruential generators modulo a power of two\<close>

locale congruential =
  fixes step :: "u64 \<Rightarrow> u64" and mul inc k :: nat
  assumes step_unat: "unat (step s) = (mul * unat s + inc) mod 2 ^ k"
    and odd_mul: "odd mul"
    and odd_inc: "odd inc"
    and modulus: "0 < k"
begin

lemma step_parity: "even (unat (step s)) \<longleftrightarrow> odd (unat s)"
proof -
  have "even (unat (step s)) \<longleftrightarrow> even (mul * unat s + inc)"
    using modulus by (simp add: step_unat dvd_mod_iff)
  then show ?thesis using odd_mul odd_inc by simp
qed

lemma iterate_parity: "even (unat ((step ^^ n) s)) \<longleftrightarrow> (even n \<longleftrightarrow> even (unat s))"
  by (induction n) (auto simp: step_parity)

text \<open>A step sees only the residue of its state.\<close>

lemma affine_residue: "(mul * (x mod 2 ^ k) + inc) mod 2 ^ k = (mul * x + inc) mod 2 ^ k"
  by (metis mod_add_left_eq mod_mult_right_eq)

lemma step_residue:
  assumes "unat s mod 2 ^ k = unat t mod 2 ^ k"
  shows "step s = step t"
proof -
  have "unat (step s) = unat (step t)"
    using assms by (metis step_unat affine_residue)
  then show ?thesis by (simp only: word_unat_eq_iff)
qed

lemma iterate_residue:
  assumes "unat s mod 2 ^ k = unat t mod 2 ^ k"
  shows "(step ^^ Suc n) s = (step ^^ Suc n) t"
  using step_residue [OF assms] by (simp add: funpow_swap1 [of step])

lemma iterate_affine: "unat ((step ^^ n) s) mod 2 ^ k = ((\<lambda>x. mul * x + inc) ^^ n) (unat s) mod 2 ^ k"
proof (induction n)
  case (Suc n)
  define y where "y = ((\<lambda>x. mul * x + inc) ^^ n) (unat s)"
  have "unat ((step ^^ Suc n) s) mod 2 ^ k = (mul * (unat ((step ^^ n) s) mod 2 ^ k) + inc) mod 2 ^ k"
    by (simp add: step_unat affine_residue)
  also have "\<dots> = (mul * y + inc) mod 2 ^ k" unfolding Suc y_def by (rule affine_residue)
  finally show ?case by (simp add: y_def)
qed simp

text \<open>Iterating an affine map \<open>2 ^ j\<close> times is affine and the identity modulo \<open>2 ^ j\<close>.\<close>

lemma affine_double:
  "\<exists>q c. (\<forall>x. ((\<lambda>x. mul * x + inc) ^^ (2 ^ j)) x = (2 ^ j * q + 1) * x + 2 ^ j * c) \<and> odd (2 ^ j * q + 1)"
proof (induction j)
  case 0
  have "mul = (mul - 1) + 1" using odd_mul by (cases mul) auto
  then show ?case using odd_mul by (intro exI [of _ "mul - 1"] exI [of _ inc]) simp
next
  case (Suc j)
  let ?f = "\<lambda>x. mul * x + inc"
  from Suc obtain q c where it: "\<And>x. (?f ^^ (2 ^ j)) x = (2 ^ j * q + 1) * x + 2 ^ j * c" and "odd (2 ^ j * q + 1)"
    by blast
  then obtain r where r: "2 ^ j * q + 2 = 2 * r" by (metis add_2_eq_Suc' add_Suc_right dvdE even_Suc Suc_eq_plus1)
  have "(?f ^^ (2 ^ Suc j)) x = (2 ^ Suc j * (q * r) + 1) * x + 2 ^ Suc j * (c * r)" for x
  proof -
    have "(?f ^^ (2 ^ Suc j)) x = (?f ^^ (2 ^ j)) ((?f ^^ (2 ^ j)) x)"
      by (simp add: mult_2 funpow_add)
    also have "\<dots> = (2 ^ j * q + 1) * ((2 ^ j * q + 1) * x + 2 ^ j * c) + 2 ^ j * c" by (simp only: it)
    also have "\<dots> = (2 ^ j * q * (2 ^ j * q + 2) + 1) * x + 2 ^ j * c * (2 ^ j * q + 2)" by (simp add: algebra_simps)
    finally show ?thesis unfolding r by (simp add: algebra_simps)
  qed
  then show ?case by (intro exI [of _ "q * r"] exI [of _ "c * r"]) simp
qed

lemma iterate_period: "(step ^^ Suc (n + 2 ^ k * i)) s = (step ^^ Suc n) s"
proof (induction i)
  case (Suc i)
  have once: "unat ((step ^^ (2 ^ k)) t) mod 2 ^ k = unat t mod 2 ^ k" for t
  proof -
    obtain q c where "\<And>x. ((\<lambda>x. mul * x + inc) ^^ (2 ^ k)) x = (2 ^ k * q + 1) * x + 2 ^ k * c"
      using affine_double [of k] by blast
    then have "unat ((step ^^ (2 ^ k)) t) mod 2 ^ k = (unat t + 2 ^ k * (q * unat t + c)) mod 2 ^ k"
      by (simp add: iterate_affine algebra_simps)
    then show ?thesis by simp
  qed
  have "Suc (n + 2 ^ k * Suc i) = Suc (n + 2 ^ k * i) + 2 ^ k" by simp
  then have "(step ^^ Suc (n + 2 ^ k * Suc i)) s = (step ^^ Suc (n + 2 ^ k * i)) ((step ^^ (2 ^ k)) s)"
    by (simp only: funpow_add o_apply)
  also have "\<dots> = (step ^^ Suc (n + 2 ^ k * i)) s" by (rule iterate_residue) (rule once)
  also have "\<dots> = (step ^^ Suc n) s" by (rule Suc)
  finally show ?case .
qed simp

end

interpretation lcg1: congruential lcg1_next 1103515245 12345 31
  by unfold_locales (simp_all add: lcg1_next_unat)

interpretation lcg2: congruential lcg2_next 1664525 1013904223 32
  by unfold_locales (simp_all add: lcg2_next_unat)

section \<open>The outputs\<close>

definition drs_after :: "nat \<Rightarrow> drs_generator \<Rightarrow> drs_generator" where
  "drs_after n g = ((\<lambda>g. snd (drs_next g)) ^^ n) g"

definition drs_output :: "nat \<Rightarrow> drs_generator \<Rightarrow> u64" where
  "drs_output n g = fst (drs_next (drs_after n g))"

lemma drs_after_state:
  "drs_after n g = \<lparr>seed1 = (lcg1_next ^^ n) (seed1 g), seed2 = (lcg2_next ^^ n) (seed2 g),
     counter = counter g + of_nat n\<rparr>"
  by (induction n) (simp_all add: drs_after_def drs_next_def Let_def)

lemma drs_output_state:
  "drs_output n g = nonlinearly_combine ((lcg1_next ^^ Suc n) (seed1 g)) ((lcg2_next ^^ Suc n) (seed2 g))
     (counter g + of_nat n + 1)"
  by (simp add: drs_output_def drs_after_state drs_next_def Let_def)

lemma drs_init_after: "drs_init s1 s2 = drs_after 10 \<lparr>seed1 = s1, seed2 = s2, counter = 0\<rparr>"
  by (simp add: drs_init_def drs_after_def)

text \<open>Only the last digit of the counter enters an output.\<close>

lemma combine_index:
  assumes "unat i mod 10 = unat j mod 10"
  shows "nonlinearly_combine a b i = nonlinearly_combine a b j"
proof -
  have "unat (i mod 10) = unat (j mod 10)" using assms by (simp add: unat_mod_distrib)
  then have "i mod 10 = j mod 10" by (simp only: word_unat_eq_iff)
  then show ?thesis by (simp add: nonlinearly_combine_def)
qed

lemma drs_init_output:
  "drs_output n (drs_init s1 s2) = nonlinearly_combine ((lcg1_next ^^ Suc (n + 10)) s1) ((lcg2_next ^^ Suc (n + 10)) s2)
     (of_nat (n + 11))"
proof -
  have "(f ^^ Suc n) ((f ^^ 10) s) = (f ^^ Suc (n + 10)) s" for f :: "u64 \<Rightarrow> u64" and s
    by (simp only: funpow_add [of "Suc n" 10 f, unfolded add_Suc] o_apply)
  moreover have "of_nat 10 + of_nat n + 1 = (of_nat (n + 11) :: u64)" by simp
  ultimately show ?thesis
    by (simp only: drs_output_state drs_init_after drs_after_state drs_generator.simps add_0)
qed

text \<open>C31:
  Seeds that agree modulo \<open>2 ^ 31\<close> and \<open>2 ^ 32\<close>, so in 63 of their 128 bits, give the same outputs, and each
  output comes again after every \<open>5 * 2 ^ 32\<close> calls, as long as the call counter does not wrap.
\<close>

theorem drs_stream_repeats:
  assumes "unat s1 mod 2 ^ 31 = unat t1 mod 2 ^ 31" and "unat s2 mod 2 ^ 32 = unat t2 mod 2 ^ 32"
    and "n + 5 * 2 ^ 32 * i + 11 < 2 ^ 64"
  shows "drs_output (n + 5 * 2 ^ 32 * i) (drs_init s1 s2) = drs_output n (drs_init t1 t2)"
proof -
  define m where "m = n + 5 * 2 ^ 32 * i"
  have m: "m + 10 = (n + 10) + 2 ^ 31 * (10 * i)" "m + 10 = (n + 10) + 2 ^ 32 * (5 * i)"
    "m + 11 = n + 11 + 10 * (2 ^ 31 * i)"
    by (simp_all add: m_def)
  have "(lcg1_next ^^ Suc (m + 10)) s1 = (lcg1_next ^^ Suc (n + 10)) t1"
    unfolding m(1) lcg1.iterate_period by (rule lcg1.iterate_residue [OF assms(1)])
  moreover have "(lcg2_next ^^ Suc (m + 10)) s2 = (lcg2_next ^^ Suc (n + 10)) t2"
    unfolding m(2) lcg2.iterate_period by (rule lcg2.iterate_residue [OF assms(2)])
  moreover have "nonlinearly_combine a b (of_nat (m + 11)) = nonlinearly_combine a b (of_nat (n + 11))" for a b
  proof (rule combine_index)
    have "unat (of_nat k :: u64) = k" if "k < 2 ^ 64" for k using that by (simp add: unat_of_nat)
    moreover have "m + 11 < 2 ^ 64" "n + 11 < 2 ^ 64" using assms(3) by (simp_all add: m_def)
    ultimately have "unat (of_nat (m + 11) :: u64) = m + 11" "unat (of_nat (n + 11) :: u64) = n + 11"
      by blast+
    then show "unat (of_nat (m + 11) :: u64) mod 10 = unat (of_nat (n + 11) :: u64) mod 10"
      by (simp only: m(3) mod_mult_self2)
  qed
  ultimately show ?thesis unfolding m_def [symmetric] drs_init_output by simp
qed

theorem drs_stream_repeats_witness:
  "drs_output (3 + 5 * 2 ^ 32 * 7) (drs_init (1000 + 2 ^ 31) (2000 + 2 ^ 63)) = drs_output 3 (drs_init 1000 2000)"
  by (rule drs_stream_repeats) simp_all

section \<open>The leading digit\<close>

lemma digit_fold_leading:
  fixes f :: "nat \<Rightarrow> u64"
  assumes "m \<le> 18" and "\<And>i. unat (f i) < 10"
  shows "unat (fold (\<lambda>i r. r * 10 + f i) [0..<Suc m] 0) div 10 ^ m = unat (f 0)"
  using assms(1)
proof (induction m)
  case (Suc m)
  define r where "r = fold (\<lambda>i r. r * 10 + f i) [0..<Suc m] 0"
  have "unat r < 10 ^ Suc m" unfolding r_def by (rule digit_fold_bound) (use Suc.prems assms(2) in auto)
  moreover have "(10 :: nat) ^ Suc m \<le> 10 ^ 18" using Suc.prems by (intro power_increasing) auto
  ultimately have "unat r * 10 + unat (f (Suc m)) < 2 ^ 64" using assms(2) [of "Suc m"] by simp
  then have "unat (r * 10 + f (Suc m)) = unat r * 10 + unat (f (Suc m))"
    using unat_mult_lem [of r 10] unat_add_lem [of "r * 10" "f (Suc m)"] by simp
  moreover have "unat r div 10 ^ m = unat (f 0)" using Suc by (simp add: r_def)
  ultimately show ?case
    using assms(2) [of "Suc m"] by (simp add: r_def div_mult2_eq)
qed simp

lemma digits_first: "(if 0 < length (digits 20 a) then digits 20 a ! 0 else 0) = a mod 10"
proof -
  have "digits 20 a = (if a > 0 then a mod 10 # digits 19 (a div 10) else [])"
    using digits.simps(2) [of 19 a] by simp
  then show ?thesis by (cases "a = 0") (simp_all add: word_gt_0)
qed

lemma combine_leading_parity:
  assumes "unat a < 10 ^ 10" and "unat b < 10 ^ 10" and "10 ^ 9 \<le> unat (nonlinearly_combine a b i)"
  shows "even (unat (nonlinearly_combine a b i) div 10 ^ 9) \<longleftrightarrow> even (unat a + unat b + unat i)"
proof -
  define n where "n = (if length (digits 20 a) > length (digits 20 b)
    then length (digits 20 a) else length (digits 20 b))"
  define m where "m = (if n = 0 then 1 else n)"
  define f where "f i' = ((if i' < length (digits 20 a) then digits 20 a ! i' else 0) +
    (if i' < length (digits 20 b) then digits 20 b ! i' else 0) + i mod 10) mod 10" for i'
  have c: "nonlinearly_combine a b i = fold (\<lambda>i r. r * 10 + f i) [0..<m] 0"
    unfolding nonlinearly_combine_def Let_def f_def m_def n_def ..
  have f: "unat (f i') < 10" for i'
  proof -
    have "f i' < 10" unfolding f_def by (rule word_mod_less_divisor) simp
    then show ?thesis by (simp add: word_less_nat_alt)
  qed
  have "length (digits 20 a) \<le> 10" "length (digits 20 b) \<le> 10" using assms(1,2) digits_small by blast+
  then have "m \<le> 10" by (simp add: m_def n_def)
  moreover have "\<not> m \<le> 9"
  proof
    assume "m \<le> 9"
    then have "unat (nonlinearly_combine a b i) < 10 ^ m" unfolding c by (intro digit_fold_bound f) simp
    also have "(10 :: nat) ^ m \<le> 10 ^ 9" using \<open>m \<le> 9\<close> by (intro power_increasing) auto
    finally show False using assms(3) by simp
  qed
  ultimately have m: "m = Suc 9" by simp
  have "unat (nonlinearly_combine a b i) div 10 ^ 9 = unat (f 0)"
    unfolding c m by (rule digit_fold_leading [OF _ f]) simp
  also have "\<dots> = unat ((a mod 10 + b mod 10 + i mod 10) mod 10)" by (simp only: f_def digits_first)
  also have "\<dots> = (unat a mod 10 + unat b mod 10 + unat i mod 10) mod 10"
    by (simp add: unat_mod_distrib unat_word_ariths)
  finally show ?thesis by (simp add: dvd_mod_iff)
qed

text \<open>The parity of the leading digit alternates from call to call: of two outputs with ten digits, the leading
  digits have equal parity exactly when an even number of calls lies between them. One output gives this bit
  of every later one away.
\<close>

lemma drs_leading_digit:
  assumes "10 ^ 9 \<le> unat (drs_output n g)" and "10 ^ 9 \<le> unat (drs_output m g)"
  shows "(even (unat (drs_output n g) div 10 ^ 9) \<longleftrightarrow> even (unat (drs_output m g) div 10 ^ 9)) \<longleftrightarrow> (even n \<longleftrightarrow> even m)"
proof -
  have "even (unat (drs_output n g) div 10 ^ 9)
      \<longleftrightarrow> (even n \<longleftrightarrow> odd (unat (seed1 g) + unat (seed2 g) + unat (counter g)))"
    if "10 ^ 9 \<le> unat (drs_output n g)" for n
  proof -
    have "even (unat (counter g + of_nat n + 1)) \<longleftrightarrow> (even n \<longleftrightarrow> odd (unat (counter g)))"
      by (auto simp: unat_word_ariths unat_of_nat dvd_mod_iff)
    moreover have "even (unat ((lcg1_next ^^ Suc n) (seed1 g))) \<longleftrightarrow> (even (Suc n) \<longleftrightarrow> even (unat (seed1 g)))"
      "even (unat ((lcg2_next ^^ Suc n) (seed2 g))) \<longleftrightarrow> (even (Suc n) \<longleftrightarrow> even (unat (seed2 g)))"
      by (rule lcg1.iterate_parity lcg2.iterate_parity)+
    moreover have "unat ((lcg1_next ^^ Suc n) (seed1 g)) < 10 ^ 10" "unat ((lcg2_next ^^ Suc n) (seed2 g)) < 10 ^ 10"
      using lcg_small by simp_all
    ultimately show ?thesis
      using combine_leading_parity [OF _ _ that [unfolded drs_output_state]]
      by (simp add: drs_output_state del: funpow.simps) blast
  qed
  then show ?thesis using assms by blast
qed

lemma drs_leading_digit_witness:
  "even (unat (drs_output 0 (drs_init 13621954 32541392)) div 10 ^ 9)
     \<noteq> even (unat (drs_output 1 (drs_init 13621954 32541392)) div 10 ^ 9)"
proof -
  have "unat (drs_output 0 (drs_init 13621954 32541392)) = 3087774975"
    "unat (drs_output 1 (drs_init 13621954 32541392)) = 8254046016"
    by (simp_all add: drs_output_def drs_after_def drs_init_eval drs_next_values)
  then show ?thesis using drs_leading_digit [of 0 "drs_init 13621954 32541392" 1] by simp
qed

end
