(* ===== verification/Drs_Tests.thy ===== *)
theory Drs_Tests
  imports Drs_Sequence
begin

text \<open>
  The two test programs of the generator, \<^verbatim>\<open>test_exact.c\<close> and \<^verbatim>\<open>test_drs.c\<close>: the numbers they print. Clock and
  process number are arguments. \<^verbatim>\<open>drs_bytes\<close>, which \<^verbatim>\<open>test_drs.c\<close> calls and no file defines, is the argument
  \<open>drs_bytes\<close>.
\<close>

section \<open>The specification test\<close>

fun draws :: "nat \<Rightarrow> drs_generator \<Rightarrow> u64 list \<times> drs_generator" where
  "draws 0 gen = ([], gen)"
| "draws (Suc k) gen = (case drs_next gen of (v, gen) \<Rightarrow> case draws k gen of (vs, gen) \<Rightarrow> (v # vs, gen))"

definition test_exact_specification :: "(u64 \<times> u64) list" where
  "test_exact_specification = map (\<lambda>v. (v, v mod 100)) (fst (draws 10 (drs_init 13621954 32541392)))"

definition test_security_properties :: "u64 list \<times> u64 list \<times> u64 list" where
  "test_security_properties =
     (let gen1 = drs_init 1000 2000; gen2 = drs_init 1000 2000; gen3 = drs_init 1001 2000
      in (fst (draws 5 gen1), fst (draws 5 gen2), fst (draws 5 gen3)))"

fun range_draws :: "nat \<Rightarrow> u64 \<Rightarrow> u64 \<Rightarrow> drs_generator \<Rightarrow> drs_fault + u64 list \<times> drs_generator" where
  "range_draws 0 lo hi gen = Inr ([], gen)"
| "range_draws (Suc k) lo hi gen =
     bindR (drs_range gen lo hi) (\<lambda>(v, gen). bindR (range_draws k lo hi gen) (\<lambda>(vs, gen). Inr (v # vs, gen)))"

definition test_aslr_application :: "int \<Rightarrow> int \<Rightarrow> drs_fault + u64 list" where
  "test_aslr_application now pid =
     bindR (range_draws 5 0 (0x100000 - 1) (drs_init (of_int now) (of_int pid))) (\<lambda>(offsets, gen).
       Inr (map (\<lambda>offset. 0x400000 + offset) offsets))"

fun key_parts :: "nat \<Rightarrow> drs_generator \<Rightarrow> u64 list" where
  "key_parts 0 gen = []"
| "key_parts (Suc k) gen =
     (case drs_next gen of (part1, gen) \<Rightarrow> case drs_next gen of (part2, gen) \<Rightarrow>
       (push_bit 32 part1 OR (part2 AND 0xFFFFFFFF)) # key_parts k gen)"

definition test_crypto_application :: "int \<Rightarrow> int \<Rightarrow> u64 list" where
  "test_crypto_application now pid = key_parts 8 (drs_init (of_int now XOR 0xDEADBEEF) (of_int pid * 0xCAFEBABE))"

definition test_exact_main ::
    "int \<Rightarrow> int \<Rightarrow> int \<Rightarrow> drs_fault + (u64 \<times> u64) list \<times> (u64 list \<times> u64 list \<times> u64 list) \<times> u64 list \<times> u64 list" where
  "test_exact_main now now' pid =
     bindR (test_aslr_application now pid) (\<lambda>aslr.
       Inr (test_exact_specification, test_security_properties, aslr, test_crypto_application now' pid))"

section \<open>The statistical test\<close>

datatype drs_test_fault = Drs_Fault drs_fault | Counts_Overrun

text \<open>The loop that counts \<open>k\<close> samples in \<open>counts\<close>.\<close>

fun count_samples :: "nat \<Rightarrow> drs_generator \<Rightarrow> int list \<Rightarrow> drs_test_fault + int list" where
  "count_samples 0 gen counts = Inr counts"
| "count_samples (Suc k) gen counts =
     (case drs_range gen 0 9 of
        Inl f \<Rightarrow> Inl (Drs_Fault f)
      | Inr (val, gen) \<Rightarrow>
          if unat val < length counts then
            count_samples k gen (counts[unat val := counts ! unat val + 1])
          else Inl Counts_Overrun)"

definition test_drs_generator ::
    "(drs_generator \<Rightarrow> nat \<Rightarrow> 8 word list \<times> drs_generator) \<Rightarrow> int \<Rightarrow>
      drs_test_fault + u64 list \<times> 8 word list \<times> int list" where
  "test_drs_generator drs_bytes now =
     (let seed1 = of_int now; seed2 = seed1 * 0x123456789ABCDEF
      in case range_draws 10 0 99 (drs_init seed1 seed2) of
           Inl f \<Rightarrow> Inl (Drs_Fault f)
         | Inr (numbers, gen) \<Rightarrow>
             (case drs_bytes gen 16 of
                (bytes, gen) \<Rightarrow>
                  bindR (count_samples 10000 gen (replicate 10 0)) (\<lambda>counts. Inr (numbers, bytes, counts))))"

definition test_drs_main ::
    "(drs_generator \<Rightarrow> nat \<Rightarrow> 8 word list \<times> drs_generator) \<Rightarrow> int \<Rightarrow> int \<Rightarrow> int \<Rightarrow>
      drs_test_fault + 8 word list \<times> u64 \<times> u64 list \<times> 8 word list \<times> int list" where
  "test_drs_main drs_bytes now1 now2 now3 =
     (let session_seed1 = of_int now1 XOR 0xDEADBEEF;
          session_key = fst (drs_bytes (drs_init session_seed1 (session_seed1 * 0xCAFEBABE)) 32);
          aslr_seed1 = of_int now2 XOR 0xABCD1234
      in case drs_range (drs_init aslr_seed1 (aslr_seed1 * 0x987654321)) 0 (0x10000 - 1) of
           Inl f \<Rightarrow> Inl (Drs_Fault f)
         | Inr (offset, _) \<Rightarrow>
             bindR (test_drs_generator drs_bytes now3) (\<lambda>(numbers, bytes, counts).
               Inr (session_key, 0x100000 + offset, numbers, bytes, counts)))"

section \<open>What they print\<close>

lemma draws_eval:
  "draws (numeral k) gen =
     (case drs_next gen of (v, gen) \<Rightarrow> case draws (pred_numeral k) gen of (vs, gen) \<Rightarrow> (v # vs, gen))"
  by (simp add: numeral_eq_Suc)

text \<open>The generators of the two tests, call by call.\<close>

lemma spec_start: "drs_init 13621954 32541392 = \<lparr>seed1 = 1839318312, seed2 = 2277211242, counter = 10\<rparr>"
  by (simp add: drs_init_eval lcg_values)

lemma spec_steps0:
  "drs_next \<lparr>seed1 = 1839318312, seed2 = 2277211242, counter = 10\<rparr>
     = (3087774975, \<lparr>seed1 = 484659777, seed2 = 4209017025, counter = 11\<rparr>)"
  "drs_next \<lparr>seed1 = 484659777, seed2 = 4209017025, counter = 11\<rparr>
     = (8254046016, \<lparr>seed1 = 790627302, seed2 = 4294665004, counter = 12\<rparr>)"
  "drs_next \<lparr>seed1 = 790627302, seed2 = 4294665004, counter = 12\<rparr>
     = (9527846864, \<lparr>seed1 = 1001778471, seed2 = 352486555, counter = 13\<rparr>)"
  "drs_next \<lparr>seed1 = 1001778471, seed2 = 352486555, counter = 13\<rparr>
     = (4412852915, \<lparr>seed1 = 769788884, seed2 = 1099460926, counter = 14\<rparr>)"
  "drs_next \<lparr>seed1 = 769788884, seed2 = 1099460926, counter = 14\<rparr>
     = (1365228330, \<lparr>seed1 = 1657917821, seed2 = 4236863365, counter = 15\<rparr>)"
  by (simp_all add: drs_next_values)

lemma spec_steps1:
  "drs_next \<lparr>seed1 = 1657917821, seed2 = 4236863365, counter = 15\<rparr>
     = (6288827460, \<lparr>seed1 = 1155037298, seed2 = 3936695072, counter = 16\<rparr>)"
  "drs_next \<lparr>seed1 = 1155037298, seed2 = 3936695072, counter = 16\<rparr>
     = (7721750032, \<lparr>seed1 = 1594504387, seed2 = 4149300223, counter = 17\<rparr>)"
  "drs_next \<lparr>seed1 = 1594504387, seed2 = 4149300223, counter = 17\<rparr>
     = (4241828801, \<lparr>seed1 = 1698566464, seed2 = 2612947282, counter = 18\<rparr>)"
  "drs_next \<lparr>seed1 = 1698566464, seed2 = 2612947282, counter = 18\<rparr>
     = (7794407350, \<lparr>seed1 = 472844409, seed2 = 1276311689, counter = 19\<rparr>)"
  "drs_next \<lparr>seed1 = 472844409, seed2 = 1276311689, counter = 19\<rparr>
     = (6484785333, \<lparr>seed1 = 456239550, seed2 = 3989645396, counter = 20\<rparr>)"
  by (simp_all add: drs_next_values)

lemma gen1_start: "drs_init 1000 2000 = \<lparr>seed1 = 665566846, seed2 = 2056364394, counter = 10\<rparr>"
  by (simp add: drs_init_eval lcg_values)

lemma gen1_steps0:
  "drs_next \<lparr>seed1 = 665566846, seed2 = 2056364394, counter = 10\<rparr>
     = (7527920622, \<lparr>seed1 = 194949087, seed2 = 1065247169, counter = 11\<rparr>)"
  "drs_next \<lparr>seed1 = 194949087, seed2 = 1065247169, counter = 11\<rparr>
     = (8959682764, \<lparr>seed1 = 1906377772, seed2 = 1554370604, counter = 12\<rparr>)"
  "drs_next \<lparr>seed1 = 1906377772, seed2 = 1554370604, counter = 12\<rparr>
     = (1501294215, \<lparr>seed1 = 1457282805, seed2 = 1444416923, counter = 13\<rparr>)"
  "drs_next \<lparr>seed1 = 1457282805, seed2 = 1444416923, counter = 13\<rparr>
     = (2097273677, \<lparr>seed1 = 1195459722, seed2 = 2234934846, counter = 14\<rparr>)"
  "drs_next \<lparr>seed1 = 1195459722, seed2 = 2234934846, counter = 14\<rparr>
     = (5845381648, \<lparr>seed1 = 1181248251, seed2 = 2835142789, counter = 15\<rparr>)"
  by (simp_all add: drs_next_values)

lemma gen3_start: "drs_init 1001 2000 = \<lparr>seed1 = 382213383, seed2 = 2056364394, counter = 10\<rparr>"
  by (simp add: drs_init_eval lcg_values)

lemma gen3_steps0:
  "drs_next \<lparr>seed1 = 382213383, seed2 = 2056364394, counter = 10\<rparr>
     = (6401035883, \<lparr>seed1 = 1719053876, seed2 = 1065247169, counter = 11\<rparr>)"
  "drs_next \<lparr>seed1 = 1719053876, seed2 = 1065247169, counter = 11\<rparr>
     = (5610976463, \<lparr>seed1 = 970208349, seed2 = 1554370604, counter = 12\<rparr>)"
  "drs_next \<lparr>seed1 = 970208349, seed2 = 1554370604, counter = 12\<rparr>
     = (266448535, \<lparr>seed1 = 1681707474, seed2 = 1444416923, counter = 13\<rparr>)"
  "drs_next \<lparr>seed1 = 1681707474, seed2 = 1444416923, counter = 13\<rparr>
     = (1767064197, \<lparr>seed1 = 1346339491, seed2 = 2234934846, counter = 14\<rparr>)"
  "drs_next \<lparr>seed1 = 1346339491, seed2 = 2234934846, counter = 14\<rparr>
     = (2918871928, \<lparr>seed1 = 1911191968, seed2 = 2835142789, counter = 15\<rparr>)"
  by (simp_all add: drs_next_values)

text \<open>The number the test and the README announce, 133657516011729927, is not among the outputs.\<close>

lemma test_exact_values:
  "map fst test_exact_specification = [3087774975, 8254046016, 9527846864, 4412852915, 1365228330, 6288827460,
     7721750032, 4241828801, 7794407350, 6484785333]"
  "test_security_properties = ([7527920622, 8959682764, 1501294215, 2097273677, 5845381648],
     [7527920622, 8959682764, 1501294215, 2097273677, 5845381648],
     [6401035883, 5610976463, 266448535, 1767064197, 2918871928])"
  by (simp_all add: test_exact_specification_def test_security_properties_def draws_eval
      spec_start spec_steps0 spec_steps1 gen1_start gen1_steps0 gen3_start gen3_steps0)

lemma drs_range_below:
  assumes "hi \<noteq> - 1"
  shows "\<exists>v. drs_range gen 0 hi = Inr (v, snd (drs_next gen)) \<and> v \<le> hi"
proof -
  have "min 0 hi = 0" "max 0 hi = hi" by (auto simp: min_def max_def)
  then show ?thesis using drs_range_correct [of 0 hi gen] assms by (auto split: sum.splits)
qed

lemma address_range:
  assumes "v \<le> r" and "unat base + unat r < 2 ^ 64"
  shows "unat base \<le> unat (base + v :: u64) \<and> unat (base + v) \<le> unat base + unat r"
proof -
  have "unat v \<le> unat r" using assms(1) by (simp add: word_le_nat_alt)
  moreover from this have "unat (base + v) = unat base + unat v" using assms(2) unat_add_lem [of base v] by simp
  ultimately show ?thesis by simp
qed

lemma range_draws_below:
  assumes "hi \<noteq> - 1"
  shows "\<exists>vs gen'. range_draws k 0 hi gen = Inr (vs, gen') \<and> length vs = k \<and> (\<forall>v \<in> set vs. v \<le> hi)"
proof (induction k arbitrary: gen)
  case (Suc k)
  obtain v where "drs_range gen 0 hi = Inr (v, snd (drs_next gen))" "v \<le> hi"
    using drs_range_below [OF assms] by blast
  with Suc [of "snd (drs_next gen)"] show ?case by auto
qed simp

lemma sum_list_count: "i < length xs \<Longrightarrow> sum_list (xs[i := xs ! i + 1]) = sum_list xs + (1 :: int)"
proof (induction xs arbitrary: i)
  case (Cons x xs)
  then show ?case by (cases i) simp_all
qed simp

text \<open>Every sample falls into one of the ten counters.\<close>

lemma count_samples_total:
  "length counts = 10 \<Longrightarrow> \<exists>counts'. count_samples k gen counts = Inr counts' \<and> length counts' = 10
     \<and> sum_list counts' = sum_list counts + int k"
proof (induction k arbitrary: gen counts)
  case (Suc k)
  obtain v where v: "drs_range gen 0 9 = Inr (v, snd (drs_next gen))" "v \<le> 9"
    using drs_range_below [of 9 gen] by auto
  then have "unat v < length counts" using Suc.prems by (simp add: word_le_nat_alt)
  with Suc.IH [of "counts[unat v := counts ! unat v + 1]" "snd (drs_next gen)"] Suc.prems v(1)
  show ?case by (auto simp: sum_list_count)
qed simp

text \<open>The tests end without a fault; addresses stay in their ranges and the counters sum up to the samples.\<close>

lemma test_exact_report:
  "\<exists>aslr keys. test_exact_main now now' pid = Inr (test_exact_specification, test_security_properties, aslr, keys)
    \<and> length aslr = 5 \<and> (\<forall>a \<in> set aslr. 0x400000 \<le> a \<and> a < 0x500000) \<and> length keys = 8"
proof -
  obtain vs gen' where "range_draws 5 0 (0x100000 - 1) (drs_init (of_int now) (of_int pid)) = Inr (vs, gen')"
    "length vs = 5" "\<forall>v \<in> set vs. v \<le> 0x100000 - 1"
    using range_draws_below [of "0x100000 - 1" 5 "drs_init (of_int now) (of_int pid)"] by auto
  moreover have "0x400000 \<le> 0x400000 + v \<and> 0x400000 + v < 0x500000" if "v \<le> 0x100000 - 1" for v :: u64
    using that address_range [of v "0x100000 - 1" "0x400000"] by (auto simp: word_le_nat_alt word_less_nat_alt)
  moreover have "length (key_parts k g) = k" for k g
    by (induction k arbitrary: g) (simp_all split: prod.split)
  ultimately show ?thesis by (simp add: test_exact_main_def test_aslr_application_def test_crypto_application_def)
qed

lemma test_drs_report:
  "\<exists>key address numbers bytes counts. test_drs_main drs_bytes now1 now2 now3 = Inr (key, address, numbers, bytes, counts)
    \<and> 0x100000 \<le> address \<and> address < 0x110000 \<and> length numbers = 10 \<and> (\<forall>v \<in> set numbers. v \<le> 99)
    \<and> length counts = 10 \<and> sum_list counts = 10000"
proof -
  define seed where "seed = (of_int now2 XOR 0xABCD1234 :: u64)"
  obtain v where v: "drs_range (drs_init seed (seed * 0x987654321)) 0 (0x10000 - 1)
      = Inr (v, snd (drs_next (drs_init seed (seed * 0x987654321))))" "v \<le> 0x10000 - 1"
    using drs_range_below [of "0x10000 - 1"] by auto
  then have "0x100000 \<le> 0x100000 + v \<and> 0x100000 + v < 0x110000"
    using address_range [of v "0x10000 - 1" "0x100000"] v(2) by (auto simp: word_le_nat_alt word_less_nat_alt)
  moreover obtain vs gen' where vs: "range_draws 10 0 99 (drs_init (of_int now3) (of_int now3 * 0x123456789ABCDEF))
      = Inr (vs, gen')" "length vs = 10" "\<forall>v \<in> set vs. v \<le> 99"
    using range_draws_below [of 99 10 "drs_init (of_int now3) (of_int now3 * 0x123456789ABCDEF)"] by auto
  moreover obtain bytes gen'' where b: "drs_bytes gen' 16 = (bytes, gen'')" by fastforce
  moreover obtain counts where c: "count_samples 10000 gen'' (replicate 10 0) = Inr counts" "length counts = 10"
    "sum_list counts = 10000"
    using count_samples_total [of "replicate 10 0" 10000 gen''] by (auto simp: sum_list_replicate)
  ultimately show ?thesis
    using v by (simp add: test_drs_main_def test_drs_generator_def Let_def seed_def del: count_samples.simps)
qed

end
