(* ===== verification/LSM_Paths.thy ===== *)
theory LSM_Paths
  imports Prelude
begin

text \<open>
  The data directory and the names of table files of \<^verbatim>\<open>kryolsm/src/sstable.c\<close>: a name determines the level and
  the number of its table, and fits 34 bytes.
\<close>

datatype dir_call = Mkdir string nat | Closedir

text \<open>\<open>opened\<close>: whether \<^verbatim>\<open>opendir\<close> succeeds; the mode is octal 755.\<close>

definition ensure_data_dir :: "bool \<Rightarrow> dir_call list" where
  "ensure_data_dir opened = (if \<not> opened then [Mkdir ''data'' 493] else [Closedir])"

text \<open>\<^verbatim>\<open>%d\<close> and \<^verbatim>\<open>%05d\<close>.\<close>

definition print_int :: "int \<Rightarrow> string" where
  "print_int v = (if v < 0 then CHR 0x2D # dec_digits (nat (- v)) else dec_digits (nat v))"

definition zero_padded :: "nat \<Rightarrow> int \<Rightarrow> string" where
  "zero_padded width v =
     (let sign = (if v < 0 then [CHR 0x2D] else []);
          digits = dec_digits (nat \<bar>v\<bar>)
      in sign @ replicate (width - length sign - length digits) (CHR 0x30) @ digits)"

definition generate_sstable_path :: "nat \<Rightarrow> int \<Rightarrow> int \<Rightarrow> string" where
  "generate_sstable_path sz level seq =
     snprintf sz (''data/L'' @ print_int level @ ''-'' @ zero_padded 5 seq @ ''.sst'')"

section \<open>Names are read back\<close>

definition digit_value :: "char \<Rightarrow> nat" where
  "digit_value c = of_char c - 48"

definition digits_value :: "string \<Rightarrow> nat" where
  "digits_value s = foldl (\<lambda>v c. 10 * v + digit_value c) 0 s"

definition is_digit :: "char \<Rightarrow> bool" where
  "is_digit c = (48 \<le> (of_char c :: nat) \<and> (of_char c :: nat) \<le> 57)"

lemma digit_char: "k < 10 \<Longrightarrow> digit_value (char_of (48 + k)) = k \<and> is_digit (char_of (48 + k))"
  by (simp add: digit_value_def is_digit_def)

lemma dec_digits_value: "digits_value (dec_digits n) = n"
proof (induction n rule: dec_digits.induct)
  case (1 n)
  then show ?case
    using digit_char [of n] digit_char [of "n mod 10"]
    by (cases "n < 10") (simp_all add: dec_digits.simps [of n] digits_value_def)
qed

lemma dec_digits_are_digits: "list_all is_digit (dec_digits n)"
proof (induction n rule: dec_digits.induct)
  case (1 n)
  then show ?case
    using digit_char [of n] digit_char [of "n mod 10"]
    by (cases "n < 10") (simp_all add: dec_digits.simps [of n])
qed

lemma padded_value: "digits_value (replicate k (CHR 0x30) @ s) = digits_value s"
  by (induction k) (simp_all add: digits_value_def digit_value_def)

definition path_level :: "string \<Rightarrow> nat" where
  "path_level p = digits_value (takeWhile is_digit (drop 6 p))"

definition path_number :: "string \<Rightarrow> nat" where
  "path_number p = digits_value (takeWhile is_digit (drop 1 (dropWhile is_digit (drop 6 p))))"

lemma span_digits:
  "list_all is_digit ds \<Longrightarrow> \<not> is_digit c \<Longrightarrow> takeWhile is_digit (ds @ c # r) = ds \<and> dropWhile is_digit (ds @ c # r) = c # r"
  by (induction ds) auto

text \<open>
  Tables of different levels or numbers have different names: for every non-negative level and number of 32
  bits the name ends in the buffer of 34 bytes uncut, and both can be read back from it.
\<close>

lemma length_print_int: "0 \<le> v \<Longrightarrow> v < 2 ^ 31 \<Longrightarrow> length (print_int v) \<le> 10"
  by (simp add: print_int_def) (rule length_dec_digits; simp)

lemma path_roundtrip:
  assumes "0 \<le> level" and "level < 2 ^ 31" and "0 \<le> seq" and "seq < 2 ^ 31" and "34 \<le> sz"
  shows "path_level (generate_sstable_path sz level seq) = nat level
    \<and> path_number (generate_sstable_path sz level seq) = nat seq
    \<and> length (generate_sstable_path sz level seq) < 34"
proof -
  define ds where "ds = zero_padded 5 seq"
  have pad: "ds = replicate (5 - length (dec_digits (nat seq))) (CHR 0x30) @ dec_digits (nat seq)"
    using assms(3) by (simp add: ds_def zero_padded_def Let_def)
  have lev: "print_int level = dec_digits (nat level)" using assms(1) by (simp add: print_int_def)
  have "length (dec_digits (nat seq)) \<le> 10" by (rule length_dec_digits) (use assms(4) in simp_all)
  then have len: "length ds \<le> 10" by (simp add: pad)
  have fits: "length (''data/L'' @ print_int level @ ''-'' @ ds @ ''.sst'') < 34"
    using len length_print_int [OF assms(1,2)] by simp
  then have path: "generate_sstable_path sz level seq = ''data/L'' @ print_int level @ ''-'' @ ds @ ''.sst''"
    unfolding generate_sstable_path_def ds_def by (intro snprintf_fits) (use assms(5) in simp)
  have rep: "list_all is_digit (replicate k (CHR 0x30))" for k by (simp add: list_all_iff is_digit_def)
  have digits: "list_all is_digit (print_int level)" "list_all is_digit ds"
    using dec_digits_are_digits rep by (simp_all add: lev pad)
  have stop: "\<not> is_digit (CHR ''-'')" "\<not> is_digit (CHR ''.'')" by (simp_all add: is_digit_def)
  have "path_level (generate_sstable_path sz level seq) = nat level"
    using span_digits [OF digits(1) stop(1)] by (simp add: path_level_def path lev dec_digits_value)
  moreover have "path_number (generate_sstable_path sz level seq) = nat seq"
    using span_digits [OF digits(1) stop(1)] span_digits [OF digits(2) stop(2)]
    by (simp add: path_number_def path) (simp add: pad padded_value dec_digits_value)
  ultimately show ?thesis using fits by (simp only: path)
qed

end
