(* ===== verification/Arena_Mappings.thy ===== *)
theory Arena_Mappings
  imports Arena_Safety
begin

text \<open>
  The arena's books with the system: over its whole life it clears, protects and gives back
  only memory it holds (but for the call of \<^verbatim>\<open>mprotect\<close> on a list link), every mapping is given back exactly once, and a destroyed arena holds
  none. The system's part is \<open>mmap_ok\<close> and that no mapping lies at address 0.
\<close>

section \<open>Mappings held\<close>

text \<open>
  The mappings held after a run of calls, from \<open>M\<close>; \<open>None\<close> once a call touches or gives back
  memory outside them. The one call the arena makes outside them, the \<^verbatim>\<open>mprotect\<close> of a link of
  the chunk list at the end of \<^verbatim>\<open>arena_cleanup_old\<close>, is about the \<^verbatim>\<open>calloc\<close> block the link is
  in: it passes when that is the arena or a chunk whose mapping is still held, so that the
  block has not been freed.
\<close>

fun held_after :: "(u64 \<times> u64) multiset \<Rightarrow> mem_call list \<Rightarrow> (u64 \<times> u64) multiset option" where
  "held_after M [] = Some M"
| "held_after M (Mem_Map p n # cs) = held_after (add_mset (p, n) M) cs"
| "held_after M (Mem_Protect p n # cs) =
     (if \<exists>(q, m) \<in> set_mset M. unat q \<le> unat p \<and> unat p + unat n \<le> unat q + unat m
      then held_after M cs else None)"
| "held_after M (Mem_Protect_Link l n # cs) =
     (if \<forall>q. l = Some q \<longrightarrow> (\<exists>m. (q, m) \<in># M) then held_after M cs else None)"
| "held_after M (Mem_Clear p n # cs) =
     (if \<exists>(q, m) \<in> set_mset M. p = q \<and> n \<le> m then held_after M cs else None)"
| "held_after M (Mem_Unmap p n # cs) =
     (if (p, n) \<in># M then held_after (M - {#(p, n)#}) cs else None)"

lemma held_after_append:
  "held_after M (cs @ ds) = Option.bind (held_after M cs) (\<lambda>N. held_after N ds)"
  by (induction M cs rule: held_after.induct) auto

definition region :: "arena_chunk \<Rightarrow> u64 \<times> u64" where
  "region c = (chunk_memory c, chunk_size c)"

definition real_chunk :: "arena_chunk \<Rightarrow> bool" where
  "real_chunk c \<longleftrightarrow> chunk_memory c \<noteq> 0 \<and> chunk_size c > 0 \<and> chunk_ok c"

definition regions :: "arena_chunk list \<Rightarrow> (u64 \<times> u64) multiset" where
  "regions cs = mset (map region cs)"

lemma regions_simps [simp]:
  "regions [] = {#}" "regions (c # cs) = add_mset (region c) (regions cs)"
  "regions (cs @ ds) = regions cs + regions ds"
  by (simp_all add: regions_def)

lemma held_destroy:
  assumes "real_chunk c"
  shows "held_after (add_mset (region c) M) (arena_chunk_destroy c) = Some M"
  using assms by (auto simp: real_chunk_def arena_chunk_destroy_def region_def chunk_ok_def word_le_nat_alt)

lemma held_destroy_all:
  "\<forall>c \<in> set cs. real_chunk c \<Longrightarrow> held_after (regions cs + M) (concat (map arena_chunk_destroy cs)) = Some M"
  by (induction cs) (simp_all add: held_after_append held_destroy)

text \<open>The books of an arena whose chunks are \<open>cs\<close>.\<close>

definition books :: "arena_memory \<Rightarrow> arena_chunk list \<Rightarrow> bool" where
  "books a cs \<longleftrightarrow> held_after {#} (mem_calls a) = Some (regions cs) \<and> (\<forall>c \<in> set cs. real_chunk c)"

lemma books_perm: "mset cs = mset ds \<Longrightarrow> books a cs = books a ds"
  using mset_eq_setD [of cs ds] by (simp add: books_def regions_def)

lemma books_calls: "mem_calls b = mem_calls a \<Longrightarrow> books b cs = books a cs"
  by (simp add: books_def)

lemma books_destroy:
  assumes "books a (ds @ cs)" and "mem_calls b = mem_calls a @ concat (map arena_chunk_destroy ds)"
  shows "books b cs"
  using assms held_destroy_all [of ds "regions cs"] by (simp add: books_def held_after_append)

section \<open>The operations\<close>

lemma retire_books:
  assumes "books a (c # arena_chunks a)"
  shows "books (retire_current a) (c # old_chunks (retire_current a))"
proof (cases "current a")
  case None
  with assms show ?thesis by (simp add: retire_current_def arena_chunks_def)
next
  case (Some d)
  show ?thesis
  proof (cases "chunk_used d > 0")
    case True
    with assms Some show ?thesis
      by (simp add: retire_current_def arena_chunks_def) (simp add: books_def)
  next
    case False
    have "books a ([d] @ c # old_chunks a)"
      using assms Some books_perm [of "[d] @ c # old_chunks a" "c # arena_chunks a" a]
      by (simp add: arena_chunks_def)
    with False Some show ?thesis by (simp add: retire_current_def) (rule books_destroy [of a "[d]"], simp_all)
  qed
qed

lemma carve_books:
  assumes "books a (c # old_chunks a)" and "unat (chunk_used c) + unat sz \<le> unat (chunk_size c)"
    and "0 < unat sz" and "8 dvd unat sz" and "carve sz c a = (r, a')"
  shows "books a' (arena_chunks a')"
proof -
  define ptr where "ptr = chunk_memory c + chunk_used c"
  define c' where "c' = c\<lparr>chunk_used := chunk_used c + sz\<rparr>"
  have c: "real_chunk c" using assms(1) by (simp add: books_def)
  have "unat (chunk_memory c) + unat (chunk_used c) < 2 ^ 64"
    using c assms(2,3) by (simp add: real_chunk_def chunk_ok_def)
  then have ptr: "unat ptr = unat (chunk_memory c) + unat (chunk_used c)"
    unfolding ptr_def by (rule unat_add_small)
  have "unat (chunk_used c') = unat (chunk_used c) + unat sz"
    using c assms(2) unat_add_small [of "chunk_used c" sz] by (simp add: c'_def real_chunk_def chunk_ok_def)
  then have c': "real_chunk c'" "region c' = region c"
    using c assms(2,4) by (simp_all add: c'_def real_chunk_def chunk_ok_def region_def)
  have inside: "\<exists>(q, m) \<in> set_mset (regions (c # old_chunks a)). unat q \<le> unat ptr \<and> unat ptr + unat sz \<le> unat q + unat m"
    using assms(2) by (auto simp: ptr region_def)
  have books: "held_after {#} (mem_calls a) = Some (regions (c # old_chunks a))" "\<forall>d \<in> set (old_chunks a). real_chunk d"
    using assms(1) by (simp_all add: books_def)
  have "arena_chunks a' = c' # old_chunks a" "mem_calls a' = mem_calls a @ (if ptr = MAP_FAILED then [] else [Mem_Protect ptr sz])"
    using assms(5) by (auto simp: carve_def Let_def arena_chunks_def c'_def ptr_def split: if_splits)
  then show ?thesis
    using books c' inside by (simp add: books_def held_after_append)
qed

text \<open>No mapping at address 0.\<close>

definition no_null_map :: "arena_os \<Rightarrow> bool" where
  "no_null_map os \<longleftrightarrow> (\<forall>len. mmap_result os len \<noteq> Some 0)"

lemma alloc_locked_books:
  assumes inv: "arena_inv a" and os: "mmap_ok os a" "no_null_map os"
    and sz: "0 < unat sz" "8 dvd unat sz" "unat sz \<le> 1048576 + 8"
    and books: "books a (arena_chunks a)" and call: "arena_alloc_locked os a sz = Some (r, a')"
  shows "books a' (arena_chunks a')"
proof -
  have small: "unat sz \<le> 2 ^ 32" using sz(3) by simp
  have ok: "\<forall>c \<in> set (arena_chunks a). chunk_ok c" using books by (simp add: books_def real_chunk_def)
  show ?thesis
  proof (cases "needs_chunk sz a")
    case False
    then obtain c where c: "current a = Some c" and room: "\<not> chunk_used c + sz > chunk_size c"
      by (auto simp: needs_chunk_def split: option.splits)
    have "chunk_ok c" "arena_chunks a = c # old_chunks a" using ok c by (simp_all add: arena_chunks_def)
    with room small word_room(1) [of c sz] False c call books carve_books [OF _ _ sz(1,2), of a c r a'] show ?thesis
      by (simp add: arena_alloc_locked_def)
  next
    case need: True
    show ?thesis
    proof (cases "take_suitable sz (old_chunks a)")
      case (Some cr)
      then obtain c rest where cr: "take_suitable sz (old_chunks a) = Some (c, rest)" by (cases cr) auto
      then obtain xs ys where split: "old_chunks a = xs @ c # ys" "rest = xs @ ys" and room: "sz \<le> chunk_size c - chunk_used c"
        by (auto dest: take_suitable_split)
      define b where "b = a\<lparr>old_chunks := rest\<rparr>"
      have "mset (c # arena_chunks b) = mset (arena_chunks a)"
        by (simp add: arena_chunks_def b_def split split: option.split)
      then have "books b (c # arena_chunks b)"
        using books books_perm [of "c # arena_chunks b" "arena_chunks a" a] books_calls [of b a] by (simp add: b_def)
      from retire_books [OF this] have "books (retire_current b) (c # old_chunks (retire_current b))" .
      moreover have "chunk_ok c" using ok by (auto simp: arena_chunks_def split)
      moreover have "carve sz c (retire_current b) = (r, a')"
        using need cr call by (simp add: arena_alloc_locked_def b_def)
      ultimately show ?thesis using carve_books sz(1,2) room small word_room(2) by blast
    next
      case none: None
      obtain n where n: "arena_calculate_new_chunk_size sz = Some n" "65536 \<le> unat n" "unat n \<le> 2097152" "unat sz \<le> unat n"
        using sz(3) by (rule calc_chunk_size)
      show ?thesis
      proof (cases "arena_chunk_create os n")
        case None
        then have "a' = a\<lparr>locked := False\<rparr>" using need none n(1) call by (simp add: arena_alloc_locked_def)
        then show ?thesis using books by (simp add: books_def arena_chunks_def)
      next
        case (Some c)
        note new = chunk_create_ok [OF os(1) Some n(2,3)]
        have "chunk_memory c \<noteq> 0"
          using Some os(2) by (auto simp: arena_chunk_create_def no_null_map_def Let_def split: if_splits option.splits)
        then have c: "real_chunk c" using new(1,3) n(2) by (simp add: real_chunk_def word_less_nat_alt)
        define b where "b = a\<lparr>mem_calls := mem_calls a @ [Mem_Map (chunk_memory c) (chunk_size c)]\<rparr>"
        define d where "d = (retire_current b)\<lparr>total_allocated := total_allocated (retire_current b) + chunk_size c,
          chunk_count := chunk_count (retire_current b) + 1\<rparr>"
        have "arena_chunks b = arena_chunks a" by (simp add: b_def arena_chunks_def)
        then have "books b (c # arena_chunks b)"
          using books c by (simp add: books_def b_def held_after_append region_def)
        from retire_books [OF this] have "books d (c # old_chunks d)" by (simp add: d_def books_def)
        moreover have "carve sz c d = (r, a')"
          using need none n(1) Some call by (simp add: arena_alloc_locked_def b_def d_def Let_def)
        moreover have "unat (chunk_used c) + unat sz \<le> unat (chunk_size c)" using new(2,3) n(4) by simp
        ultimately show ?thesis using carve_books [OF _ _ sz(1,2)] by blast
      qed
    qed
  qed
qed

definition arena_kept :: "arena_memory \<Rightarrow> bool" where
  "arena_kept a \<longleftrightarrow> arena_ready a \<and> books a (arena_chunks a)"

lemma alloc_kept:
  assumes "arena_kept a" and "mmap_ok os a" and "no_null_map os" and "arena_alloc os (Some a) sz = Some (r, Some a')"
  shows "arena_kept a'"
proof (cases "sz = 0 \<or> sz > get_arena_max_alloc_size")
  case True
  with assms show ?thesis by (auto simp: arena_alloc_def simp del: arena_constants split: if_splits)
next
  case False
  have a: "arena_inv a" "\<not> locked a" "books a (arena_chunks a)" using assms(1) by (simp_all add: arena_kept_def arena_ready_def)
  define b where "b = a\<lparr>locked := True\<rparr>"
  have b: "arena_inv b" "mmap_ok os b" "books b (arena_chunks b)"
    using a assms(2) by (simp_all add: b_def arena_inv_def mmap_ok_def all_bytes_def books_def arena_chunks_def)
  have nz: "sz \<noteq> 0" "\<not> sz > get_arena_max_alloc_size" using False by simp_all
  have "arena_alloc_locked os b (arena_align_size sz) = Some (r, a')"
    using nz a(2) assms(4) by (auto simp: arena_alloc_def b_def simp del: arena_constants)
  with alloc_locked_books [OF b(1,2) assms(3) align_small(1-3) [OF nz] b(3)] have "books a' (arena_chunks a')" by blast
  moreover have "arena_ready a'" using arena_alloc_outcome [OF a(1,2) assms(2), of sz] assms(4) by (auto simp: arena_ready_def)
  ultimately show ?thesis by (simp add: arena_kept_def)
qed

lemma reset_kept:
  assumes "arena_kept a" and "arena_reset os (Some a) = Some (Some a')"
  shows "arena_kept a'"
proof -
  have a: "arena_inv a" "\<not> locked a" "books a (arena_chunks a)" using assms(1) by (simp_all add: arena_kept_def arena_ready_def)
  define cur where "cur = (case current a of None \<Rightarrow> [] | Some c \<Rightarrow> [c\<lparr>chunk_used := 0\<rparr>])"
  have "books a (old_chunks a @ cur)"
    using a(3) by (auto simp: books_def arena_chunks_def cur_def region_def real_chunk_def chunk_ok_def split: option.splits)
  moreover have "mem_calls a' = mem_calls a @ concat (map arena_chunk_destroy (old_chunks a))" "arena_chunks a' = cur"
    using assms(2) a(2) by (auto simp: arena_reset_def arena_chunks_def cur_def split: option.splits)
  ultimately have "books a' (arena_chunks a')" by (simp add: books_destroy)
  with arena_reset_correct [OF a(1,2), of os] assms(2) show ?thesis by (auto simp: arena_kept_def arena_ready_def)
qed

lemma cleanup_kept:
  assumes "arena_kept a" and "arena_cleanup_old os (Some a) max_age = Some (Some a')"
  shows "arena_kept a'"
proof (cases "max_age \<le> 0")
  case True
  with assms show ?thesis by (simp add: arena_cleanup_old_def)
next
  case False
  have a: "arena_inv a" "\<not> locked a" "books a (arena_chunks a)" using assms(1) by (simp_all add: arena_kept_def arena_ready_def)
  define young :: "arena_chunk \<Rightarrow> bool" where "young = (\<lambda>c. now os - created_at c \<le> max_age)"
  define cur where "cur = (case current a of None \<Rightarrow> [] | Some c \<Rightarrow> [c])"
  define b where "b = a'\<lparr>mem_calls := mem_calls a @ concat (map arena_chunk_destroy (filter (\<lambda>c. \<not> young c) (old_chunks a)))\<rparr>"
  have run: "mem_calls a' = mem_calls b @ [Mem_Protect_Link (last_link (filter young (old_chunks a))) (undeclared_size os)]"
    "mem_calls b = mem_calls a @ concat (map arena_chunk_destroy (filter (\<lambda>c. \<not> young c) (old_chunks a)))"
    "arena_chunks a' = cur @ filter young (old_chunks a)" "\<not> locked a'"
    using assms(2) a(2) False by (auto simp: arena_cleanup_old_def drop_aged_filter young_def arena_chunks_def cur_def b_def)
  have "mset (filter (\<lambda>c. \<not> young c) (old_chunks a) @ cur @ filter young (old_chunks a)) = mset (arena_chunks a)"
    using multiset_partition [of "mset (old_chunks a)" young]
    by (simp add: arena_chunks_def cur_def [symmetric] add.commute add.left_commute)
  then have "books a (filter (\<lambda>c. \<not> young c) (old_chunks a) @ arena_chunks a')"
    using a(3) books_perm run(3) by metis
  from books_destroy [OF this run(2)] have "books b (arena_chunks a')" .
  moreover have "\<exists>m. (q, m) \<in># regions (arena_chunks a')" if "last_link (filter young (old_chunks a)) = Some q" for q
    using that last_in_set [of "filter young (old_chunks a)"]
    by (force simp: last_link_def run(3) regions_def region_def split: if_splits)
  ultimately have "books a' (arena_chunks a')" by (simp add: books_def run(1) held_after_append)
  with arena_cleanup_correct [OF a(1,2), of max_age os] assms(2) False show ?thesis
    using run(4) by (simp add: arena_kept_def arena_ready_def)
qed

section \<open>The life of an arena\<close>

text \<open>One operation; the system may behave differently at every step.\<close>

inductive arena_op :: "arena_memory \<Rightarrow> arena_memory \<Rightarrow> bool" where
  op_alloc: "mmap_ok os a \<Longrightarrow> no_null_map os \<Longrightarrow> arena_alloc os (Some a) sz = Some (r, Some a') \<Longrightarrow> arena_op a a'"
| op_reset: "arena_reset os (Some a) = Some (Some a') \<Longrightarrow> arena_op a a'"
| op_cleanup: "arena_cleanup_old os (Some a) max_age = Some (Some a') \<Longrightarrow> arena_op a a'"

lemma arena_op_kept: "arena_op a b \<Longrightarrow> arena_kept a \<Longrightarrow> arena_kept b"
  by (induction rule: arena_op.induct) (blast intro: alloc_kept reset_kept cleanup_kept)+

lemma arena_ops_kept: "arena_op\<^sup>*\<^sup>* a b \<Longrightarrow> arena_kept a \<Longrightarrow> arena_kept b"
  by (induction rule: rtranclp_induct) (auto intro: arena_op_kept)

lemma arena_init_kept: "arena_init os = Some a \<Longrightarrow> arena_kept a"
  by (auto simp: arena_init_def arena_kept_def arena_ready_def arena_inv_def arena_chunks_def chunks_ok_def
      books_def split: if_splits)

text \<open>C10:
  From \<open>arena_init\<close> through any operations, whatever the system does at each step, the arena
  has protected, cleared and given back only memory it held at that moment, apart from the
  \<^verbatim>\<open>mprotect\<close> with which every cleanup ends (of a link of the chunk list, in a block it has not
  freed, with an undeclared size), and the mappings it holds are exactly its chunks; destroying it then always returns,
  clears and gives back every one of them once, and leaves none. The system is assumed to map
  nothing at address 0 and nothing over a mapping the arena has.
\<close>

theorem arena_mappings_balance:
  assumes "arena_init os = Some a" and "arena_op\<^sup>*\<^sup>* a b"
  shows "held_after {#} (mem_calls b) = Some (regions (arena_chunks b)) \<and>
    (\<exists>calls. arena_destroy (Some b) = Some calls \<and> held_after {#} (mem_calls b @ calls) = Some {#} \<and>
      (\<forall>c \<in> set (arena_chunks b). Mem_Clear (chunk_memory c) (chunk_used c) \<in> set calls))"
proof -
  have kept: "arena_kept b" using arena_ops_kept [OF assms(2) arena_init_kept [OF assms(1)]] .
  then have b: "\<not> locked b" "held_after {#} (mem_calls b) = Some (regions (arena_chunks b))"
    and real: "\<forall>c \<in> set (arena_chunks b). real_chunk c"
    by (simp_all add: arena_kept_def arena_ready_def books_def)
  define cs where "cs = old_chunks b @ (case current b of None \<Rightarrow> [] | Some c \<Rightarrow> [c])"
  have cs: "set cs = set (arena_chunks b)" "regions cs = regions (arena_chunks b)"
    by (auto simp: cs_def arena_chunks_def)
  have calls: "arena_destroy (Some b) = Some (concat (map arena_chunk_destroy cs))"
    using b(1) by (simp add: arena_destroy_def cs_def split: option.split)
  have "held_after {#} (mem_calls b @ concat (map arena_chunk_destroy cs)) = Some {#}"
    using b(2) real held_destroy_all [of cs "{#}"] by (simp add: held_after_append cs)
  moreover have "Mem_Clear (chunk_memory c) (chunk_used c) \<in> set (concat (map arena_chunk_destroy cs))"
    if "c \<in> set (arena_chunks b)" for c
    using that real cs(1) by (force simp: arena_chunk_destroy_def real_chunk_def)
  ultimately show ?thesis using b(2) calls by blast
qed

lemma arena_mappings_balance_witness:
  "held_after {#} (mem_calls first_arena) = Some {#(65536, 65536)#} \<and>
    (\<exists>calls. arena_destroy (Some first_arena) = Some calls \<and> held_after {#} (mem_calls first_arena @ calls) = Some {#})"
proof -
  have "no_null_map small_os" by (simp add: no_null_map_def small_os_def)
  then have "arena_op\<^sup>*\<^sup>* fresh_arena first_arena"
    using op_alloc [OF fresh_arena_facts(4) _ first_alloc] by blast
  from arena_mappings_balance [OF fresh_arena_facts(1) this] show ?thesis
    by (simp add: first_arena_def arena_chunks_def fresh_arena_def region_def) blast
qed

section \<open>What a reset leaves behind\<close>

text \<open>
  A reset empties the current chunk without clearing it: the next block is cut off at the
  start of the chunk, where the blocks handed out before lay, and no call in between clears
  that memory.
\<close>

lemma arena_reset_reuses:
  assumes "arena_kept a" and "current a = Some c" and "sz \<noteq> 0" and "sz \<le> get_arena_max_alloc_size"
    and "arena_align_size sz \<le> chunk_size c"
  shows "\<exists>a' b. arena_reset os (Some a) = Some (Some a') \<and>
    arena_alloc os2 (Some a') sz = Some (Some (chunk_memory c), Some b) \<and>
    mem_calls b = mem_calls a @ concat (map arena_chunk_destroy (old_chunks a))
      @ [Mem_Protect (chunk_memory c) (arena_align_size sz)]"
proof -
  have a: "\<not> locked a" "8 dvd unat (chunk_memory c)"
    using assms(1,2) by (simp_all add: arena_kept_def arena_ready_def books_def real_chunk_def chunk_ok_def arena_chunks_def)
  have "chunk_memory c \<noteq> MAP_FAILED"
  proof
    assume "chunk_memory c = MAP_FAILED"
    then have "unat (chunk_memory c) = 2 ^ 64 - 1" by (simp add: unsigned_minus_1_eq_mask mask_eq_exp_minus_1)
    with a(2) show False by simp
  qed
  with assms(2-5) a(1) show ?thesis
    by (auto simp: arena_reset_def arena_alloc_def arena_alloc_locked_def needs_chunk_def carve_def Let_def not_less)
qed

end
