(* ===== verification/Spec2Isabelle.thy ===== *)
theory Spec2Isabelle
  imports Server_Races LSM_Restart Token_Demo_Correct CLI_Server Hash_Stack_Progress Command_Exploits
    Server_Tests Client_Tests Drs_Tests LSM_Paths Arena_Mappings
begin

text \<open>
  Verification development of kryosette-db: the in-memory cache \<^verbatim>\<open>kryocache\<close> (server,
  client, command line and client command system), the LSM tree \<^verbatim>\<open>kryolsm/lsm-drive\<close>, the
  arena allocator and the access tokens kept in it, the random number generator the command system uses, the
  secure \<^verbatim>\<open>memset\<close> and the lock-free stack with ephemeral hash tags.

  \<^bold>\<open>Parts and how they interact.\<close> A \<^emph>\<open>server\<close> process (\<^verbatim>\<open>server.c\<close>, \<^verbatim>\<open>main.c\<close>) creates an
  instance and an acceptor thread; the thread gives each connection to
  \<^verbatim>\<open>handle_client_connection\<close> (\<^verbatim>\<open>commands/commands.c\<close>), which reads one line, runs it on the
  table \<^verbatim>\<open>g_storage\<close>, answers and closes. A \<^emph>\<open>client\<close> (\<^verbatim>\<open>client.c\<close>) connects with retries, sends
  a line and reads a reply; \<^verbatim>\<open>client_set\<close> first consults the \<^emph>\<open>command system\<close>
  (\<^verbatim>\<open>white_list_client.c\<close>), whose identifiers come from the \<^emph>\<open>DRS generator\<close>. The command-line
  program (\<^verbatim>\<open>client/main.c\<close>) runs one client operation. The LSM tree and the arena are
  libraries of their own.

  \<^bold>\<open>Theories and sources.\<close>

  \<^item> \<^verbatim>\<open>Prelude\<close>: C strings in arrays and the \<^verbatim>\<open>string.h\<close> routines used, results with errors,
    decimal printing. \<^verbatim>\<open>KV_Interface\<close>: the locales of a key-value table and of an associative
    store; the server table and the LSM tree interpret them. \<^verbatim>\<open>Block_Interface\<close>: the locale of an
    allocator of disjoint blocks, interpreted by the arena and used by the tokens.
  \<^item> \<^verbatim>\<open>Server_Storage\<close> (\<^verbatim>\<open>commands.h\<close>, \<^verbatim>\<open>storage_set\<close>, \<^verbatim>\<open>storage_get\<close>): the hash, the chains, the
    table; a bucket index out of range is a fault. It refines a finite map for keys that fit
    their array (63 bytes), with values cut to 255 bytes; where it does not (long keys, index
    1000) that is stated.
  \<^item> \<^verbatim>\<open>Server_Commands\<close> (\<^verbatim>\<open>handle_client_connection\<close>): one connection from \<^verbatim>\<open>recv\<close> to \<^verbatim>\<open>close\<close>. It
    refines the protocol \<^verbatim>\<open>respond\<close> on finite maps, \<^verbatim>\<open>serve\<close> with either outcome of \<^verbatim>\<open>calloc\<close>.
  \<^item> \<^verbatim>\<open>Storage_Steps\<close>, \<^verbatim>\<open>Storage_Refine\<close>, \<^verbatim>\<open>Storage_Races\<close>, \<^verbatim>\<open>Storage_Anomalies\<close> (\<^verbatim>\<open>storage_set\<close>,
    \<^verbatim>\<open>storage_get\<close>, FLUSH): the table operations access by access on a heap of nodes, values byte by
    byte. One thread by itself refines the operations above; sets and gets of any number of threads stay in
    allocated memory and are wait-free, but lose keys and read values half overwritten, and FLUSH frees what
    others read. \<^verbatim>\<open>Server_Races\<close>: a restarted server has two such threads.
  \<^item> \<^verbatim>\<open>Server_Lifecycle\<close>, \<^verbatim>\<open>Server_Process\<close>, \<^verbatim>\<open>Server_Correct\<close>, \<^verbatim>\<open>Server_Threads\<close> (\<^verbatim>\<open>server.c\<close>,
    \<^verbatim>\<open>constants.c\<close>, \<^verbatim>\<open>server.h\<close>, \<^verbatim>\<open>main.c\<close>): the instance and its interface; the process as a
    state machine of interface calls and thread steps; the invariant of all runs, the balance
    of resources, termination of stopping and of the threads, and the refinement of the
    protocol by a running server. \<^verbatim>\<open>Server_Tests\<close> (\<^verbatim>\<open>test_server.c\<close>, \<^verbatim>\<open>server/test_client.c\<close>):
    the test suite and when it passes, the test client and the answers it prints.
  \<^item> \<^verbatim>\<open>Drs_Generator\<close>, \<^verbatim>\<open>Drs_Eval\<close>, \<^verbatim>\<open>Drs_Sequence\<close>, \<^verbatim>\<open>Drs_Tests\<close> (\<^verbatim>\<open>drs_generator.c\<close>, \<^verbatim>\<open>test_exact.c\<close>,
    \<^verbatim>\<open>test_drs.c\<close>): the generator, its evaluation; the locale of a congruential generator modulo a
    power of two, interpreted by both recurrences, with the period and the predictable part of the
    outputs; the two test programs.
  \<^item> \<^verbatim>\<open>Command_System\<close>, \<^verbatim>\<open>Command_Ids\<close>, \<^verbatim>\<open>Command_Table\<close>
    (\<^verbatim>\<open>white_list_client.c\<close>, \<^verbatim>\<open>command_stubs.c\<close>, \<^verbatim>\<open>command_errors.c\<close>): identifiers evaluated in
    the logic, table, lookup, validation; \<^verbatim>\<open>White_List\<close>: handlers and \<^verbatim>\<open>execute_command_safely\<close>;
    \<^verbatim>\<open>Command_Exploits\<close> (\<^verbatim>\<open>security_exploits.c\<close>, \<^verbatim>\<open>white_list/client/main.c\<close>): the attacks on it and its
    self-test.
  \<^item> \<^verbatim>\<open>Client\<close>, \<^verbatim>\<open>Client_Ops\<close>, \<^verbatim>\<open>Client_Correct\<close> (\<^verbatim>\<open>client.c\<close>): state, connection, operations, and
    the outcome of connecting. \<^verbatim>\<open>Client_Server\<close>: the client against the server's handler.
    \<^verbatim>\<open>Client_CLI\<close> (\<^verbatim>\<open>client/main.c\<close>) and \<^verbatim>\<open>CLI_Server\<close>: the program with all it prints, alone and end
    to end.
    \<^verbatim>\<open>Client_Tests\<close> (\<^verbatim>\<open>client/test_client.c\<close>): the test program of the library.
  \<^item> \<^verbatim>\<open>LSM_Tree\<close>, \<^verbatim>\<open>LSM_Search\<close>, \<^verbatim>\<open>LSM_Write\<close>, \<^verbatim>\<open>LSM_Store\<close>, \<^verbatim>\<open>LSM_Restart\<close> (\<^verbatim>\<open>lsm-drive/code.c\<close>): the
    operations; reads by binary search; puts, flushes and duplicate removal; runs of puts as
    a finite map and what a compaction does to it; files and restart. \<^verbatim>\<open>LSM_Paths\<close>
    (\<^verbatim>\<open>kryolsm/src/sstable.c\<close>): the names of table files.
  \<^item> \<^verbatim>\<open>Arena\<close>, \<^verbatim>\<open>Arena_Safety\<close>, \<^verbatim>\<open>Arena_Mappings\<close> (\<^verbatim>\<open>tokens/core/core.c\<close>): allocation in mapped
    chunks on 64-bit words, that blocks are aligned, inside mappings and disjoint, and that over the
    arena's life every mapping is given back once.
  \<^item> \<^verbatim>\<open>Token\<close>, \<^verbatim>\<open>Token_Correct\<close>, \<^verbatim>\<open>Token_Create\<close>, \<^verbatim>\<open>Token_Store\<close> (\<^verbatim>\<open>tokens/core/example.c\<close>): access
    tokens, a structure with strings and an array of strings in arena blocks, on a memory of
    bytes; creation, frame and round trip, survival of earlier tokens, the queries. \<^verbatim>\<open>Token_Demo\<close>,
    \<^verbatim>\<open>Token_Demo_Correct\<close>: the example program, its scenarios and what they report.
  \<^item> \<^verbatim>\<open>Secure_Memset\<close> (\<^verbatim>\<open>smemset.c\<close>): the word-wise fill is \<^verbatim>\<open>memset\<close>. \<^verbatim>\<open>Hash_Stack\<close>,
    \<^verbatim>\<open>Hash_Stack_Correct\<close>, \<^verbatim>\<open>Hash_Stack_Progress\<close> (\<^verbatim>\<open>ephemeral_hash_cas\<close>): tagged pointers, push
    and pop as steps of threads; linearizability without node reuse, obstruction freedom, the
    failure with seed 0; lock freedom.

  \<^bold>\<open>What is a parameter.\<close> Outcomes of allocations, system calls, clocks and the peer's bytes
  are arguments (\<^verbatim>\<open>net\<close>, with \<^verbatim>\<open>setsockopt\<close> and \<^verbatim>\<open>fcntl\<close> among the calls that may fail, \<^verbatim>\<open>init_env\<close>,
  \<^verbatim>\<open>start_env\<close>, \<^verbatim>\<open>lsm_env\<close>, \<^verbatim>\<open>arena_os\<close>, \<^verbatim>\<open>alloc_ok\<close>, the outcome of \<^verbatim>\<open>calloc\<close> in \<^verbatim>\<open>Accepted\<close> and the like),
  as are the order \<^verbatim>\<open>qsort\<close> gives to equal keys and the options \<^verbatim>\<open>getopt_long\<close> returns. Where a theorem
  about the LSM tree needs \<^verbatim>\<open>fopen\<close> to succeed it says so for the names in the tree's slots
  (\<^verbatim>\<open>resources_ok\<close>), which the code does not set; \<^verbatim>\<open>arena_cleanup_old\<close> uses a name \<^verbatim>\<open>size\<close> that nothing
  declares (\<^verbatim>\<open>undeclared_size\<close>). \<^verbatim>\<open>strncmp(node->key, key)\<close>
  lacks its length in the source; it is the parameter \<^verbatim>\<open>n\<close>, at least 64 in the lemmas.

  \<^bold>\<open>Loops and fuel.\<close> All loops are structural or have a measure, except two that need not end:
  the chunk size loop of the arena and the wait of \<^verbatim>\<open>server_stop\<close> are \<^verbatim>\<open>partial_function\<close>s, and
  each is proved to return (for every request that fits a chunk; for every clock that each
  \<^verbatim>\<open>sleep(1)\<close> advances by a second). The acceptor loop is a step relation; its end is a liveness property.

  \<^bold>\<open>Not modelled.\<close> Log output of the server and the LSM tree, the options of the server's socket, signals as
  such (a signal is a \<^verbatim>\<open>Stop\<close> event), weak memory, the single bytes of a key comparison and of the filling
  of a node no other thread can see yet (one access each; \<^verbatim>\<open>strncpy\<close> into a value others may read is byte by
  byte, from the front), the bytes of the arena's blocks (its calls on them are), floating-point formatting,
  timings, the text of the usage message, constants no code uses. In \<^verbatim>\<open>Server_Process\<close> the serving of a connection is one step; \<^verbatim>\<open>Storage_Steps\<close> takes its table accesses
  apart. Headers without an implementation are left out.
\<close>

end
